(* ===== verification/Chain_Prelude.thy ===== *)
theory Chain_Prelude
  imports Main
begin

text \<open>
  What every component of the development shares: the exceptions the C++ code throws, the result
  type of a computation that may throw, the sequencing of such computations, and the tables of
  objects that stand for the indices of the object database (\<open>libraries/db\<close>).

  \<^item> An \<open>FC_ASSERT\<close>, \<open>GRAPHENE_ASSERT\<close>, \<open>FC_THROW\<close> or a checked arithmetic operation that
    throws is the value \<open>Inl e\<close>; a normal return is \<open>Inr v\<close>. State that was changed before a throw
    is dropped, as the enclosing undo session does.
  \<^item> The C \<open>assert\<close> macro is compiled out of a release build and is not modelled as a check.
  \<^item> A multi-index container is a table: the rows in the order of their creation and the next
    object id. The sorted views (\<open>by_price\<close> and the like) are computed from the rows.
\<close>

section \<open>Exceptions and results\<close>

datatype chain_error =
    Assert_exception
  | Overflow_exception
  | Underflow_exception
  | Divide_by_zero_exception
  | Bad_rational
  | Std_exception
  | Black_swan_exception
  | Insufficient_feeds
  | Unlinkable_block_exception
  | Undo_database_exception
  | Transfer_from_account_not_whitelisted
  | Transfer_to_account_not_whitelisted
  | Transfer_restricted_transfer_asset
  | Call_order_update_unfilled_margin_call
  | Invalid_committee_approval
  | Tx_missing_other_auth
  | Tx_missing_active_auth
  | Tx_missing_owner_auth
  | Tx_irrelevant_sig
  | Tx_duplicate_sig
  | Out_of_range_exception
  | Key_not_found_exception
  | Pop_empty_chain
  | Terminated
  | Undefined_behaviour

type_synonym 'a result = "chain_error + 'a"

definition bindE :: "'a result \<Rightarrow> ('a \<Rightarrow> 'b result) \<Rightarrow> 'b result" where
  "bindE m f = (case m of Inl e \<Rightarrow> Inl e | Inr x \<Rightarrow> f x)"

definition checkE :: "bool \<Rightarrow> chain_error \<Rightarrow> unit result" where
  "checkE c e = (if c then Inr () else Inl e)"

primrec foldE :: "('a \<Rightarrow> 's \<Rightarrow> 's result) \<Rightarrow> 'a list \<Rightarrow> 's \<Rightarrow> 's result" where
  "foldE f [] s = Inr s"
| "foldE f (x # xs) s = bindE (f x s) (foldE f xs)"

section \<open>Tables of objects\<close>

text \<open>
  \<open>generic_index\<close> assigns ids in sequence and never reuses one; \<open>oid\<close> reads the id of a row.
\<close>

record 'a table =
  next_id :: nat
  rows :: "'a list"

definition empty_table :: "'a table" where
  "empty_table = \<lparr>next_id = 0, rows = []\<rparr>"

definition tfind :: "('a \<Rightarrow> nat) \<Rightarrow> nat \<Rightarrow> 'a table \<Rightarrow> 'a option" where
  "tfind oid i t = List.find (\<lambda>r. oid r = i) (rows t)"

definition tget :: "('a \<Rightarrow> nat) \<Rightarrow> nat \<Rightarrow> 'a table \<Rightarrow> 'a result" where
  "tget oid i t = (case tfind oid i t of None \<Rightarrow> Inl Assert_exception | Some r \<Rightarrow> Inr r)"

definition tcreate :: "(nat \<Rightarrow> 'a) \<Rightarrow> 'a table \<Rightarrow> 'a table" where
  "tcreate mk t = t\<lparr>next_id := Suc (next_id t), rows := rows t @ [mk (next_id t)]\<rparr>"

definition tinsert :: "('a \<Rightarrow> nat) \<Rightarrow> 'a \<Rightarrow> 'a table \<Rightarrow> 'a table result" where
  "tinsert oid r t =
     (if tfind oid (oid r) t \<noteq> None then Inl Assert_exception
      else Inr (t\<lparr>rows := rows t @ [r]\<rparr>))"

definition tmodify :: "('a \<Rightarrow> nat) \<Rightarrow> nat \<Rightarrow> ('a \<Rightarrow> 'a) \<Rightarrow> 'a table \<Rightarrow> 'a table" where
  "tmodify oid i f t = t\<lparr>rows := map (\<lambda>r. if oid r = i then f r else r) (rows t)\<rparr>"

definition tremove :: "('a \<Rightarrow> nat) \<Rightarrow> nat \<Rightarrow> 'a table \<Rightarrow> 'a table" where
  "tremove oid i t = t\<lparr>rows := filter (\<lambda>r. oid r \<noteq> i) (rows t)\<rparr>"

definition table_wf :: "('a \<Rightarrow> nat) \<Rightarrow> 'a table \<Rightarrow> bool" where
  "table_wf oid t \<longleftrightarrow> distinct (map oid (rows t)) \<and> (\<forall>r \<in> set (rows t). oid r < next_id t)"

definition tsum :: "('a \<Rightarrow> int) \<Rightarrow> 'a table \<Rightarrow> int" where
  "tsum g t = sum_list (map g (rows t))"

section \<open>Collections of facts\<close>

named_theorems table_simps
named_theorems chain_frame

section \<open>Sequencing\<close>

lemma bindE_simps [simp]: "bindE (Inl e) f = Inl e" "bindE (Inr x) f = f x"
  by (simp_all add: bindE_def)

lemma bindE_eq_Inr [simp]: "bindE m f = Inr y \<longleftrightarrow> (\<exists>x. m = Inr x \<and> f x = Inr y)"
  by (cases m) simp_all

lemma bindE_eq_Inl: "bindE m f = Inl e \<longleftrightarrow> m = Inl e \<or> (\<exists>x. m = Inr x \<and> f x = Inl e)"
  by (cases m) simp_all

lemma bindE_assoc: "bindE (bindE m f) g = bindE m (\<lambda>x. bindE (f x) g)"
  by (cases m) simp_all

lemma bindE_cong [fundef_cong]:
  "m = m' \<Longrightarrow> (\<And>x. m' = Inr x \<Longrightarrow> f x = f' x) \<Longrightarrow> bindE m f = bindE m' f'"
  by (cases m') simp_all

lemma checkE_eq_Inr [simp]: "checkE c e = Inr u \<longleftrightarrow> c"
  by (simp add: checkE_def)

lemma checkE_eq_Inl [simp]: "checkE c e = Inl e' \<longleftrightarrow> \<not> c \<and> e' = e"
  by (auto simp: checkE_def)

lemma if_throw_Inr [simp]:
  "(if c then Inl e else r) = Inr y \<longleftrightarrow> \<not> c \<and> r = Inr y"
  "(if c then r else Inl e) = Inr y \<longleftrightarrow> c \<and> r = Inr y"
  by simp_all

lemma case_option_throw_Inr [simp]:
  "(case x of None \<Rightarrow> Inl e | Some v \<Rightarrow> f v) = Inr y \<longleftrightarrow> (\<exists>v. x = Some v \<and> f v = Inr y)"
  by (cases x) simp_all

lemma case_list_Inr:
  "(case xs of [] \<Rightarrow> a | y # ys \<Rightarrow> f y ys) = Inr r \<longleftrightarrow> xs = [] \<and> a = Inr r \<or> (\<exists>y ys. xs = y # ys \<and> f y ys = Inr r)"
  by (cases xs) auto


lemma foldE_append: "foldE f (xs @ ys) s = bindE (foldE f xs s) (foldE f ys)"
proof (induction xs arbitrary: s)
  case (Cons x xs)
  then show ?case by (cases "f x s") simp_all
qed simp

lemma foldE_invariant:
  assumes "foldE f xs s = Inr s'" and "P s"
    and "\<And>x s s'. x \<in> set xs \<Longrightarrow> P s \<Longrightarrow> f x s = Inr s' \<Longrightarrow> P s'"
  shows "P s'"
  using assms by (induction xs arbitrary: s) auto

lemma foldE_total:
  assumes "P s" and "\<And>x s. x \<in> set xs \<Longrightarrow> P s \<Longrightarrow> \<exists>s'. f x s = Inr s' \<and> P s'"
  shows "\<exists>s'. foldE f xs s = Inr s' \<and> P s'"
  using assms
proof (induction xs arbitrary: s)
  case Nil
  then show ?case by simp
next
  case (Cons x xs)
  from Cons.prems(2) [of x s] Cons.prems(1) obtain s1 where "f x s = Inr s1" and "P s1"
    by auto
  with Cons.IH [of s1] Cons.prems(2) show ?case by auto
qed

section \<open>Table lemmas\<close>

lemma find_id_Some_iff:
  "distinct (map oid xs) \<Longrightarrow> List.find (\<lambda>r. oid r = i) xs = Some r \<longleftrightarrow> r \<in> set xs \<and> oid r = i"
  by (induction xs) (auto simp: inj_on_def)

lemma find_id_None_iff: "List.find (\<lambda>r. oid r = i) xs = None \<longleftrightarrow> i \<notin> oid ` set xs"
  by (induction xs) auto

lemma tget_eq_Inr [simp]: "tget oid i t = Inr r \<longleftrightarrow> tfind oid i t = Some r"
  by (simp add: tget_def)

lemma tfind_Some_iff:
  "table_wf oid t \<Longrightarrow> tfind oid i t = Some r \<longleftrightarrow> r \<in> set (rows t) \<and> oid r = i"
  by (simp add: tfind_def table_wf_def find_id_Some_iff)

lemma tfind_SomeD: "tfind oid i t = Some r \<Longrightarrow> r \<in> set (rows t) \<and> oid r = i"
  by (auto simp: tfind_def find_Some_iff)

lemma tfind_id: "tfind oid i t = Some r \<Longrightarrow> oid r = i"
  by (simp add: tfind_SomeD)

lemma tfind_lt_next: "table_wf oid t \<Longrightarrow> tfind oid i t = Some r \<Longrightarrow> i < next_id t"
  by (auto simp: table_wf_def dest!: tfind_SomeD)

lemma table_wf_empty [simp]: "table_wf oid empty_table"
  by (simp add: table_wf_def empty_table_def)

lemma table_wf_create [table_simps]:
  "table_wf oid t \<Longrightarrow> oid (mk (next_id t)) = next_id t \<Longrightarrow> table_wf oid (tcreate mk t)"
  by (auto simp: table_wf_def tcreate_def)

lemma table_wf_modify [table_simps]:
  assumes "table_wf oid t" and "\<And>r. oid (f r) = oid r"
  shows "table_wf oid (tmodify oid i f t)"
proof -
  have "map oid (map (\<lambda>r. if oid r = i then f r else r) (rows t)) = map oid (rows t)"
    using assms(2) by simp
  then show ?thesis
    using assms by (auto simp: table_wf_def tmodify_def simp del: map_map)
qed

lemma table_wf_remove [table_simps]: "table_wf oid t \<Longrightarrow> table_wf oid (tremove oid i t)"
  by (auto simp: table_wf_def tremove_def distinct_map_filter)

lemma tfind_create:
  assumes "table_wf oid t" and "oid (mk (next_id t)) = next_id t"
  shows "tfind oid i (tcreate mk t) = (if i = next_id t then Some (mk i) else tfind oid i t)"
proof -
  have "next_id t \<notin> oid ` set (rows t)"
    using assms(1) by (auto simp: table_wf_def)
  then have none: "List.find (\<lambda>r. oid r = next_id t) (rows t) = None"
    by (simp add: find_id_None_iff)
  have app: "List.find P (xs @ [x]) =
      (case List.find P xs of None \<Rightarrow> if P x then Some x else None | Some y \<Rightarrow> Some y)"
    for P :: "'a \<Rightarrow> bool" and xs x
    by (induction xs) auto
  show ?thesis
    using assms(2) none by (auto simp: tfind_def tcreate_def app split: option.splits)
qed

lemma find_map_modify:
  assumes "\<And>r. oid (f r) = oid r"
  shows "List.find (\<lambda>r. oid r = j) (map (\<lambda>r. if oid r = i then f r else r) xs) =
    map_option (\<lambda>r. if oid r = i then f r else r) (List.find (\<lambda>r. oid r = j) xs)"
  using assms by (induction xs) auto

lemma tfind_modify:
  assumes "\<And>r. oid (f r) = oid r"
  shows "tfind oid j (tmodify oid i f t) =
    (if j = i then map_option f (tfind oid j t) else tfind oid j t)"
proof -
  have "tfind oid j (tmodify oid i f t) =
      map_option (\<lambda>r. if oid r = i then f r else r) (tfind oid j t)"
    using find_map_modify [of oid f, OF assms] by (simp add: tfind_def tmodify_def)
  then show ?thesis by (cases "tfind oid j t") (auto dest: tfind_id)
qed

lemma tfind_remove:
  "tfind oid j (tremove oid i t) = (if j = i then None else tfind oid j t)"
proof -
  have "List.find (\<lambda>r. oid r = j) (filter (\<lambda>r. oid r \<noteq> i) xs) =
      (if j = i then None else List.find (\<lambda>r. oid r = j) xs)" for xs
    by (induction xs) auto
  then show ?thesis by (simp add: tfind_def tremove_def)
qed

lemma next_id_table [simp]:
  "next_id (tcreate mk t) = Suc (next_id t)"
  "next_id (tmodify oid i f t) = next_id t"
  "next_id (tremove oid i t) = next_id t"
  by (simp_all add: tcreate_def tmodify_def tremove_def)

subsection \<open>Sums over a table\<close>

lemma tsum_create [table_simps]: "tsum g (tcreate mk t) = tsum g t + g (mk (next_id t))"
  by (simp add: tsum_def tcreate_def)

lemma sum_list_modify_id:
  "distinct (map oid xs) \<Longrightarrow> r \<in> set xs \<Longrightarrow> oid r = i \<Longrightarrow>
    sum_list (map g (map (\<lambda>r. if oid r = i then f r else r) xs)) =
    sum_list (map g xs) - g r + (g (f r) :: int)"
proof (induction xs)
  case Nil
  then show ?case by simp
next
  case (Cons x xs)
  show ?case
  proof (cases "oid x = i")
    case True
    with Cons.prems have "r = x" and "i \<notin> oid ` set xs"
      by (auto simp: image_iff)
    moreover from this have "map (\<lambda>r. if oid r = i then f r else r) xs = xs"
      by (auto intro!: map_idI)
    ultimately show ?thesis using True by simp
  next
    case False
    with Cons show ?thesis by auto
  qed
qed

lemma tsum_modify [table_simps]:
  assumes "table_wf oid t" and "tfind oid i t = Some r"
  shows "tsum g (tmodify oid i f t) = tsum g t - g r + g (f r)"
proof -
  from assms have "distinct (map oid (rows t))" and "r \<in> set (rows t)" and "oid r = i"
    by (auto simp: table_wf_def dest: tfind_SomeD)
  from sum_list_modify_id [OF this, of g f] show ?thesis
    by (simp add: tsum_def tmodify_def)
qed

lemma sum_list_remove_id:
  "distinct (map oid xs) \<Longrightarrow> r \<in> set xs \<Longrightarrow> oid r = i \<Longrightarrow>
    sum_list (map g (filter (\<lambda>r. oid r \<noteq> i) xs)) = sum_list (map g xs) - (g r :: int)"
proof (induction xs)
  case Nil
  then show ?case by simp
next
  case (Cons x xs)
  show ?case
  proof (cases "oid x = i")
    case True
    with Cons.prems have "r = x" and "i \<notin> oid ` set xs"
      by (auto simp: image_iff)
    moreover from this have "filter (\<lambda>r. oid r \<noteq> i) xs = xs"
      by (auto intro!: filter_True)
    ultimately show ?thesis using True by simp
  next
    case False
    with Cons show ?thesis by auto
  qed
qed

lemma tsum_remove [table_simps]:
  assumes "table_wf oid t" and "tfind oid i t = Some r"
  shows "tsum g (tremove oid i t) = tsum g t - g r"
proof -
  from assms have "distinct (map oid (rows t))" and "r \<in> set (rows t)" and "oid r = i"
    by (auto simp: table_wf_def dest: tfind_SomeD)
  from sum_list_remove_id [OF this, of g] show ?thesis
    by (simp add: tsum_def tremove_def)
qed

end
