(* ===== verification/Undo_Db.thy ===== *)
theory Undo_Db
  imports Chain_Prelude
begin

text \<open>
  The object database with its undo history: \<open>db/undo_database.cpp\<close>, and of
  \<open>db/object_database.hpp\<close>, \<open>db/index.hpp\<close> and \<open>db/generic_index.hpp\<close> the creation, modification,
  removal and insertion of objects with the undo hooks they call.

  An object id is an index (space and type) and an instance number. The objects are a map from ids to
  values of an arbitrary type; \<open>undo_state\<close> holds the four containers of the source as lists with
  distinct keys (the source iterates over hash maps, so the order is not significant). The top of the
  deque is the head of the list. The registry of indices, the observers, the secondary indices and the
  uniqueness constraints of the secondary keys are not part of this model.

  The abstract specification is a stack of snapshots: starting a session saves the whole database,
  undoing restores it, merging drops the innermost snapshot. The refinement lemmas show that the
  incremental bookkeeping implements exactly that.
\<close>

section \<open>State\<close>

type_synonym idx = "nat \<times> nat"
type_synonym oid = "idx \<times> nat"

record 'o undo_state =
  old_values :: "(oid \<times> 'o) list"
  old_index_next_ids :: "(idx \<times> nat) list"
  new_ids :: "oid list"
  removed :: "(oid \<times> 'o) list"

record 'o undo_database =
  objects :: "oid \<rightharpoonup> 'o"
  next_ids :: "idx \<Rightarrow> nat"
  active_sessions :: nat
  disabled :: bool
  stack :: "'o undo_state list"
  max_size :: nat

definition empty_state :: "'o undo_state" where
  "empty_state = \<lparr>old_values = [], old_index_next_ids = [], new_ids = [], removed = []\<rparr>"

section \<open>The undo hooks\<close>

definition top_stack :: "'o undo_database \<Rightarrow> 'o undo_state list" where
  "top_stack d = (if stack d = [] then [empty_state] else stack d)"

definition on_create_state :: "oid \<Rightarrow> 'o undo_state \<Rightarrow> 'o undo_state" where
  "on_create_state i st =
     (let st' = (if map_of (old_index_next_ids st) (fst i) = None
                 then st\<lparr>old_index_next_ids := old_index_next_ids st @ [(fst i, snd i)]\<rparr> else st)
      in st'\<lparr>new_ids := List.insert i (new_ids st')\<rparr>)"

definition on_create :: "oid \<Rightarrow> 'o undo_database \<Rightarrow> 'o undo_database" where
  "on_create i d =
     (if disabled d then d
      else let stk = top_stack d in d\<lparr>stack := on_create_state i (hd stk) # tl stk\<rparr>)"

definition on_modify_state :: "oid \<Rightarrow> 'o \<Rightarrow> 'o undo_state \<Rightarrow> 'o undo_state" where
  "on_modify_state i v st =
     (if i \<in> set (new_ids st) then st
      else if map_of (old_values st) i \<noteq> None then st
      else st\<lparr>old_values := old_values st @ [(i, v)]\<rparr>)"

definition on_modify :: "oid \<Rightarrow> 'o \<Rightarrow> 'o undo_database \<Rightarrow> 'o undo_database" where
  "on_modify i v d =
     (if disabled d then d
      else let stk = top_stack d in d\<lparr>stack := on_modify_state i v (hd stk) # tl stk\<rparr>)"

definition on_remove_state :: "oid \<Rightarrow> 'o \<Rightarrow> 'o undo_state \<Rightarrow> 'o undo_state" where
  "on_remove_state i v st =
     (if i \<in> set (new_ids st) then st\<lparr>new_ids := filter (\<lambda>j. j \<noteq> i) (new_ids st)\<rparr>
      else case map_of (old_values st) i of
        Some w \<Rightarrow> st\<lparr>removed := removed st @ [(i, w)],
                     old_values := filter (\<lambda>p. fst p \<noteq> i) (old_values st)\<rparr>
      | None \<Rightarrow> if map_of (removed st) i \<noteq> None then st
                else st\<lparr>removed := removed st @ [(i, v)]\<rparr>)"

definition on_remove :: "oid \<Rightarrow> 'o \<Rightarrow> 'o undo_database \<Rightarrow> 'o undo_database" where
  "on_remove i v d =
     (if disabled d then d
      else let stk = top_stack d in d\<lparr>stack := on_remove_state i v (hd stk) # tl stk\<rparr>)"

section \<open>Object operations\<close>

definition db_insert :: "oid \<Rightarrow> 'o \<Rightarrow> 'o undo_database \<Rightarrow> 'o undo_database result" where
  "db_insert i v d =
     (if objects d i \<noteq> None then Inl Assert_exception
      else Inr (d\<lparr>objects := (objects d)(i \<mapsto> v)\<rparr>))"

definition db_create :: "idx \<Rightarrow> 'o \<Rightarrow> 'o undo_database \<Rightarrow> 'o undo_database result" where
  "db_create ix v d =
     (let i = (ix, next_ids d ix) in
      if objects d i \<noteq> None then Inl Assert_exception
      else Inr (on_create i
        (d\<lparr>objects := (objects d)(i \<mapsto> v), next_ids := (next_ids d)(ix := Suc (next_ids d ix))\<rparr>)))"

definition db_modify :: "oid \<Rightarrow> ('o \<Rightarrow> 'o) \<Rightarrow> 'o undo_database \<Rightarrow> 'o undo_database result" where
  "db_modify i f d =
     (case objects d i of
        None \<Rightarrow> Inl Assert_exception
      | Some v \<Rightarrow> let d' = on_modify i v d in Inr (d'\<lparr>objects := (objects d')(i \<mapsto> f v)\<rparr>))"

definition db_remove :: "oid \<Rightarrow> 'o undo_database \<Rightarrow> 'o undo_database result" where
  "db_remove i d =
     (case objects d i of
        None \<Rightarrow> Inl Assert_exception
      | Some v \<Rightarrow> let d' = on_remove i v d in Inr (d'\<lparr>objects := (objects d')(i := None)\<rparr>))"

section \<open>Sessions\<close>

definition enable :: "'o undo_database \<Rightarrow> 'o undo_database" where
  "enable d = d\<lparr>disabled := False\<rparr>"

definition disable :: "'o undo_database \<Rightarrow> 'o undo_database" where
  "disable d = d\<lparr>disabled := True\<rparr>"

text \<open>\<open>start_undo_session\<close>: the oldest states are dropped while there are more than \<open>max_size\<close>.\<close>

definition start_undo_session :: "bool \<Rightarrow> 'o undo_database \<Rightarrow> 'o undo_database" where
  "start_undo_session force_enable d =
     (if disabled d \<and> \<not> force_enable then d
      else d\<lparr>disabled := (if force_enable then False else disabled d),
             stack := empty_state # take (max_size d) (stack d),
             active_sessions := Suc (active_sessions d)\<rparr>)"

definition restore :: "'o undo_state \<Rightarrow> 'o undo_database \<Rightarrow> 'o undo_database result" where
  "restore st d =
     bindE (foldE (\<lambda>p. db_modify (fst p) (\<lambda>_. snd p)) (old_values st) d) (\<lambda>d1.
     bindE (foldE db_remove (new_ids st) d1) (\<lambda>d2.
     let d3 = fold (\<lambda>p e. e\<lparr>next_ids := (next_ids e)(fst p := snd p)\<rparr>) (old_index_next_ids st) d2 in
     foldE (\<lambda>p. db_insert (fst p) (snd p)) (removed st) d3))"

definition undo :: "'o undo_database \<Rightarrow> 'o undo_database result" where
  "undo d =
     (if disabled d then Inl Assert_exception
      else if \<not> active_sessions d > 0 then Inl Assert_exception
      else case stack d of
        [] \<Rightarrow> Inl Undefined_behaviour
      | st # sts \<Rightarrow>
          bindE (restore st (disable d)) (\<lambda>d'.
          Inr ((enable (d'\<lparr>stack := tl (stack d')\<rparr>))\<lparr>active_sessions := active_sessions d' - 1\<rparr>)))"

definition merge_upd :: "oid \<times> 'o \<Rightarrow> 'o undo_state \<Rightarrow> 'o undo_state" where
  "merge_upd p prev =
     (if fst p \<in> set (new_ids prev) then prev
      else if map_of (old_values prev) (fst p) \<noteq> None then prev
      else prev\<lparr>old_values := old_values prev @ [p]\<rparr>)"

definition merge_new :: "oid \<Rightarrow> 'o undo_state \<Rightarrow> 'o undo_state" where
  "merge_new i prev = prev\<lparr>new_ids := List.insert i (new_ids prev)\<rparr>"

definition merge_next :: "idx \<times> nat \<Rightarrow> 'o undo_state \<Rightarrow> 'o undo_state" where
  "merge_next p prev =
     (if map_of (old_index_next_ids prev) (fst p) = None
      then prev\<lparr>old_index_next_ids := old_index_next_ids prev @ [p]\<rparr> else prev)"

definition merge_del :: "oid \<times> 'o \<Rightarrow> 'o undo_state \<Rightarrow> 'o undo_state" where
  "merge_del p prev =
     (if fst p \<in> set (new_ids prev) then prev\<lparr>new_ids := filter (\<lambda>j. j \<noteq> fst p) (new_ids prev)\<rparr>
      else case map_of (old_values prev) (fst p) of
        Some w \<Rightarrow> prev\<lparr>removed := removed prev @ [(fst p, w)],
                       old_values := filter (\<lambda>q. fst q \<noteq> fst p) (old_values prev)\<rparr>
      | None \<Rightarrow> prev\<lparr>removed := removed prev @ [p]\<rparr>)"

definition merge_states :: "'o undo_state \<Rightarrow> 'o undo_state \<Rightarrow> 'o undo_state" where
  "merge_states st prev =
     fold merge_del (removed st) (fold merge_next (old_index_next_ids st)
       (fold merge_new (new_ids st) (fold merge_upd (old_values st) prev)))"

definition merge :: "'o undo_database \<Rightarrow> 'o undo_database result" where
  "merge d =
     (if \<not> active_sessions d > 0 then Inl Assert_exception
      else if active_sessions d = 1 \<and> length (stack d) = 1
      then Inr (d\<lparr>stack := [], active_sessions := 0\<rparr>)
      else case stack d of
        st # prev # sts \<Rightarrow>
          Inr (d\<lparr>stack := merge_states st prev # sts, active_sessions := active_sessions d - 1\<rparr>)
      | _ \<Rightarrow> Inl Assert_exception)"

definition commit :: "'o undo_database \<Rightarrow> 'o undo_database result" where
  "commit d =
     (if \<not> active_sessions d > 0 then Inl Assert_exception
      else Inr (d\<lparr>active_sessions := active_sessions d - 1\<rparr>))"

definition pop_commit :: "'o undo_database \<Rightarrow> 'o undo_database result" where
  "pop_commit d =
     (if active_sessions d \<noteq> 0 then Inl Assert_exception
      else case stack d of
        [] \<Rightarrow> Inl Assert_exception
      | st # sts \<Rightarrow>
          bindE (restore st (disable d)) (\<lambda>d'. Inr (enable (d'\<lparr>stack := tl (stack d')\<rparr>))))"

text \<open>The operations a client of the database may interleave.\<close>

datatype 'o undo_op =
    Create idx 'o
  | Modify oid "'o \<Rightarrow> 'o"
  | Remove oid
  | Start bool
  | Undo
  | Merge
  | Commit
  | Pop_commit

fun undo_step :: "'o undo_op \<Rightarrow> 'o undo_database \<Rightarrow> 'o undo_database result" where
  "undo_step (Create ix v) d = db_create ix v d"
| "undo_step (Modify i f) d = db_modify i f d"
| "undo_step (Remove i) d = db_remove i d"
| "undo_step (Start force) d = Inr (start_undo_session force d)"
| "undo_step Undo d = undo d"
| "undo_step Merge d = merge d"
| "undo_step Commit d = commit d"
| "undo_step Pop_commit d = pop_commit d"

text \<open>An object database as constructed: no objects, undo enabled, no session.\<close>

definition undo_init :: "nat \<Rightarrow> 'o undo_database" where
  "undo_init m = \<lparr>objects = Map.empty, next_ids = (\<lambda>_. 0), active_sessions = 0, disabled = False,
     stack = [], max_size = m\<rparr>"

section \<open>The abstract specification: a stack of snapshots\<close>

type_synonym 'o snapshot = "(oid \<rightharpoonup> 'o) \<times> (idx \<Rightarrow> nat)"

record 'o snap_db =
  current :: "'o snapshot"
  snapshots :: "'o snapshot list"
  s_active :: nat
  s_disabled :: bool
  s_max :: nat

definition snap_init :: "nat \<Rightarrow> 'o snap_db" where
  "snap_init m = \<lparr>current = (Map.empty, \<lambda>_. 0), snapshots = [], s_active = 0, s_disabled = False, s_max = m\<rparr>"

text \<open>Without a session, the first change opens a state of its own.\<close>

definition snap_touch :: "'o snap_db \<Rightarrow> 'o snap_db" where
  "snap_touch a = (if \<not> s_disabled a \<and> snapshots a = [] then a\<lparr>snapshots := [current a]\<rparr> else a)"

fun snap_step :: "'o undo_op \<Rightarrow> 'o snap_db \<Rightarrow> 'o snap_db result" where
  "snap_step (Create ix v) a =
     (let (objs, nx) = current a; i = (ix, nx ix) in
      if objs i \<noteq> None then Inl Assert_exception
      else Inr ((snap_touch a)\<lparr>current := (objs(i \<mapsto> v), nx(ix := Suc (nx ix)))\<rparr>))"
| "snap_step (Modify i f) a =
     (case fst (current a) i of None \<Rightarrow> Inl Assert_exception
      | Some v \<Rightarrow> Inr ((snap_touch a)\<lparr>current := ((fst (current a))(i \<mapsto> f v), snd (current a))\<rparr>))"
| "snap_step (Remove i) a =
     (case fst (current a) i of None \<Rightarrow> Inl Assert_exception
      | Some v \<Rightarrow> Inr ((snap_touch a)\<lparr>current := ((fst (current a))(i := None), snd (current a))\<rparr>))"
| "snap_step (Start force) a =
     (if s_disabled a \<and> \<not> force then Inr a
      else Inr (a\<lparr>snapshots := current a # take (s_max a) (snapshots a),
                  s_active := Suc (s_active a), s_disabled := False\<rparr>))"
| "snap_step Undo a =
     (if s_disabled a \<or> s_active a = 0 then Inl Assert_exception
      else case snapshots a of [] \<Rightarrow> Inl Undefined_behaviour
      | s # ss \<Rightarrow> Inr (a\<lparr>current := s, snapshots := ss, s_active := s_active a - 1\<rparr>))"
| "snap_step Merge a =
     (if s_active a = 0 then Inl Assert_exception
      else if s_active a = 1 \<and> length (snapshots a) = 1
      then Inr (a\<lparr>snapshots := [], s_active := 0\<rparr>)
      else case snapshots a of
        s # s' # ss \<Rightarrow> Inr (a\<lparr>snapshots := s' # ss, s_active := s_active a - 1\<rparr>)
      | _ \<Rightarrow> Inl Assert_exception)"
| "snap_step Commit a =
     (if s_active a = 0 then Inl Assert_exception else Inr (a\<lparr>s_active := s_active a - 1\<rparr>))"
| "snap_step Pop_commit a =
     (if s_active a \<noteq> 0 then Inl Assert_exception
      else case snapshots a of [] \<Rightarrow> Inl Assert_exception
      | s # ss \<Rightarrow> Inr (a\<lparr>current := s, snapshots := ss, s_disabled := False\<rparr>))"

section \<open>What an undo state records\<close>

definition fresh :: "'o snapshot \<Rightarrow> bool" where
  "fresh s \<longleftrightarrow> (\<forall>ix n. snd s ix \<le> n \<longrightarrow> fst s (ix, n) = None)"

definition keys_ok :: "'o undo_state \<Rightarrow> bool" where
  "keys_ok st \<longleftrightarrow> distinct (map fst (old_values st)) \<and> distinct (new_ids st) \<and>
     distinct (map fst (removed st)) \<and> distinct (map fst (old_index_next_ids st))"

definition records_obj :: "'o option \<Rightarrow> 'o option \<Rightarrow> oid \<Rightarrow> 'o undo_state \<Rightarrow> bool" where
  "records_obj before now i st \<longleftrightarrow>
     (if i \<in> set (new_ids st)
      then before = None \<and> now \<noteq> None \<and> map_of (old_values st) i = None \<and> map_of (removed st) i = None
      else case map_of (old_values st) i of
        Some v \<Rightarrow> before = Some v \<and> now \<noteq> None \<and> map_of (removed st) i = None
      | None \<Rightarrow> (case map_of (removed st) i of
          Some v \<Rightarrow> before = Some v \<and> now = None
        | None \<Rightarrow> now = before))"

definition records_next :: "nat \<Rightarrow> nat \<Rightarrow> idx \<Rightarrow> 'o undo_state \<Rightarrow> bool" where
  "records_next before now ix st \<longleftrightarrow> before \<le> now \<and>
     (case map_of (old_index_next_ids st) ix of None \<Rightarrow> now = before | Some n \<Rightarrow> before = n)"

definition records :: "'o snapshot \<Rightarrow> 'o snapshot \<Rightarrow> 'o undo_state \<Rightarrow> bool" where
  "records s0 s st \<longleftrightarrow> keys_ok st \<and> fresh s0 \<and> fresh s \<and>
     (\<forall>i. records_obj (fst s0 i) (fst s i) i st) \<and>
     (\<forall>ix. records_next (snd s0 ix) (snd s ix) ix st) \<and>
     (\<forall>i \<in> set (new_ids st). snd s0 (fst i) \<le> snd i)"

fun stack_rel :: "'o snapshot \<Rightarrow> 'o undo_state list \<Rightarrow> 'o snapshot list \<Rightarrow> bool" where
  "stack_rel s [] [] = fresh s"
| "stack_rel s (st # sts) (s0 # ss) = (records s0 s st \<and> stack_rel s0 sts ss)"
| "stack_rel _ _ _ = False"

definition undo_rel :: "'o undo_database \<Rightarrow> 'o snap_db \<Rightarrow> bool" where
  "undo_rel d a \<longleftrightarrow> current a = (objects d, next_ids d) \<and> s_active a = active_sessions d \<and>
     s_disabled a = disabled d \<and> \<not> disabled d \<and> s_max a = max_size d \<and>
     stack_rel (objects d, next_ids d) (stack d) (snapshots a)"

section \<open>Lemmas on keyed lists\<close>

declare split_paired_All [simp del] split_paired_Ex [simp del]

lemma map_of_filter_ne: "map_of (filter (\<lambda>p. fst p \<noteq> k) xs) = (map_of xs)(k := None)"
  by (induction xs) auto

lemma map_of_snoc: "map_of (xs @ [(k, v)]) k' = (case map_of xs k' of None \<Rightarrow> if k' = k then Some v else None | Some w \<Rightarrow> Some w)"
  by (auto simp: map_add_def split: option.splits)

lemma map_of_eq_None_key: "map_of xs k = None \<Longrightarrow> k \<notin> set (map fst xs)"
  by (simp add: map_of_eq_None_iff)

lemmas undo_lists = map_of_filter_ne map_of_snoc distinct_map_filter

section \<open>The hooks keep the record\<close>

lemma recordsD:
  assumes "records s0 s st"
  shows "keys_ok st" "fresh s0" "fresh s" "records_obj (fst s0 i) (fst s i) i st"
    "records_next (snd s0 ix) (snd s ix) ix st" "j \<in> set (new_ids st) \<Longrightarrow> snd s0 (fst j) \<le> snd j"
  using assms by (auto simp: records_def)

lemma records_next_le: "records_next before now ix st \<Longrightarrow> before \<le> now"
  by (simp add: records_next_def)

lemma records_next_cong:
  "old_index_next_ids st' = old_index_next_ids st \<Longrightarrow> records_next b n ix st' = records_next b n ix st"
  by (simp add: records_next_def)

lemma records_empty: "fresh s \<Longrightarrow> records s s empty_state"
  by (simp add: records_def records_obj_def records_next_def keys_ok_def empty_state_def)

lemma fresh_upd: "fresh (objs, nx) \<Longrightarrow> objs i \<noteq> None \<Longrightarrow> fresh (objs(i := x), nx)"
  by (auto simp: fresh_def)

lemma fresh_create: "fresh (objs, nx) \<Longrightarrow> fresh (objs((ix, nx ix) \<mapsto> v), nx(ix := Suc (nx ix)))"
  by (auto simp: fresh_def)

lemma create_untouched:
  assumes "records s0 (objs, nx) st"
  shows "(ix, nx ix) \<notin> set (new_ids st)" "map_of (old_values st) (ix, nx ix) = None"
    "map_of (removed st) (ix, nx ix) = None" "fst s0 (ix, nx ix) = None"
proof -
  have now: "objs (ix, nx ix) = None"
    using recordsD(3) [OF assms] by (simp add: fresh_def)
  have s0: "fst s0 (ix, nx ix) = None"
    using recordsD(2) [OF assms] records_next_le [OF recordsD(5) [OF assms, of ix]] by (simp add: fresh_def)
  from now s0 recordsD(4) [OF assms, of "(ix, nx ix)"]
  show "(ix, nx ix) \<notin> set (new_ids st)" "map_of (old_values st) (ix, nx ix) = None"
    "map_of (removed st) (ix, nx ix) = None" "fst s0 (ix, nx ix) = None"
    by (auto simp: records_obj_def split: if_splits option.splits)
qed

lemma on_create_state_simps:
  "new_ids (on_create_state i st) = List.insert i (new_ids st)"
  "old_values (on_create_state i st) = old_values st"
  "removed (on_create_state i st) = removed st"
  "old_index_next_ids (on_create_state i st) =
     (if map_of (old_index_next_ids st) (fst i) = None
      then old_index_next_ids st @ [(fst i, snd i)] else old_index_next_ids st)"
  by (simp_all add: on_create_state_def Let_def)

lemma on_create_records:
  assumes "records s0 (objs, nx) st"
  shows "records s0 (objs((ix, nx ix) \<mapsto> v), nx(ix := Suc (nx ix))) (on_create_state (ix, nx ix) st)"
proof -
  let ?i = "(ix, nx ix)" and ?st = "on_create_state (ix, nx ix) st"
  note new = create_untouched [OF assms, of ix]
  have keys: "keys_ok ?st"
    using recordsD(1) [OF assms] map_of_eq_None_key [of "old_index_next_ids st" ix]
    by (auto simp: keys_ok_def on_create_state_simps distinct_insert)
  have obj: "records_obj (fst s0 j) ((objs(?i \<mapsto> v)) j) j ?st" for j
    using recordsD(4) [OF assms, of j] new
    by (auto simp: records_obj_def on_create_state_simps split: option.splits if_splits)
  have nxt: "records_next (snd s0 jx) ((nx(ix := Suc (nx ix))) jx) jx ?st" for jx
    using recordsD(5) [OF assms, of jx]
    by (auto simp: records_next_def on_create_state_simps map_of_snoc split: option.splits if_splits)
  have "\<forall>j \<in> set (new_ids ?st). snd s0 (fst j) \<le> snd j"
    using recordsD(6) [OF assms] records_next_le [OF recordsD(5) [OF assms, of ix]]
    by (auto simp: on_create_state_simps)
  then show ?thesis
    using keys obj nxt recordsD(2,3) [OF assms] fresh_create [of objs nx ix v]
    by (simp add: records_def)
qed

lemma on_modify_records:
  assumes "records s0 (objs, nx) st" and "objs i = Some v"
  shows "records s0 (objs(i \<mapsto> w), nx) (on_modify_state i v st)"
proof -
  let ?st = "on_modify_state i v st"
  have keys: "keys_ok ?st"
    using recordsD(1) [OF assms(1)] map_of_eq_None_key [of "old_values st" i]
    by (auto simp: keys_ok_def on_modify_state_def)
  have obj: "records_obj (fst s0 j) ((objs(i \<mapsto> w)) j) j ?st" for j
    using recordsD(4) [OF assms(1), of j] assms(2)
    by (auto simp: records_obj_def on_modify_state_def map_of_snoc split: option.splits if_splits)
  have "old_index_next_ids ?st = old_index_next_ids st" "new_ids ?st = new_ids st"
    by (simp_all add: on_modify_state_def)
  then show ?thesis
    using keys obj recordsD(2,3,5,6) [OF assms(1)] fresh_upd [of objs nx i "Some w"] assms
    by (simp add: records_def records_next_cong [of ?st st])
qed

lemma on_remove_records:
  assumes "records s0 (objs, nx) st" and "objs i = Some v"
  shows "records s0 (objs(i := None), nx) (on_remove_state i v st)"
proof -
  let ?st = "on_remove_state i v st"
  have "records_obj (fst s0 i) (Some v) i st"
    using recordsD(4) [OF assms(1), of i] assms(2) by simp
  then have nr: "map_of (removed st) i = None"
    by (auto simp: records_obj_def split: if_splits option.splits)
  have keys: "keys_ok ?st"
    using recordsD(1) [OF assms(1)] map_of_eq_None_key [OF nr]
    by (auto simp: keys_ok_def on_remove_state_def distinct_map_filter split: option.splits)
  have obj: "records_obj (fst s0 j) ((objs(i := None)) j) j ?st" for j
    using recordsD(4) [OF assms(1), of j] assms(2) nr
    by (auto simp: records_obj_def on_remove_state_def undo_lists split: option.splits if_splits)
  have "old_index_next_ids ?st = old_index_next_ids st" "set (new_ids ?st) \<subseteq> set (new_ids st)"
    by (auto simp: on_remove_state_def split: option.splits)
  then show ?thesis
    using keys obj recordsD(2,3,5,6) [OF assms(1)] fresh_upd [of objs nx i None] assms
    by (auto simp add: records_def records_next_cong [of ?st st])
qed

section \<open>Restoring a state\<close>

lemma map_of_first: "map_of xs k = None \<Longrightarrow> m(k \<mapsto> v) ++ map_of xs = m ++ map_of ((k, v) # xs)"
  by (rule ext) (auto simp: map_add_def split: option.splits)

lemma restore_values:
  "disabled d \<Longrightarrow> \<forall>p \<in> set xs. objects d (fst p) \<noteq> None \<Longrightarrow> distinct (map fst xs) \<Longrightarrow>
    foldE (\<lambda>p. db_modify (fst p) (\<lambda>_. snd p)) xs d = Inr (d\<lparr>objects := objects d ++ map_of xs\<rparr>)"
proof (induction xs arbitrary: d)
  case Nil
  then show ?case by simp
next
  case (Cons p xs)
  obtain k v where p: "p = (k, v)" by (cases p) blast
  let ?d = "d\<lparr>objects := (objects d)(k \<mapsto> v)\<rparr>"
  have "db_modify k (\<lambda>_. v) d = Inr ?d"
    using Cons.prems p by (auto simp: db_modify_def on_modify_def)
  moreover have "foldE (\<lambda>p. db_modify (fst p) (\<lambda>_. snd p)) xs ?d = Inr (?d\<lparr>objects := objects ?d ++ map_of xs\<rparr>)"
    using Cons.prems p by (intro Cons.IH) auto
  moreover have "map_of xs k = None"
    using Cons.prems(3) p by (simp add: map_of_eq_None_iff)
  then have "(objects d)(k \<mapsto> v) ++ map_of xs = objects d ++ map_of (p # xs)"
    unfolding p by (rule map_of_first)
  ultimately show ?case using p by (simp del: map_of.simps fun_upd_apply)
qed

lemma restore_removes:
  "disabled d \<Longrightarrow> objects d = ob \<Longrightarrow> \<forall>i \<in> set ids. ob i \<noteq> None \<Longrightarrow> distinct ids \<Longrightarrow>
    foldE db_remove ids d = Inr (d\<lparr>objects := (\<lambda>i. if i \<in> set ids then None else ob i)\<rparr>)"
proof (induction ids arbitrary: d ob)
  case Nil
  then show ?case by simp
next
  case (Cons k ids)
  let ?ob = "ob(k := None)"
  have "db_remove k d = Inr (d\<lparr>objects := ?ob\<rparr>)"
    using Cons.prems by (auto simp: db_remove_def on_remove_def)
  moreover have "foldE db_remove ids (d\<lparr>objects := ?ob\<rparr>) =
      Inr (d\<lparr>objects := ?ob\<rparr>\<lparr>objects := (\<lambda>i. if i \<in> set ids then None else ?ob i)\<rparr>)"
    using Cons.prems by (intro Cons.IH) auto
  moreover have "(\<lambda>i. if i \<in> set ids then None else ?ob i) =
      (\<lambda>i. if i \<in> set (k # ids) then None else ob i)"
    by auto
  ultimately show ?case by simp
qed

lemma restore_next:
  "distinct (map fst xs) \<Longrightarrow> next_ids d = nx \<Longrightarrow>
    fold (\<lambda>p e. e\<lparr>next_ids := (next_ids e)(fst p := snd p)\<rparr>) xs d =
    d\<lparr>next_ids := (\<lambda>ix. case map_of xs ix of None \<Rightarrow> nx ix | Some n \<Rightarrow> n)\<rparr>"
proof (induction xs arbitrary: d nx)
  case Nil
  then show ?case by simp
next
  case (Cons p xs)
  let ?nx = "nx(fst p := snd p)"
  have "map_of xs (fst p) = None" using Cons.prems by (simp add: map_of_eq_None_iff)
  then have eq: "(\<lambda>ix. case map_of xs ix of None \<Rightarrow> ?nx ix | Some n \<Rightarrow> n) =
      (\<lambda>ix. case map_of (p # xs) ix of None \<Rightarrow> nx ix | Some n \<Rightarrow> n)"
    by (intro ext) (auto split: option.splits)
  have "fold (\<lambda>p e. e\<lparr>next_ids := (next_ids e)(fst p := snd p)\<rparr>) xs (d\<lparr>next_ids := ?nx\<rparr>) =
      d\<lparr>next_ids := ?nx\<rparr>\<lparr>next_ids := (\<lambda>ix. case map_of xs ix of None \<Rightarrow> ?nx ix | Some n \<Rightarrow> n)\<rparr>"
    using Cons.prems by (intro Cons.IH) auto
  then show ?case using Cons.prems(2) unfolding eq by (simp del: fun_upd_apply)
qed

lemma restore_inserts:
  "\<forall>p \<in> set xs. objects d (fst p) = None \<Longrightarrow> distinct (map fst xs) \<Longrightarrow>
    foldE (\<lambda>p. db_insert (fst p) (snd p)) xs d = Inr (d\<lparr>objects := objects d ++ map_of xs\<rparr>)"
proof (induction xs arbitrary: d)
  case Nil
  then show ?case by simp
next
  case (Cons p xs)
  obtain k v where p: "p = (k, v)" by (cases p) blast
  let ?d = "d\<lparr>objects := (objects d)(k \<mapsto> v)\<rparr>"
  have "db_insert k v d = Inr ?d"
    using Cons.prems p by (simp add: db_insert_def)
  moreover have "foldE (\<lambda>p. db_insert (fst p) (snd p)) xs ?d = Inr (?d\<lparr>objects := objects ?d ++ map_of xs\<rparr>)"
    using Cons.prems p by (intro Cons.IH) (auto simp: image_iff)
  moreover have "map_of xs k = None"
    using Cons.prems(2) p by (simp add: map_of_eq_None_iff)
  then have "(objects d)(k \<mapsto> v) ++ map_of xs = objects d ++ map_of (p # xs)"
    unfolding p by (rule map_of_first)
  ultimately show ?case using p by (simp del: map_of.simps fun_upd_apply)
qed

text \<open>Once a state records the difference to a snapshot, restoring it yields the snapshot.\<close>

lemma map_of_present: "i \<in> fst ` set xs \<Longrightarrow> \<exists>v. map_of xs i = Some v"
  by (metis map_of_eq_None_iff option.exhaust)

lemma records_obj_objects:
  assumes "keys_ok st" "records_obj a b i st"
  shows "i \<in> fst ` set (old_values st) \<or> i \<in> set (new_ids st) \<Longrightarrow> b \<noteq> None"
    "i \<in> fst ` set (removed st) \<Longrightarrow> b = None"
  using assms by (auto simp: records_obj_def dest!: map_of_present split: if_splits option.splits)

lemma restore_records:
  assumes rec: "records s0 (objects d, next_ids d) st" and dis: "disabled d"
  shows "restore st d = Inr (d\<lparr>objects := fst s0, next_ids := snd s0\<rparr>)"
proof -
  note k = recordsD(1) [OF rec]
  have obj: "records_obj (fst s0 i) (objects d i) i st" for i using recordsD(4) [OF rec] by simp
  note now = records_obj_objects [OF k obj]
  define o1 where "o1 = objects d ++ map_of (old_values st)"
  define o2 where "o2 = (\<lambda>i. if i \<in> set (new_ids st) then None else o1 i)"
  define nx where "nx = (\<lambda>ix. case map_of (old_index_next_ids st) ix of None \<Rightarrow> next_ids d ix | Some n \<Rightarrow> n)"
  have "foldE (\<lambda>p. db_modify (fst p) (\<lambda>_. snd p)) (old_values st) d = Inr (d\<lparr>objects := o1\<rparr>)"
    unfolding o1_def using dis now(1) k by (intro restore_values) (auto simp: keys_ok_def)
  moreover have "foldE db_remove (new_ids st) (d\<lparr>objects := o1\<rparr>) = Inr (d\<lparr>objects := o1\<rparr>\<lparr>objects := o2\<rparr>)"
    unfolding o2_def using dis now(1) k
    by (intro restore_removes) (auto simp: keys_ok_def o1_def map_add_def split: option.splits)
  moreover have "fold (\<lambda>p e. e\<lparr>next_ids := (next_ids e)(fst p := snd p)\<rparr>) (old_index_next_ids st)
      (d\<lparr>objects := o2\<rparr>) = d\<lparr>objects := o2\<rparr>\<lparr>next_ids := nx\<rparr>"
    unfolding nx_def using k by (intro restore_next) (auto simp: keys_ok_def)
  moreover have "o2 i = None" if "i \<in> fst ` set (removed st)" for i
    using map_of_present [OF that] obj [of i]
    by (auto simp: o2_def o1_def records_obj_def map_add_def split: if_splits option.splits)
  then have "foldE (\<lambda>p. db_insert (fst p) (snd p)) (removed st) (d\<lparr>objects := o2, next_ids := nx\<rparr>) =
      Inr (d\<lparr>objects := o2, next_ids := nx\<rparr>\<lparr>objects := o2 ++ map_of (removed st)\<rparr>)"
    using k by (subst restore_inserts) (auto simp: keys_ok_def)
  moreover have "(o2 ++ map_of (removed st)) i = fst s0 i" for i
    using obj [of i] by (auto simp: o2_def o1_def records_obj_def map_add_def split: if_splits option.splits)
  then have "o2 ++ map_of (removed st) = fst s0" by (rule ext)
  moreover have "nx ix = snd s0 ix" for ix
    using recordsD(5) [OF rec, of ix] by (auto simp: nx_def records_next_def split: option.splits)
  then have "nx = snd s0" by (rule ext)
  ultimately show ?thesis by (simp add: restore_def)
qed

section \<open>Merging two states\<close>

text \<open>What a state says of one object: is it new, its old value, its value when removed.\<close>

definition view :: "'o undo_state \<Rightarrow> oid \<Rightarrow> bool \<times> 'o option \<times> 'o option" where
  "view st i = (i \<in> set (new_ids st), map_of (old_values st) i, map_of (removed st) i)"

lemma records_obj_view:
  "records_obj before now i st \<longleftrightarrow> (case view st i of
     (True, old, rem) \<Rightarrow> before = None \<and> now \<noteq> None \<and> old = None \<and> rem = None
   | (False, Some v, rem) \<Rightarrow> before = Some v \<and> now \<noteq> None \<and> rem = None
   | (False, None, Some v) \<Rightarrow> before = Some v \<and> now = None
   | (False, None, None) \<Rightarrow> now = before)"
  by (auto simp: records_obj_def view_def split: option.splits bool.splits)

lemma merge_upd_view:
  "view (merge_upd p prev) i = (case view prev i of
     (False, None, rem) \<Rightarrow> (False, if i = fst p then Some (snd p) else None, rem) | w \<Rightarrow> w)"
  by (cases p) (auto simp: view_def merge_upd_def map_add_def split: option.splits bool.splits)

lemma fold_merge_upd_view:
  "view (fold merge_upd xs prev) i = (case view prev i of
     (False, None, rem) \<Rightarrow> (False, map_of xs i, rem) | w \<Rightarrow> w)"
proof (induction xs arbitrary: prev)
  case Nil
  then show ?case by (auto simp: view_def split: option.splits bool.splits)
next
  case (Cons p xs)
  show ?case
    by (cases p, cases "view prev i") (simp add: Cons.IH merge_upd_view split: option.splits bool.splits)
qed

lemma merge_upd_keys: "distinct (map fst (old_values prev)) \<Longrightarrow> distinct (map fst (old_values (merge_upd p prev)))"
  by (simp add: merge_upd_def map_of_eq_None_iff)

lemma merge_next_keys:
  "distinct (map fst (old_index_next_ids prev)) \<Longrightarrow> distinct (map fst (old_index_next_ids (merge_next p prev)))"
  by (simp add: merge_next_def map_of_eq_None_iff)

lemma fold_merge_upd_keys:
  "distinct (map fst (old_values prev)) \<Longrightarrow> distinct (map fst (old_values (fold merge_upd xs prev)))"
  by (induction xs arbitrary: prev) (simp_all add: merge_upd_keys)

lemma fold_merge_next_keys:
  "distinct (map fst (old_index_next_ids prev)) \<Longrightarrow>
    distinct (map fst (old_index_next_ids (fold merge_next xs prev)))"
  by (induction xs arbitrary: prev) (simp_all add: merge_next_keys)

lemma fold_merge_upd_simps:
  "new_ids (fold merge_upd xs prev) = new_ids prev" "removed (fold merge_upd xs prev) = removed prev"
  "old_index_next_ids (fold merge_upd xs prev) = old_index_next_ids prev"
  by (induction xs arbitrary: prev) (auto simp: merge_upd_def)

lemma fold_merge_new:
  "fold merge_new ids prev = prev\<lparr>new_ids := fold List.insert ids (new_ids prev)\<rparr>"
  by (induction ids arbitrary: prev) (auto simp: merge_new_def)

lemma fold_insert_list: "set (fold List.insert xs ys) = set xs \<union> set ys"
  "distinct ys \<Longrightarrow> distinct (fold List.insert xs ys)"
  by (induction xs arbitrary: ys) auto

lemma fold_merge_next_simps:
  "new_ids (fold merge_next xs prev) = new_ids prev" "removed (fold merge_next xs prev) = removed prev"
  "old_values (fold merge_next xs prev) = old_values prev"
  by (induction xs arbitrary: prev) (auto simp: merge_next_def)

lemma fold_merge_next_map:
  "map_of (old_index_next_ids (fold merge_next xs prev)) ix =
    (case map_of (old_index_next_ids prev) ix of Some n \<Rightarrow> Some n | None \<Rightarrow> map_of xs ix)"
proof (induction xs arbitrary: prev)
  case Nil
  then show ?case by (simp split: option.splits)
next
  case (Cons p xs)
  have "map_of (old_index_next_ids (merge_next p prev)) ix =
      (case map_of (old_index_next_ids prev) ix of Some n \<Rightarrow> Some n
       | None \<Rightarrow> if ix = fst p then Some (snd p) else None)"
    by (cases p) (auto simp: merge_next_def map_add_def split: option.splits)
  then show ?case by (cases p) (simp add: Cons.IH split: option.splits)
qed

lemma merge_del_view:
  "view (merge_del (k, v) prev) i = (if i = k then (case view prev i of
      (True, old, rem) \<Rightarrow> (False, old, rem)
    | (False, Some w, rem) \<Rightarrow> (False, None, case rem of None \<Rightarrow> Some w | Some x \<Rightarrow> Some x)
    | (False, None, rem) \<Rightarrow> (False, None, case rem of None \<Rightarrow> Some v | Some x \<Rightarrow> Some x)) else view prev i)"
  by (auto simp: view_def merge_del_def map_of_filter_ne map_add_def split: option.splits bool.splits)

lemma fold_merge_del_view:
  "distinct (map fst xs) \<Longrightarrow> view (fold merge_del xs prev) i =
    (case map_of xs i of None \<Rightarrow> view prev i | Some v \<Rightarrow> view (merge_del (i, v) prev) i)"
proof (induction xs arbitrary: prev)
  case Nil
  then show ?case by simp
next
  case (Cons p xs)
  then have "fst p \<notin> dom (map_of xs)" by (simp add: dom_map_of_conv_image_fst)
  with Cons show ?case
    by (cases p) (auto simp: merge_del_view split: option.splits)
qed

lemma merge_del_next: "old_index_next_ids (fold merge_del xs prev) = old_index_next_ids prev"
  by (induction xs arbitrary: prev) (auto simp: merge_del_def split: option.splits)

lemma merge_del_new: "set (new_ids (merge_del p prev)) \<subseteq> set (new_ids prev)"
  by (auto simp: merge_del_def split: option.splits)

lemma merge_del_new_subset: "set (new_ids (fold merge_del xs prev)) \<subseteq> set (new_ids prev)"
proof (induction xs arbitrary: prev)
  case Nil
  then show ?case by simp
next
  case (Cons p xs)
  from Cons.IH [of "merge_del p prev"] merge_del_new [of p prev] show ?case by simp
qed

lemma merge_del_keys:
  "keys_ok prev \<Longrightarrow> map_of (removed prev) (fst p) = None \<Longrightarrow> keys_ok (merge_del p prev)"
  by (simp add: keys_ok_def merge_del_def distinct_map_filter map_of_eq_None_iff split: option.splits)

lemma fold_merge_del_keys:
  "keys_ok prev \<Longrightarrow> distinct (map fst xs) \<Longrightarrow> \<forall>i \<in> fst ` set xs. map_of (removed prev) i = None \<Longrightarrow>
    keys_ok (fold merge_del xs prev)"
proof (induction xs arbitrary: prev)
  case Nil
  then show ?case by simp
next
  case (Cons p xs)
  have "map_of (removed (merge_del p prev)) i = None" if "i \<in> fst ` set xs" for i
  proof -
    have "i \<noteq> fst p" using that Cons.prems(2) by (metis distinct.simps(2) list.simps(9) set_map)
    then have "view (merge_del p prev) i = view prev i" by (cases p) (simp add: merge_del_view)
    with that Cons.prems(3) show ?thesis by (auto simp: view_def)
  qed
  with Cons merge_del_keys [of prev p] show ?case by simp
qed

lemma merge_records_obj:
  assumes "records s0 s1 prev" "records s1 s st"
  shows "records_obj (fst s0 i) (fst s i) i (merge_states st prev)"
proof -
  have d: "distinct (map fst (removed st))" using recordsD(1) [OF assms(2)] by (simp add: keys_ok_def)
  have late: "fst s0 i = None" if "i \<in> set (new_ids st)"
    using recordsD(6) [OF assms(2) that] recordsD(2) [OF assms(1)]
      records_next_le [OF recordsD(5) [OF assms(1), of "fst i"]] by (cases i) (simp add: fresh_def)
  let ?p1 = "fold merge_upd (old_values st) prev"
  let ?p3 = "fold merge_next (old_index_next_ids st) (fold merge_new (new_ids st) ?p1)"
  have v3: "view ?p3 i = (case view ?p1 i of (n, ov, rem) \<Rightarrow> (i \<in> set (new_ids st) \<or> n, ov, rem))"
    by (simp add: view_def fold_merge_next_simps fold_merge_new fold_insert_list)
  show ?thesis
    unfolding merge_states_def records_obj_view fold_merge_del_view [OF d]
    using recordsD(4) [OF assms(1), of i] recordsD(4) [OF assms(2), of i] late
    unfolding records_obj_view merge_del_view v3 fold_merge_upd_view
    by (auto simp: view_def split: option.splits bool.splits if_splits)
qed

lemma merge_records:
  assumes "records s0 s1 prev" "records s1 s st"
  shows "records s0 s (merge_states st prev)"
proof -
  let ?p2 = "fold merge_new (new_ids st) (fold merge_upd (old_values st) prev)"
  let ?p3 = "fold merge_next (old_index_next_ids st) ?p2"
  note k1 = recordsD(1) [OF assms(1)] and k2 = recordsD(1) [OF assms(2)]
  have k3: "keys_ok ?p3"
    using k1 by (simp add: keys_ok_def fold_merge_next_simps fold_merge_new fold_merge_upd_simps
        fold_merge_upd_keys fold_insert_list fold_merge_next_keys)
  have "map_of (removed ?p3) i = None" if "i \<in> fst ` set (removed st)" for i
  proof -
    have "fst s1 i \<noteq> None"
      using map_of_present [OF that] recordsD(4) [OF assms(2), of i]
      by (auto simp: records_obj_def split: if_splits option.splits)
    then show ?thesis
      using recordsD(4) [OF assms(1), of i]
      by (auto simp: records_obj_def fold_merge_next_simps fold_merge_new fold_merge_upd_simps
          split: if_splits option.splits)
  qed
  then have keys: "keys_ok (merge_states st prev)"
    unfolding merge_states_def using k2 k3 by (intro fold_merge_del_keys) (auto simp: keys_ok_def)
  have nxt: "records_next (snd s0 ix) (snd s ix) ix (merge_states st prev)" for ix
    using recordsD(5) [OF assms(1), of ix] recordsD(5) [OF assms(2), of ix]
    by (auto simp: records_next_def merge_states_def merge_del_next fold_merge_next_map fold_merge_new
        fold_merge_upd_simps split: option.splits)
  have "set (new_ids (merge_states st prev)) \<subseteq> set (new_ids st) \<union> set (new_ids prev)"
    using merge_del_new_subset [of "removed st" ?p3]
    by (simp add: merge_states_def fold_merge_next_simps fold_merge_new fold_insert_list fold_merge_upd_simps)
  moreover have "snd s0 (fst i) \<le> snd i" if "i \<in> set (new_ids st)" for i
    using recordsD(6) [OF assms(2) that] records_next_le [OF recordsD(5) [OF assms(1), of "fst i"]] by simp
  ultimately have new: "\<forall>i \<in> set (new_ids (merge_states st prev)). snd s0 (fst i) \<le> snd i"
    using recordsD(6) [OF assms(1)] by blast
  show ?thesis
    using keys nxt new merge_records_obj [OF assms] recordsD(2) [OF assms(1)] recordsD(3) [OF assms(2)]
    by (simp add: records_def)
qed

section \<open>Refinement\<close>

lemma stack_rel_length: "stack_rel s sts ss \<Longrightarrow> length sts = length ss"
  by (induction s sts ss rule: stack_rel.induct) auto

lemma stack_rel_fresh: "stack_rel s sts ss \<Longrightarrow> fresh s"
  by (cases sts; cases ss) (auto dest: recordsD)

lemma stack_rel_take: "stack_rel s sts ss \<Longrightarrow> stack_rel s (take n sts) (take n ss)"
proof (induction s sts ss arbitrary: n rule: stack_rel.induct)
  case (2 s st sts s0 ss)
  then show ?case by (cases n) (auto dest: recordsD)
qed auto

text \<open>The hooks work on the top state, which the first change without a session creates.\<close>

lemma top_stack_rel:
  assumes "undo_rel d a"
  obtains st sts s0 ss where "top_stack d = st # sts" "snapshots (snap_touch a) = s0 # ss"
    "records s0 (objects d, next_ids d) st" "stack_rel s0 sts ss"
proof (cases "stack d")
  case Nil
  with assms have "snapshots a = []" "fresh (objects d, next_ids d)"
    by (cases "snapshots a"; simp add: undo_rel_def)+
  with Nil assms that show ?thesis
    by (simp add: top_stack_def snap_touch_def undo_rel_def records_empty)
next
  case (Cons st sts)
  with assms obtain s0 ss where "snapshots a = s0 # ss"
    by (cases "snapshots a") (auto simp: undo_rel_def)
  with Cons assms that show ?thesis
    by (simp add: top_stack_def snap_touch_def undo_rel_def)
qed

lemma snap_touch_simps [simp]:
  "current (snap_touch a) = current a" "s_active (snap_touch a) = s_active a"
  "s_disabled (snap_touch a) = s_disabled a" "s_max (snap_touch a) = s_max a"
  by (simp_all add: snap_touch_def)

lemma undo_rel_restore:
  assumes "undo_rel d a" "stack d = st # sts"
  obtains s0 ss where "snapshots a = s0 # ss" "stack_rel s0 sts ss"
    "restore st (disable d) = Inr (disable d\<lparr>objects := fst s0, next_ids := snd s0\<rparr>)"
proof -
  from assms obtain s0 ss where s: "snapshots a = s0 # ss"
    by (cases "snapshots a") (auto simp: undo_rel_def)
  moreover have "restore st (disable d) = Inr (disable d\<lparr>objects := fst s0, next_ids := snd s0\<rparr>)"
    using assms s by (intro restore_records) (auto simp: undo_rel_def disable_def)
  ultimately show thesis using assms that by (simp add: undo_rel_def)
qed

definition res_rel :: "('a \<Rightarrow> 'b \<Rightarrow> bool) \<Rightarrow> 'a result \<Rightarrow> 'b result \<Rightarrow> bool" where
  "res_rel R x y = (case x of Inl e \<Rightarrow> y = Inl e | Inr a \<Rightarrow> (case y of Inl _ \<Rightarrow> False | Inr b \<Rightarrow> R a b))"

lemma res_rel_simps [simp]: "res_rel R (Inl e) y \<longleftrightarrow> y = Inl e" "res_rel R (Inr a) (Inr b) \<longleftrightarrow> R a b"
  by (auto simp: res_rel_def)

lemma res_rel_bind:
  "res_rel R x y \<Longrightarrow> (\<And>a b. R a b \<Longrightarrow> res_rel S (f a) (g b)) \<Longrightarrow> res_rel S (bindE x f) (bindE y g)"
  by (cases x; cases y) (auto simp: res_rel_def)

lemma top_stack_upd [simp]: "top_stack (d\<lparr>objects := ob, next_ids := nx\<rparr>) = top_stack d"
  by (simp add: top_stack_def)

lemma create_refines: "undo_rel d a \<Longrightarrow> res_rel undo_rel (undo_step (Create ix v) d) (snap_step (Create ix v) a)"
  by (rule top_stack_rel, assumption) (auto simp: undo_rel_def db_create_def on_create_def Let_def on_create_records)

lemma modify_refines: "undo_rel d a \<Longrightarrow> res_rel undo_rel (undo_step (Modify i f) d) (snap_step (Modify i f) a)"
  by (rule top_stack_rel, assumption)
    (auto simp: undo_rel_def db_modify_def on_modify_def Let_def on_modify_records split: option.splits)

lemma remove_refines: "undo_rel d a \<Longrightarrow> res_rel undo_rel (undo_step (Remove i) d) (snap_step (Remove i) a)"
  by (rule top_stack_rel, assumption)
    (auto simp: undo_rel_def db_remove_def on_remove_def Let_def on_remove_records split: option.splits)

lemma start_refines: "undo_rel d a \<Longrightarrow> res_rel undo_rel (undo_step (Start b) d) (snap_step (Start b) a)"
  by (auto simp: undo_rel_def start_undo_session_def dest: stack_rel_fresh intro: records_empty stack_rel_take)

lemma undo_refines: "undo_rel d a \<Longrightarrow> res_rel undo_rel (undo_step Undo d) (snap_step Undo a)"
proof (cases "stack d")
  case Nil
  assume "undo_rel d a"
  with Nil show ?thesis by (cases "snapshots a") (auto simp: undo_rel_def undo_def)
next
  case (Cons st sts)
  assume r: "undo_rel d a"
  then obtain s0 ss where "snapshots a = s0 # ss" "stack_rel s0 sts ss"
    "restore st (disable d) = Inr (disable d\<lparr>objects := fst s0, next_ids := snd s0\<rparr>)"
    using Cons by (rule undo_rel_restore)
  with r Cons show ?thesis by (auto simp: undo_rel_def undo_def enable_def disable_def)
qed

lemma pop_commit_refines: "undo_rel d a \<Longrightarrow> res_rel undo_rel (undo_step Pop_commit d) (snap_step Pop_commit a)"
proof (cases "stack d")
  case Nil
  assume "undo_rel d a"
  with Nil show ?thesis by (cases "snapshots a") (auto simp: undo_rel_def pop_commit_def)
next
  case (Cons st sts)
  assume r: "undo_rel d a"
  then obtain s0 ss where "snapshots a = s0 # ss" "stack_rel s0 sts ss"
    "restore st (disable d) = Inr (disable d\<lparr>objects := fst s0, next_ids := snd s0\<rparr>)"
    using Cons by (rule undo_rel_restore)
  with r Cons show ?thesis by (auto simp: undo_rel_def pop_commit_def enable_def disable_def)
qed

lemma merge_refines: "undo_rel d a \<Longrightarrow> res_rel undo_rel (undo_step Merge d) (snap_step Merge a)"
  by (cases "stack d"; cases "tl (stack d)"; cases "snapshots a"; cases "tl (snapshots a)")
    (auto simp: undo_rel_def merge_def merge_records dest: recordsD stack_rel_fresh)

lemma commit_refines: "undo_rel d a \<Longrightarrow> res_rel undo_rel (undo_step Commit d) (snap_step Commit a)"
  by (auto simp: undo_rel_def commit_def)

lemma undo_step_refines: "undo_rel d a \<Longrightarrow> res_rel undo_rel (undo_step op d) (snap_step op a)"
  by (cases op) (simp_all only: create_refines modify_refines remove_refines start_refines undo_refines
      merge_refines commit_refines pop_commit_refines)

lemma undo_run_refines: "undo_rel d a \<Longrightarrow> res_rel undo_rel (foldE undo_step ops d) (foldE snap_step ops a)"
proof (induction ops arbitrary: d a)
  case Nil
  then show ?case by simp
next
  case (Cons op ops)
  from undo_step_refines [OF Cons.prems, of op] Cons.IH show ?case
    unfolding foldE.simps by (rule res_rel_bind)
qed

lemma undo_rel_init: "undo_rel (undo_init m) (snap_init m)"
  by (simp add: undo_rel_def undo_init_def snap_init_def fresh_def)

text \<open>C1: the undo database is a stack of snapshots. Whatever sequence of creations, modifications,
  removals, session starts, undos, merges, commits and commit pops is run on a fresh object database, the
  incremental bookkeeping (old values, new ids, removed objects, old next-ids) fails exactly where the
  snapshot specification fails, with the same error, and otherwise leaves the same objects and the same
  next ids, the same number of sessions and a history of the same depth.\<close>

theorem undo_database_refines_snapshots:
  "case foldE undo_step ops (undo_init m) of
     Inl e \<Rightarrow> foldE snap_step ops (snap_init m) = Inl e
   | Inr d \<Rightarrow> \<exists>a. foldE snap_step ops (snap_init m) = Inr a \<and> current a = (objects d, next_ids d) \<and>
       s_active a = active_sessions d \<and> length (snapshots a) = length (stack d)"
proof -
  have "res_rel undo_rel (foldE undo_step ops (undo_init m)) (foldE snap_step ops (snap_init m))"
    by (rule undo_run_refines) (rule undo_rel_init)
  then show ?thesis
    by (auto simp: res_rel_def undo_rel_def split: sum.splits dest: stack_rel_length)
qed

end
