(* ===== verification/Safe_Int.thy ===== *)
theory Safe_Int
  imports Chain_Prelude
begin

text \<open>
  The checked integers of \<open>fc/safe.hpp\<close>, at the width the chain uses (\<open>share_type\<close> is
  \<open>safe<int64_t>\<close>): each operation with the guards of the source, the exception it throws, and the
  result. The lemmas show that the guards are exact: an operation throws if and only if the
  mathematical result is out of range, and otherwise returns it.
\<close>

section \<open>Definitions\<close>

type_synonym share_type = int

definition int64_min :: int where "int64_min = - (2 ^ 63)"
definition int64_max :: int where "int64_max = 2 ^ 63 - 1"

definition in_int64 :: "int \<Rightarrow> bool" where
  "in_int64 x \<longleftrightarrow> int64_min \<le> x \<and> x \<le> int64_max"

text \<open>Division and remainder of C++ round towards zero.\<close>

definition cpp_div :: "int \<Rightarrow> int \<Rightarrow> int" where
  "cpp_div a b = sgn a * sgn b * (\<bar>a\<bar> div \<bar>b\<bar>)"

definition cpp_mod :: "int \<Rightarrow> int \<Rightarrow> int" where
  "cpp_mod a b = a - b * cpp_div a b"

definition safe_add :: "share_type \<Rightarrow> share_type \<Rightarrow> share_type result" where
  "safe_add a b =
     (if b > 0 \<and> a > int64_max - b then Inl Overflow_exception
      else if b < 0 \<and> a < int64_min - b then Inl Underflow_exception
      else Inr (a + b))"

definition safe_sub :: "share_type \<Rightarrow> share_type \<Rightarrow> share_type result" where
  "safe_sub a b =
     (if b > 0 \<and> a < int64_min + b then Inl Underflow_exception
      else if b < 0 \<and> a > int64_max + b then Inl Overflow_exception
      else Inr (a - b))"

definition safe_mul :: "share_type \<Rightarrow> share_type \<Rightarrow> share_type result" where
  "safe_mul a b =
     (if a > 0 then
        if b > 0 then
          if a > cpp_div int64_max b then Inl Overflow_exception else Inr (a * b)
        else
          if b < cpp_div int64_min a then Inl Underflow_exception else Inr (a * b)
      else
        if b > 0 then
          if a < cpp_div int64_min b then Inl Underflow_exception else Inr (a * b)
        else
          if a \<noteq> 0 \<and> b < cpp_div int64_max a then Inl Overflow_exception else Inr (a * b))"

definition safe_div :: "share_type \<Rightarrow> share_type \<Rightarrow> share_type result" where
  "safe_div a b =
     (if b = 0 then Inl Divide_by_zero_exception
      else if a = int64_min \<and> b = -1 then Inl Overflow_exception
      else Inr (cpp_div a b))"

definition safe_mod :: "share_type \<Rightarrow> share_type \<Rightarrow> share_type result" where
  "safe_mod a b =
     (if b = 0 then Inl Divide_by_zero_exception
      else if a = int64_min \<and> b = -1 then Inl Overflow_exception
      else Inr (cpp_mod a b))"

definition safe_neg :: "share_type \<Rightarrow> share_type result" where
  "safe_neg a = (if a = int64_min then Inl Overflow_exception else Inr (- a))"

section \<open>Exactness of the guards\<close>

lemma safe_add_Inr [simp]: "safe_add a b = Inr c \<longleftrightarrow>
    c = a + b \<and> \<not> (b > 0 \<and> a + b > int64_max) \<and> \<not> (b < 0 \<and> a + b < int64_min)"
  by (auto simp: safe_add_def)

lemma safe_sub_Inr [simp]: "safe_sub a b = Inr c \<longleftrightarrow>
    c = a - b \<and> \<not> (b > 0 \<and> a - b < int64_min) \<and> \<not> (b < 0 \<and> a - b > int64_max)"
  by (auto simp: safe_sub_def)

lemma safe_neg_Inr [simp]: "safe_neg a = Inr c \<longleftrightarrow> c = - a \<and> a \<noteq> int64_min"
  by (auto simp: safe_neg_def)

lemma safe_add_ok: "in_int64 a \<Longrightarrow> in_int64 (a + b) \<Longrightarrow> safe_add a b = Inr (a + b)"
  by (simp add: in_int64_def)

lemma safe_sub_ok: "in_int64 a \<Longrightarrow> in_int64 (a - b) \<Longrightarrow> safe_sub a b = Inr (a - b)"
  by (simp add: in_int64_def)

lemma safe_add_exact: "in_int64 a \<Longrightarrow> in_int64 b \<Longrightarrow>
    safe_add a b = (if in_int64 (a + b) then Inr (a + b)
      else Inl (if b > 0 then Overflow_exception else Underflow_exception))"
  by (auto simp: safe_add_def in_int64_def)

lemma safe_sub_exact: "in_int64 a \<Longrightarrow> in_int64 b \<Longrightarrow>
    safe_sub a b = (if in_int64 (a - b) then Inr (a - b)
      else Inl (if b > 0 then Underflow_exception else Overflow_exception))"
  by (auto simp: safe_sub_def in_int64_def)

lemma less_div_iff_mult:
  assumes "0 < (b::int)"
  shows "m div b < a \<longleftrightarrow> m < a * b"
proof
  assume "m div b < a"
  then have "b * (m div b + 1) \<le> b * a" using assms by (intro mult_left_mono) auto
  moreover have "m < b * (m div b + 1)"
    using pos_mod_bound [OF assms, of m] mult_div_mod_eq [of b m]
    by (simp only: distrib_left)
  ultimately show "m < a * b" by (simp add: mult.commute)
next
  assume "m < a * b"
  moreover have "m div b * b \<le> m"
    using assms pos_mod_sign [OF assms, of m] div_mult_mod_eq [of m b] by linarith
  ultimately have "m div b * b < a * b" by linarith
  then show "m div b < a" using assms by simp
qed

lemma cpp_div_pos: "0 \<le> m \<Longrightarrow> 0 < b \<Longrightarrow> cpp_div m b = m div b"
  by (cases "m = 0") (simp_all add: cpp_div_def)

lemma cpp_div_neg_pos: "m < 0 \<Longrightarrow> 0 < b \<Longrightarrow> cpp_div m b = - ((- m) div b)"
  by (simp add: cpp_div_def)

lemma cpp_div_pos_neg: "0 \<le> m \<Longrightarrow> b < 0 \<Longrightarrow> cpp_div m b = - (m div (- b))"
  by (cases "m = 0") (simp_all add: cpp_div_def)

lemma safe_mul_exact:
  assumes "in_int64 a" and "in_int64 b"
  shows "safe_mul a b = (if in_int64 (a * b) then Inr (a * b)
    else Inl (if 0 < a * b then Overflow_exception else Underflow_exception))"
proof -
  have mx: "0 \<le> int64_max" and mn: "int64_min < 0"
    by (simp_all add: int64_max_def int64_min_def)
  consider "a > 0" "b > 0" | "a > 0" "b \<le> 0" | "a < 0" "b > 0" | "a < 0" "b \<le> 0" | "a = 0"
    by linarith
  then show ?thesis
  proof cases
    case 1
    then have "a > cpp_div int64_max b \<longleftrightarrow> a * b > int64_max"
      using mx by (simp add: cpp_div_pos less_div_iff_mult)
    moreover have "0 < a * b" using 1 by simp
    moreover from this mn have "int64_min \<le> a * b" by linarith
    ultimately show ?thesis using 1 by (auto simp: safe_mul_def in_int64_def)
  next
    case 2
    then have "b < cpp_div int64_min a \<longleftrightarrow> (- int64_min) div a < - b"
      using mn by (auto simp: cpp_div_neg_pos)
    also have "\<dots> \<longleftrightarrow> a * b < int64_min"
      using 2 by (simp add: less_div_iff_mult mult.commute)
    finally have guard: "b < cpp_div int64_min a \<longleftrightarrow> a * b < int64_min" .
    have "a * b \<le> 0" using 2 by (simp add: mult_nonneg_nonpos)
    with guard show ?thesis using 2 mx by (auto simp: safe_mul_def in_int64_def)
  next
    case 3
    then have "a < cpp_div int64_min b \<longleftrightarrow> (- int64_min) div b < - a"
      using mn by (auto simp: cpp_div_neg_pos)
    also have "\<dots> \<longleftrightarrow> a * b < int64_min"
      using 3 by (simp add: less_div_iff_mult)
    finally have guard: "a < cpp_div int64_min b \<longleftrightarrow> a * b < int64_min" .
    have "a * b \<le> 0" using 3 by (simp add: mult_nonpos_nonneg)
    with guard show ?thesis using 3 mx by (auto simp: safe_mul_def in_int64_def)
  next
    case 4
    then have "b < cpp_div int64_max a \<longleftrightarrow> int64_max div (- a) < - b"
      using mx by (auto simp: cpp_div_pos_neg)
    also have "\<dots> \<longleftrightarrow> int64_max < a * b"
      using 4 by (simp add: less_div_iff_mult mult.commute)
    finally have guard: "b < cpp_div int64_max a \<longleftrightarrow> int64_max < a * b" .
    have "0 \<le> a * b" using 4 by (simp add: mult_nonpos_nonpos)
    with guard show ?thesis using 4 mx mn by (auto simp: safe_mul_def in_int64_def)
  next
    case 5
    have "\<not> (b > 0 \<and> 0 < cpp_div int64_min b)"
      using mn pos_imp_zdiv_nonneg_iff [of b "- int64_min"] by (auto simp: cpp_div_neg_pos)
    with 5 mx mn show ?thesis by (auto simp: safe_mul_def in_int64_def)
  qed
qed

lemma cpp_div_abs:
  assumes "b \<noteq> 0"
  shows "\<bar>cpp_div a b\<bar> = \<bar>a\<bar> div \<bar>b\<bar>"
proof -
  have "0 \<le> \<bar>a\<bar> div \<bar>b\<bar>" using assms by (simp add: pos_imp_zdiv_nonneg_iff)
  then show ?thesis using assms by (cases "a = 0") (simp_all add: cpp_div_def abs_mult abs_sgn_eq)
qed

lemma cpp_mod_eq: "cpp_mod a b = sgn a * (\<bar>a\<bar> mod \<bar>b\<bar>)" if "b \<noteq> 0"
proof -
  have "b * cpp_div a b = sgn a * (\<bar>b\<bar> * (\<bar>a\<bar> div \<bar>b\<bar>))"
    unfolding cpp_div_def by (cases "0 < b") (simp_all add: sgn_if)
  also have "\<dots> = sgn a * (\<bar>a\<bar> - \<bar>a\<bar> mod \<bar>b\<bar>)" by (simp add: minus_mod_eq_mult_div)
  finally show ?thesis by (simp add: cpp_mod_def right_diff_distrib sgn_mult_abs)
qed

lemma cpp_mod_bound: "b \<noteq> 0 \<Longrightarrow> \<bar>cpp_mod a b\<bar> < \<bar>b\<bar>"
  by (simp add: cpp_mod_eq abs_mult abs_sgn_eq)

lemma cpp_mod_sgn: "cpp_mod a b = 0 \<or> sgn (cpp_mod a b) = sgn a" if "b \<noteq> 0"
proof (cases "\<bar>a\<bar> mod \<bar>b\<bar> = 0")
  case True
  then show ?thesis using that by (simp add: cpp_mod_eq)
next
  case False
  with pos_mod_sign [of "\<bar>b\<bar>" "\<bar>a\<bar>"] that have "0 < \<bar>a\<bar> mod \<bar>b\<bar>" by linarith
  then have "sgn (\<bar>a\<bar> mod \<bar>b\<bar>) = 1" by (rule sgn_pos)
  then show ?thesis using that by (simp only: cpp_mod_eq sgn_mult sgn_sgn mult_1_right simp_thms)
qed

lemma cpp_div_int64:
  assumes "in_int64 a" and "b \<noteq> 0"
  shows "in_int64 (cpp_div a b) \<longleftrightarrow> \<not> (a = int64_min \<and> b = - 1)"
proof (cases "a = int64_min")
  case False
  have "\<bar>a\<bar> div \<bar>b\<bar> \<le> \<bar>a\<bar> div 1" using assms(2) by (intro zdiv_mono2) simp_all
  then have "\<bar>cpp_div a b\<bar> \<le> \<bar>a\<bar>" using assms(2) by (simp add: cpp_div_abs)
  with False assms(1) show ?thesis by (auto simp: in_int64_def int64_min_def int64_max_def)
next
  case True
  show ?thesis
  proof (cases "\<bar>b\<bar> = 1")
    case one: True
    then have "b = 1 \<or> b = - 1" by linarith
    with True show ?thesis by (auto simp: cpp_div_def in_int64_def int64_min_def int64_max_def)
  next
    case False
    with assms(2) have "2 \<le> \<bar>b\<bar>" by linarith
    then have "\<bar>a\<bar> div \<bar>b\<bar> \<le> \<bar>a\<bar> div 2" by (intro zdiv_mono2) simp_all
    with True have "\<bar>cpp_div a b\<bar> \<le> 2 ^ 62"
      using assms(2) by (simp add: cpp_div_abs int64_min_def)
    with False True show ?thesis by (auto simp: in_int64_def int64_min_def int64_max_def)
  qed
qed

section \<open>Properties\<close>

text \<open>C18: the guards of the checked 64-bit arithmetic are exact. On 64-bit operands, addition,
  subtraction, multiplication and negation return the mathematical result when it fits in 64 bits
  and throw when it does not. Division returns the quotient rounded towards zero when the divisor is
  not zero and that quotient fits in 64 bits, and throws otherwise; the remainder is returned for the
  same operands as the quotient. Quotient and remainder belong together: they recompose the
  dividend, the remainder is smaller in magnitude than the divisor, and it has the sign of the
  dividend.\<close>

theorem safe_int_exact:
  assumes "in_int64 a" and "in_int64 b"
  shows "(safe_add a b = Inr c \<longleftrightarrow> c = a + b \<and> in_int64 (a + b)) \<and>
    (safe_sub a b = Inr c \<longleftrightarrow> c = a - b \<and> in_int64 (a - b)) \<and>
    (safe_mul a b = Inr c \<longleftrightarrow> c = a * b \<and> in_int64 (a * b)) \<and>
    (safe_neg a = Inr c \<longleftrightarrow> c = - a \<and> in_int64 (- a)) \<and>
    (safe_div a b = Inr c \<longleftrightarrow>
      b \<noteq> 0 \<and> c = sgn a * sgn b * (\<bar>a\<bar> div \<bar>b\<bar>) \<and> in_int64 c) \<and>
    ((\<exists>r. safe_mod a b = Inr r) \<longleftrightarrow> (\<exists>q. safe_div a b = Inr q)) \<and>
    (\<forall>q r. safe_div a b = Inr q \<and> safe_mod a b = Inr r \<longrightarrow>
      a = q * b + r \<and> \<bar>r\<bar> < \<bar>b\<bar> \<and> (r = 0 \<or> sgn r = sgn a) \<and> in_int64 r)"
proof (intro conjI allI impI)
  show "safe_add a b = Inr c \<longleftrightarrow> c = a + b \<and> in_int64 (a + b)"
    using assms by (auto simp: safe_add_exact simp del: safe_add_Inr)
  show "safe_sub a b = Inr c \<longleftrightarrow> c = a - b \<and> in_int64 (a - b)"
    using assms by (auto simp: safe_sub_exact simp del: safe_sub_Inr)
  show "safe_mul a b = Inr c \<longleftrightarrow> c = a * b \<and> in_int64 (a * b)"
    using assms by (auto simp: safe_mul_exact)
  show "safe_neg a = Inr c \<longleftrightarrow> c = - a \<and> in_int64 (- a)"
    using assms by (auto simp: in_int64_def int64_min_def int64_max_def)
  show "safe_div a b = Inr c \<longleftrightarrow> b \<noteq> 0 \<and> c = sgn a * sgn b * (\<bar>a\<bar> div \<bar>b\<bar>) \<and> in_int64 c"
    using cpp_div_int64 [OF assms(1), of b] by (auto simp: safe_div_def cpp_div_def)
  show "(\<exists>r. safe_mod a b = Inr r) \<longleftrightarrow> (\<exists>q. safe_div a b = Inr q)"
    by (simp add: safe_mod_def safe_div_def)
  fix q r
  assume "safe_div a b = Inr q \<and> safe_mod a b = Inr r"
  then have b: "b \<noteq> 0" and q: "q = cpp_div a b" and r: "r = cpp_mod a b"
    by (auto simp: safe_div_def safe_mod_def split: if_splits)
  show "a = q * b + r" by (simp add: q r cpp_mod_def)
  show lt: "\<bar>r\<bar> < \<bar>b\<bar>" and "r = 0 \<or> sgn r = sgn a"
    using cpp_mod_bound [OF b] cpp_mod_sgn [OF b] by (simp_all add: r)
  from lt assms(2) show "in_int64 r" by (auto simp: in_int64_def int64_min_def int64_max_def)
qed

theorem safe_int_exact_witness:
  "in_int64 int64_max \<and> in_int64 (- 1) \<and> safe_add int64_max (- 1) = Inr (int64_max - 1) \<and>
    in_int64 (- 7) \<and> in_int64 2 \<and> safe_div (- 7) 2 = Inr (- 3) \<and> safe_mod (- 7) 2 = Inr (- 1) \<and>
    - 7 = - 3 * 2 + (- 1 :: int)"
proof -
  have 1: "in_int64 int64_max" "in_int64 (- 1)" "in_int64 (int64_max + - 1)"
    by (simp_all add: in_int64_def int64_max_def int64_min_def)
  have 2: "in_int64 (- 7)" "in_int64 2" "in_int64 (- 3)"
    by (simp_all add: in_int64_def int64_max_def int64_min_def)
  have d: "safe_div (- 7) 2 = Inr (- 3)" "safe_mod (- 7) 2 = Inr (- 1)" by code_simp+
  from safe_int_exact [OF 2(1,2)] d have "- 7 = - 3 * 2 + (- 1 :: int)" by metis
  moreover from safe_int_exact [OF 1(1,2), THEN conjunct1] 1(3)
  have "safe_add int64_max (- 1) = Inr (int64_max - 1)" by (simp del: safe_add_Inr)
  ultimately show ?thesis using 1 2 d by blast
qed

end
