(* ===== verification/Ordered_Index.thy ===== *)
theory Ordered_Index
  imports Chain_Prelude "HOL-Library.Multiset"
begin

text \<open>
  The ordered views of a multi-index container. \<open>index_by lt xs\<close> lists the rows in the order of the
  comparator \<open>lt\<close>, as an \<open>ordered_unique\<close> index iterates over them; \<open>lower_bound\<close>,
  \<open>upper_bound\<close> and \<open>index_range\<close> are the iterator ranges the code asks for.

  The interface to a comparator is the locale \<open>weak_order\<close>: a strict weak order on the rows that may
  be stored. What the clients of an index rely on, that the view is sorted and holds every row once,
  is proved in it.
\<close>

section \<open>Definitions\<close>

fun insort_lt :: "('a \<Rightarrow> 'a \<Rightarrow> bool) \<Rightarrow> 'a \<Rightarrow> 'a list \<Rightarrow> 'a list" where
  "insort_lt lt x [] = [x]"
| "insort_lt lt x (y # ys) = (if lt y x then y # insort_lt lt x ys else x # y # ys)"

definition index_by :: "('a \<Rightarrow> 'a \<Rightarrow> bool) \<Rightarrow> 'a list \<Rightarrow> 'a list" where
  "index_by lt xs = foldr (insort_lt lt) xs []"

text \<open>\<open>below r\<close> says that the row sorts before the searched key, \<open>beyond r\<close> that it sorts after.\<close>

definition lower_bound :: "('a \<Rightarrow> bool) \<Rightarrow> 'a list \<Rightarrow> 'a list" where
  "lower_bound below xs = dropWhile below xs"

definition index_range :: "('a \<Rightarrow> bool) \<Rightarrow> ('a \<Rightarrow> bool) \<Rightarrow> 'a list \<Rightarrow> 'a list" where
  "index_range below beyond xs = takeWhile (\<lambda>r. \<not> beyond r) (lower_bound below xs)"

section \<open>The comparator interface\<close>

lemma mset_insort_lt [simp]: "mset (insort_lt lt x xs) = add_mset x (mset xs)"
  by (induction xs) auto

lemma set_insort_lt [simp]: "set (insort_lt lt x xs) = insert x (set xs)"
  by (induction xs) auto

lemma mset_index_by [simp]: "mset (index_by lt xs) = mset xs"
  by (induction xs) (auto simp: index_by_def)

lemma set_index_by [simp]: "set (index_by lt xs) = set xs"
  using mset_index_by [of lt xs] by (metis set_mset_mset)

lemma distinct_index_by [simp]: "distinct (index_by lt xs) = distinct xs"
  using mset_index_by [of lt xs] by (metis distinct_count_atmost_1 set_mset_mset)

lemma distinct_map_index_by [simp]: "distinct (map f (index_by lt xs)) = distinct (map f xs)"
proof -
  have "mset (map f (index_by lt xs)) = mset (map f xs)" by simp
  then show ?thesis by (rule mset_eq_imp_distinct_iff)
qed

lemma set_index_range: "set (index_range below beyond xs) \<subseteq> set xs"
  by (auto simp: index_range_def lower_bound_def dest: set_takeWhileD set_dropWhileD)

lemma index_range_not_above: "r \<in> set (index_range below beyond xs) \<Longrightarrow> \<not> beyond r"
  by (auto simp: index_range_def dest: set_takeWhileD)

locale weak_order =
  fixes stored :: "'a \<Rightarrow> bool" and lt :: "'a \<Rightarrow> 'a \<Rightarrow> bool"
  assumes lt_irrefl: "stored x \<Longrightarrow> \<not> lt x x"
    and lt_trans: "stored x \<Longrightarrow> stored y \<Longrightarrow> stored z \<Longrightarrow> lt x y \<Longrightarrow> lt y z \<Longrightarrow> lt x z"
    and incomp_trans: "stored x \<Longrightarrow> stored y \<Longrightarrow> stored z \<Longrightarrow> \<not> lt x y \<Longrightarrow> \<not> lt y z \<Longrightarrow> \<not> lt x z"
begin

lemma lt_asym: "stored x \<Longrightarrow> stored y \<Longrightarrow> lt x y \<Longrightarrow> \<not> lt y x"
  using lt_irrefl lt_trans by blast

lemma insort_sorted:
  "stored x \<Longrightarrow> \<forall>y \<in> set ys. stored y \<Longrightarrow> sorted_wrt (\<lambda>a b. \<not> lt b a) ys \<Longrightarrow>
    sorted_wrt (\<lambda>a b. \<not> lt b a) (insort_lt lt x ys)"
proof (induction ys)
  case Nil
  then show ?case by simp
next
  case (Cons y ys)
  show ?case
  proof (cases "lt y x")
    case True
    then have "\<not> lt x y" using Cons.prems lt_asym by auto
    with True Cons show ?thesis by auto
  next
    case False
    have "\<not> lt z x" if "z \<in> set ys" for z
      using that False Cons.prems incomp_trans [of z y x] by auto
    with False Cons.prems show ?thesis by auto
  qed
qed

lemma index_by_sorted:
  "\<forall>x \<in> set xs. stored x \<Longrightarrow> sorted_wrt (\<lambda>a b. \<not> lt b a) (index_by lt xs)"
proof (induction xs)
  case Nil
  then show ?case by (simp add: index_by_def)
next
  case (Cons x xs)
  have "\<forall>y \<in> set (index_by lt xs). stored y" using Cons.prems by simp
  with insort_sorted [of x "index_by lt xs"] Cons show ?case by (simp add: index_by_def)
qed

lemma index_by_hd_minimal:
  assumes "\<forall>x \<in> set xs. stored x" and "index_by lt xs = y # ys" and "z \<in> set xs"
  shows "\<not> lt z y"
proof -
  have "sorted_wrt (\<lambda>a b. \<not> lt b a) (y # ys)"
    using index_by_sorted [OF assms(1)] assms(2) by simp
  moreover have "z = y \<or> z \<in> set ys"
    using set_index_by [of lt xs] assms(2,3) by auto
  moreover have "stored y"
    using set_index_by [of lt xs] assms(1,2) by auto
  ultimately show ?thesis using lt_irrefl by auto
qed

end

lemma index_range_head:
  assumes "index_range below beyond xs = c # cs"
  shows "\<not> below c" "\<not> beyond c" "c \<in> set xs"
proof -
  from assms obtain ys where ys: "dropWhile below xs = c # ys"
    unfolding index_range_def lower_bound_def by (cases "dropWhile below xs") (auto split: if_splits)
  then show "\<not> below c" by (simp add: dropWhile_eq_Cons_conv)
  show "\<not> beyond c" "c \<in> set xs"
    using index_range_not_above [of c below beyond xs] set_index_range [of below beyond xs] assms by auto
qed

end
