(* ===== verification/Asset_Price.thy ===== *)
theory Asset_Price
  imports Safe_Int Ordered_Index
begin

text \<open>
  Assets, prices and price feeds: \<open>chain/protocol/asset.hpp\<close> and \<open>chain/protocol/asset.cpp\<close>.

  An amount is a \<open>share_type\<close>, an asset id the instance number of an asset object (0 is the core
  asset, 1 is GAS). The 128-bit unsigned products of the comparisons and of \<open>asset * price\<close> wrap
  at \<open>2 ^ 128\<close>. A \<open>boost::rational\<close> is a pair in lowest terms with a positive denominator, as its
  documentation says. \<open>price::to_real\<close> (floating point, for display) is not modelled.
\<close>

section \<open>Constants\<close>

definition GRAPHENE_MAX_SHARE_SUPPLY :: int where "GRAPHENE_MAX_SHARE_SUPPLY = 1000000000000000000"
definition GRAPHENE_100_PERCENT :: int where "GRAPHENE_100_PERCENT = 10000"
definition GRAPHENE_COLLATERAL_RATIO_DENOM :: int where "GRAPHENE_COLLATERAL_RATIO_DENOM = 1000"
definition GRAPHENE_MIN_COLLATERAL_RATIO :: int where "GRAPHENE_MIN_COLLATERAL_RATIO = 1001"
definition GRAPHENE_MAX_COLLATERAL_RATIO :: int where "GRAPHENE_MAX_COLLATERAL_RATIO = 32000"
definition GRAPHENE_ASSET_GAS :: nat where "GRAPHENE_ASSET_GAS = 1"
definition core_asset :: nat where "core_asset = 0"

lemmas chain_constants = GRAPHENE_MAX_SHARE_SUPPLY_def GRAPHENE_100_PERCENT_def
  GRAPHENE_COLLATERAL_RATIO_DENOM_def GRAPHENE_MIN_COLLATERAL_RATIO_def
  GRAPHENE_MAX_COLLATERAL_RATIO_def GRAPHENE_ASSET_GAS_def core_asset_def

section \<open>Assets\<close>

record asset =
  amount :: share_type
  asset_id :: nat

definition asset_of :: "share_type \<Rightarrow> nat \<Rightarrow> asset" where
  "asset_of a i = \<lparr>amount = a, asset_id = i\<rparr>"

definition asset_add :: "asset \<Rightarrow> asset \<Rightarrow> asset result" where
  "asset_add a b =
     (if asset_id a \<noteq> asset_id b then Inl Assert_exception
      else bindE (safe_add (amount a) (amount b)) (\<lambda>v. Inr (asset_of v (asset_id a))))"

definition asset_sub :: "asset \<Rightarrow> asset \<Rightarrow> asset result" where
  "asset_sub a b =
     (if asset_id a \<noteq> asset_id b then Inl Assert_exception
      else bindE (safe_sub (amount a) (amount b)) (\<lambda>v. Inr (asset_of v (asset_id a))))"

definition asset_neg :: "asset \<Rightarrow> asset result" where
  "asset_neg a = bindE (safe_neg (amount a)) (\<lambda>v. Inr (asset_of v (asset_id a)))"

definition asset_lt :: "asset \<Rightarrow> asset \<Rightarrow> bool result" where
  "asset_lt a b =
     (if asset_id a \<noteq> asset_id b then Inl Assert_exception else Inr (amount a < amount b))"

definition asset_le :: "asset \<Rightarrow> asset \<Rightarrow> bool result" where
  "asset_le a b = (if a = b then Inr True else asset_lt a b)"

definition asset_gt :: "asset \<Rightarrow> asset \<Rightarrow> bool result" where
  "asset_gt a b = bindE (asset_le a b) (\<lambda>c. Inr (\<not> c))"

definition asset_ge :: "asset \<Rightarrow> asset \<Rightarrow> bool result" where
  "asset_ge a b = bindE (asset_lt a b) (\<lambda>c. Inr (\<not> c))"

primrec p10 :: "nat \<Rightarrow> int" where
  "p10 0 = 1"
| "p10 (Suc n) = 10 * p10 n"

definition scaled_precision :: "nat \<Rightarrow> share_type result" where
  "scaled_precision precision = (if \<not> precision < 19 then Inl Assert_exception else Inr (p10 precision))"

section \<open>Prices\<close>

record price =
  base :: asset
  quote :: asset

definition null_price :: price where
  "null_price = \<lparr>base = asset_of 0 0, quote = asset_of 0 0\<rparr>"

definition unit_price :: "nat \<Rightarrow> price" where
  "unit_price a = \<lparr>base = asset_of 1 a, quote = asset_of 1 a\<rparr>"

definition u128 :: "int \<Rightarrow> int" where
  "u128 x = x mod 2 ^ 128"

definition price_eq :: "price \<Rightarrow> price \<Rightarrow> bool" where
  "price_eq a b =
     (if (asset_id (base a), asset_id (quote a)) \<noteq> (asset_id (base b), asset_id (quote b)) then False
      else u128 (u128 (amount (quote b)) * amount (base a)) =
           u128 (u128 (amount (quote a)) * amount (base b)))"

definition price_lt :: "price \<Rightarrow> price \<Rightarrow> bool" where
  "price_lt a b =
     (if asset_id (base a) < asset_id (base b) then True
      else if asset_id (base a) > asset_id (base b) then False
      else if asset_id (quote a) < asset_id (quote b) then True
      else if asset_id (quote a) > asset_id (quote b) then False
      else u128 (u128 (amount (quote b)) * amount (base a)) <
           u128 (u128 (amount (quote a)) * amount (base b)))"

definition price_le :: "price \<Rightarrow> price \<Rightarrow> bool" where
  "price_le a b \<longleftrightarrow> price_eq a b \<or> price_lt a b"

definition price_gt :: "price \<Rightarrow> price \<Rightarrow> bool" where
  "price_gt a b \<longleftrightarrow> \<not> price_le a b"

definition price_ge :: "price \<Rightarrow> price \<Rightarrow> bool" where
  "price_ge a b \<longleftrightarrow> \<not> price_lt a b"

text \<open>\<open>asset * price\<close>: convert through the price, in whichever direction the asset fits.\<close>

definition asset_times_price :: "asset \<Rightarrow> price \<Rightarrow> asset result" where
  "asset_times_price a b =
     (if asset_id a = asset_id (base b) then
        if \<not> amount (base b) > 0 then Inl Assert_exception
        else let r = u128 (u128 (amount a) * amount (quote b)) div amount (base b)
          in if \<not> r \<le> GRAPHENE_MAX_SHARE_SUPPLY then Inl Assert_exception
             else Inr (asset_of r (asset_id (quote b)))
      else if asset_id a = asset_id (quote b) then
        if \<not> amount (quote b) > 0 then Inl Assert_exception
        else let r = u128 (u128 (amount a) * amount (base b)) div amount (quote b)
          in if \<not> r \<le> GRAPHENE_MAX_SHARE_SUPPLY then Inl Assert_exception
             else Inr (asset_of r (asset_id (base b)))
      else Inl Assert_exception)"

definition price_div :: "asset \<Rightarrow> asset \<Rightarrow> price result" where
  "price_div b q = (if asset_id b = asset_id q then Inl Assert_exception else Inr \<lparr>base = b, quote = q\<rparr>)"

definition price_inv :: "price \<Rightarrow> price" where
  "price_inv p = \<lparr>base = quote p, quote = base p\<rparr>"

definition price_max :: "nat \<Rightarrow> nat \<Rightarrow> price result" where
  "price_max b q = price_div (asset_of GRAPHENE_MAX_SHARE_SUPPLY b) (asset_of 1 q)"

definition price_min :: "nat \<Rightarrow> nat \<Rightarrow> price result" where
  "price_min b q = price_div (asset_of 1 b) (asset_of GRAPHENE_MAX_SHARE_SUPPLY q)"

definition price_is_null :: "price \<Rightarrow> bool" where
  "price_is_null p = price_eq p null_price"

definition price_validate :: "price \<Rightarrow> unit result" where
  "price_validate p =
     (if \<not> amount (base p) > 0 then Inl Assert_exception
      else if \<not> amount (quote p) > 0 then Inl Assert_exception
      else if asset_id (base p) = asset_id (quote p) then Inl Assert_exception
      else Inr ())"

subsection \<open>Call prices\<close>

definition reduce :: "int \<Rightarrow> int \<Rightarrow> int \<times> int" where
  "reduce n d = (n div gcd n d, d div gcd n d)"

definition rational :: "int \<Rightarrow> int \<Rightarrow> (int \<times> int) result" where
  "rational n d =
     (if d = 0 then Inl Bad_rational
      else if d < 0 then Inr (reduce (- n) (- d)) else Inr (reduce n d))"

definition rational_mul :: "int \<times> int \<Rightarrow> int \<times> int \<Rightarrow> int \<times> int" where
  "rational_mul p q = reduce (fst p * fst q) (snd p * snd q)"

text \<open>The two scaling loops: halve numerator and denominator until both are at most the maximal
  share supply.\<close>

lemma abs_div_dvd_le: "g dvd n \<Longrightarrow> \<bar>n div g\<bar> \<le> \<bar>n :: int\<bar>"
proof (cases "g = 0")
  case False
  assume "g dvd n"
  then obtain k where k: "n = g * k" ..
  have "1 * \<bar>k\<bar> \<le> \<bar>g\<bar> * \<bar>k\<bar>" using False by (intro mult_right_mono) auto
  with k False show ?thesis by (simp add: abs_mult)
qed simp

lemma abs_reduce_le: "\<bar>fst (reduce n d)\<bar> \<le> \<bar>n\<bar>" "\<bar>snd (reduce n d)\<bar> \<le> \<bar>d\<bar>"
  by (simp_all add: reduce_def abs_div_dvd_le)

function call_shrink :: "int \<Rightarrow> int \<Rightarrow> int \<times> int" where
  "call_shrink n d =
     (if n > GRAPHENE_MAX_SHARE_SUPPLY \<or> d > GRAPHENE_MAX_SHARE_SUPPLY
      then let p = reduce (n div 2 + 1) (d div 2 + 1) in call_shrink (fst p) (snd p)
      else (n, d))"
  by pat_completeness auto
termination
proof (relation "measure (\<lambda>(n, d). nat (\<bar>n\<bar> + \<bar>d\<bar>))")
  fix n d :: int and p
  assume big: "n > GRAPHENE_MAX_SHARE_SUPPLY \<or> d > GRAPHENE_MAX_SHARE_SUPPLY"
    and p: "p = reduce (n div 2 + 1) (d div 2 + 1)"
  have "\<bar>fst p\<bar> + \<bar>snd p\<bar> \<le> \<bar>n div 2 + 1\<bar> + \<bar>d div 2 + 1\<bar>"
    using abs_reduce_le [of "n div 2 + 1" "d div 2 + 1"] p by simp
  also have "\<dots> < \<bar>n\<bar> + \<bar>d\<bar>"
    using big by (auto simp: GRAPHENE_MAX_SHARE_SUPPLY_def)
  finally show "((fst p, snd p), n, d) \<in> measure (\<lambda>(n, d). nat (\<bar>n\<bar> + \<bar>d\<bar>))"
    by (cases p) simp
qed simp

declare call_shrink.simps [simp del]

definition call_price :: "asset \<Rightarrow> asset \<Rightarrow> int \<Rightarrow> price result" where
  "call_price debt collateral collateral_ratio =
     bindE (rational (amount debt) (amount collateral)) (\<lambda>swan.
     bindE (rational collateral_ratio GRAPHENE_COLLATERAL_RATIO_DENOM) (\<lambda>ratio.
     let cp = rational_mul swan ratio; nd = call_shrink (fst cp) (snd cp) in
     bindE (price_div (asset_of (fst nd) (asset_id debt)) (asset_of (snd nd) (asset_id collateral))) (\<lambda>p.
     Inr (price_inv p))))"

section \<open>Price feeds\<close>

record price_feed =
  pf_settlement_price :: price
  maintenance_collateral_ratio :: int
  maximum_short_squeeze_ratio :: int

definition null_feed :: price_feed where
  "null_feed = \<lparr>pf_settlement_price = null_price, maintenance_collateral_ratio = 1750,
     maximum_short_squeeze_ratio = 1500\<rparr>"

function squeeze_shrink :: "int \<Rightarrow> int \<Rightarrow> int \<times> int" where
  "squeeze_shrink n d =
     (if n > GRAPHENE_MAX_SHARE_SUPPLY \<or> d > GRAPHENE_MAX_SHARE_SUPPLY
      then let p = reduce (n div 2 + n mod 2) (d div 2 + d mod 2) in squeeze_shrink (fst p) (snd p)
      else (n, d))"
  by pat_completeness auto
termination
proof (relation "measure (\<lambda>(n, d). nat (\<bar>n\<bar> + \<bar>d\<bar>))")
  fix n d :: int and p
  assume big: "n > GRAPHENE_MAX_SHARE_SUPPLY \<or> d > GRAPHENE_MAX_SHARE_SUPPLY"
    and p: "p = reduce (n div 2 + n mod 2) (d div 2 + d mod 2)"
  have "\<bar>fst p\<bar> + \<bar>snd p\<bar> \<le> \<bar>n div 2 + n mod 2\<bar> + \<bar>d div 2 + d mod 2\<bar>"
    using abs_reduce_le [of "n div 2 + n mod 2" "d div 2 + d mod 2"] p by simp
  also have "\<dots> < \<bar>n\<bar> + \<bar>d\<bar>"
    using big by (auto simp: GRAPHENE_MAX_SHARE_SUPPLY_def)
  finally show "((fst p, snd p), n, d) \<in> measure (\<lambda>(n, d). nat (\<bar>n\<bar> + \<bar>d\<bar>))"
    by (cases p) simp
qed simp

declare squeeze_shrink.simps [simp del]

definition max_short_squeeze_price :: "price_feed \<Rightarrow> price result" where
  "max_short_squeeze_price f =
     (let sp = pf_settlement_price f in
      bindE (rational (amount (base sp)) (amount (quote sp))) (\<lambda>s.
      bindE (rational GRAPHENE_COLLATERAL_RATIO_DENOM (maximum_short_squeeze_ratio f)) (\<lambda>ratio.
      let cp = rational_mul s ratio; nd = squeeze_shrink (fst cp) (snd cp) in
      price_div (asset_of (fst nd) (asset_id (base sp))) (asset_of (snd nd) (asset_id (quote sp))))))"

definition price_feed_validate :: "price_feed \<Rightarrow> unit result" where
  "price_feed_validate f =
     bindE (if \<not> price_is_null (pf_settlement_price f) then price_validate (pf_settlement_price f) else Inr ()) (\<lambda>_.
     if \<not> maximum_short_squeeze_ratio f \<ge> GRAPHENE_MIN_COLLATERAL_RATIO then Inl Assert_exception
     else if \<not> maximum_short_squeeze_ratio f \<le> GRAPHENE_MAX_COLLATERAL_RATIO then Inl Assert_exception
     else if \<not> maintenance_collateral_ratio f \<ge> GRAPHENE_MIN_COLLATERAL_RATIO then Inl Assert_exception
     else if \<not> maintenance_collateral_ratio f \<le> GRAPHENE_MAX_COLLATERAL_RATIO then Inl Assert_exception
     else if \<not> maintenance_collateral_ratio f \<ge> maximum_short_squeeze_ratio f then Inl Assert_exception
     else bindE (max_short_squeeze_price f) (\<lambda>_. Inr ()))"

definition price_feed_is_for :: "price_feed \<Rightarrow> nat \<Rightarrow> bool" where
  "price_feed_is_for f i =
     (if \<not> price_is_null (pf_settlement_price f) then asset_id (base (pf_settlement_price f)) = i else True)"

section \<open>Lemmas on assets\<close>

lemma asset_of_simps [simp]: "amount (asset_of a i) = a" "asset_id (asset_of a i) = i"
  by (simp_all add: asset_of_def)

lemma asset_of_eta [simp]: "asset_of (amount a) (asset_id a) = a"
  by (simp add: asset_of_def)

lemma asset_of_inject [simp]: "asset_of a i = asset_of b j \<longleftrightarrow> a = b \<and> i = j"
  by (auto simp: asset_of_def)

lemma asset_eq_iff: "(a :: asset) = b \<longleftrightarrow> amount a = amount b \<and> asset_id a = asset_id b"
  by auto

lemma asset_add_Inr [simp]: "asset_add a b = Inr c \<longleftrightarrow>
    asset_id a = asset_id b \<and> (\<exists>v. safe_add (amount a) (amount b) = Inr v \<and> c = asset_of v (asset_id a))"
  by (auto simp: asset_add_def)

lemma asset_sub_Inr [simp]: "asset_sub a b = Inr c \<longleftrightarrow>
    asset_id a = asset_id b \<and> (\<exists>v. safe_sub (amount a) (amount b) = Inr v \<and> c = asset_of v (asset_id a))"
  by (auto simp: asset_sub_def)

lemma asset_neg_Inr [simp]: "asset_neg a = Inr c \<longleftrightarrow>
    amount a \<noteq> int64_min \<and> c = asset_of (- amount a) (asset_id a)"
  by (auto simp: asset_neg_def)

lemma asset_lt_Inr [simp]: "asset_lt a b = Inr c \<longleftrightarrow> asset_id a = asset_id b \<and> c = (amount a < amount b)"
  by (auto simp: asset_lt_def)

lemma asset_le_Inr [simp]: "asset_le a b = Inr c \<longleftrightarrow> asset_id a = asset_id b \<and> c = (amount a \<le> amount b)"
  by (auto simp: asset_le_def asset_eq_iff)

lemma asset_gt_Inr [simp]: "asset_gt a b = Inr c \<longleftrightarrow> asset_id a = asset_id b \<and> c = (amount a > amount b)"
  by (auto simp: asset_gt_def)

lemma asset_ge_Inr [simp]: "asset_ge a b = Inr c \<longleftrightarrow> asset_id a = asset_id b \<and> c = (amount a \<ge> amount b)"
  by (auto simp: asset_ge_def)

lemma price_div_Inr [simp]: "price_div b q = Inr p \<longleftrightarrow> asset_id b \<noteq> asset_id q \<and> p = \<lparr>base = b, quote = q\<rparr>"
  by (auto simp: price_div_def)

lemma price_inv_simps [simp]: "base (price_inv p) = quote p" "quote (price_inv p) = base p"
  by (simp_all add: price_inv_def)

lemma price_inv_inv [simp]: "price_inv (price_inv p) = p"
  by (simp add: price_inv_def)

lemma price_validate_Inr [simp]: "price_validate p = Inr u \<longleftrightarrow>
    amount (base p) > 0 \<and> amount (quote p) > 0 \<and> asset_id (base p) \<noteq> asset_id (quote p)"
  by (auto simp: price_validate_def)

section \<open>Comparison of prices\<close>

text \<open>A price with positive 64-bit amounts: what the order book stores.\<close>

lemma asset_eqI: "amount a = amount b \<Longrightarrow> asset_id a = asset_id b \<Longrightarrow> a = (b :: asset)"
  by (cases a; cases b) simp

text \<open>Amounts of one asset compare as numbers.\<close>

lemma asset_cmp_same:
  assumes "asset_id a = asset_id b"
  shows "asset_lt a b = Inr (amount a < amount b)" "asset_le a b = Inr (amount a \<le> amount b)"
    "asset_gt a b = Inr (amount a > amount b)" "asset_ge a b = Inr (amount a \<ge> amount b)"
proof -
  have "a = b \<longleftrightarrow> amount a = amount b" using assms asset_eqI [of a b] by auto
  then show "asset_lt a b = Inr (amount a < amount b)" "asset_le a b = Inr (amount a \<le> amount b)"
    "asset_gt a b = Inr (amount a > amount b)" "asset_ge a b = Inr (amount a \<ge> amount b)"
    using assms by (auto simp: asset_lt_def asset_le_def asset_gt_def asset_ge_def)
qed

definition pos64 :: "int \<Rightarrow> bool" where
  "pos64 x \<longleftrightarrow> 0 < x \<and> x \<le> int64_max"

definition price_ok :: "price \<Rightarrow> bool" where
  "price_ok p \<longleftrightarrow> pos64 (amount (base p)) \<and> pos64 (amount (quote p))"

lemma u128_small: "0 \<le> x \<Longrightarrow> x < 2 ^ 128 \<Longrightarrow> u128 x = x"
  by (simp add: u128_def)

lemma u128_prod:
  assumes "0 \<le> x" "x \<le> int64_max" "0 \<le> y" "y \<le> int64_max"
  shows "u128 (u128 x * y) = x * y"
proof -
  have "x * y \<le> int64_max * int64_max" using assms by (intro mult_mono) auto
  also have "\<dots> < 2 ^ 128" by (simp add: int64_max_def)
  finally have "x * y < 2 ^ 128" .
  moreover have "u128 x = x" using assms by (intro u128_small) (simp_all add: int64_max_def)
  ultimately show ?thesis using assms by (simp add: u128_small)
qed

lemma price_lt_same_market:
  assumes "price_ok a" "price_ok b" "asset_id (base a) = asset_id (base b)"
    "asset_id (quote a) = asset_id (quote b)"
  shows "price_lt a b \<longleftrightarrow> amount (base a) * amount (quote b) < amount (base b) * amount (quote a)"
  using assms by (simp add: price_lt_def price_ok_def pos64_def u128_prod) (simp add: mult.commute)

lemma price_eq_ok:
  assumes "price_ok a" "price_ok b"
  shows "price_eq a b \<longleftrightarrow> asset_id (base a) = asset_id (base b) \<and> asset_id (quote a) = asset_id (quote b)
    \<and> amount (base a) * amount (quote b) = amount (base b) * amount (quote a)"
  using assms by (simp add: price_eq_def price_ok_def pos64_def u128_prod) (auto simp: mult.commute)

lemma cross_mult_trans:
  fixes a b c d e f :: int
  assumes "0 < b" "0 < d" "0 < f" "a * d < c * b" "c * f < e * d"
  shows "a * f < e * b"
proof -
  have "(a * d) * f < (c * b) * f" using assms by simp
  moreover have "(c * f) * b < (e * d) * b" using assms by simp
  ultimately have "(a * f) * d < (e * b) * d" by (simp add: algebra_simps)
  then show ?thesis using assms(2) by simp
qed

lemma cross_mult_trans_le:
  fixes a b c d e f :: int
  assumes "0 < b" "0 < d" "0 < f" "a * d \<le> c * b" "c * f \<le> e * d"
  shows "a * f \<le> e * b"
proof -
  have "(a * d) * f \<le> (c * b) * f" using assms by simp
  moreover have "(c * f) * b \<le> (e * d) * b" using assms by simp
  ultimately have "(a * f) * d \<le> (e * b) * d" by (simp add: algebra_simps)
  then show ?thesis using assms(2) by simp
qed

lemma price_ok_pos: "price_ok p \<Longrightarrow> 0 < amount (base p)" "price_ok p \<Longrightarrow> 0 < amount (quote p)"
  by (simp_all add: price_ok_def pos64_def)

lemma price_lt_cases:
  assumes "price_ok a" "price_ok b"
  shows "price_lt a b \<longleftrightarrow> asset_id (base a) < asset_id (base b) \<or>
    asset_id (base a) = asset_id (base b) \<and> (asset_id (quote a) < asset_id (quote b) \<or>
      asset_id (quote a) = asset_id (quote b) \<and>
        amount (base a) * amount (quote b) < amount (base b) * amount (quote a))"
  using price_lt_same_market [OF assms] by (auto simp: price_lt_def)

interpretation price_order: weak_order price_ok price_lt
proof
  fix x y z :: price
  assume ok: "price_ok x" "price_ok y" "price_ok z"
  show "\<not> price_lt x x" using ok by (simp add: price_lt_cases)
  note pos = ok [THEN price_ok_pos(1)] ok [THEN price_ok_pos(2)]
  show "price_lt x z" if "price_lt x y" "price_lt y z"
    using that ok cross_mult_trans [of "amount (quote x)" "amount (quote y)" "amount (quote z)"
        "amount (base x)" "amount (base y)" "amount (base z)"] pos
    by (auto simp: price_lt_cases)
  show "\<not> price_lt x z" if "\<not> price_lt x y" "\<not> price_lt y z"
    using that ok cross_mult_trans_le [of "amount (quote z)" "amount (quote y)" "amount (quote x)"
        "amount (base z)" "amount (base y)" "amount (base x)"] pos
    by (auto simp: price_lt_cases not_less)
qed

section \<open>Conversion through a price\<close>

lemma asset_times_price_base:
  assumes "0 \<le> amount a" "amount a \<le> int64_max" "price_ok p" "asset_id a = asset_id (base p)"
  shows "asset_times_price a p =
    (let r = amount a * amount (quote p) div amount (base p)
     in if r \<le> GRAPHENE_MAX_SHARE_SUPPLY then Inr (asset_of r (asset_id (quote p))) else Inl Assert_exception)"
  using assms by (simp add: asset_times_price_def price_ok_def pos64_def u128_prod Let_def)

lemma asset_times_price_quote:
  assumes "0 \<le> amount a" "amount a \<le> int64_max" "price_ok p" "asset_id a = asset_id (quote p)"
    "asset_id (base p) \<noteq> asset_id (quote p)"
  shows "asset_times_price a p =
    (let r = amount a * amount (base p) div amount (quote p)
     in if r \<le> GRAPHENE_MAX_SHARE_SUPPLY then Inr (asset_of r (asset_id (base p))) else Inl Assert_exception)"
  using assms by (simp add: asset_times_price_def price_ok_def pos64_def u128_prod Let_def)

lemma asset_times_price_side:
  "asset_times_price a p = Inr b \<Longrightarrow>
    asset_id a = asset_id (base p) \<and> asset_id b = asset_id (quote p) \<or>
    asset_id a = asset_id (quote p) \<and> asset_id b = asset_id (base p)"
  by (auto simp: asset_times_price_def Let_def split: if_splits)

lemma asset_times_price_bound: "asset_times_price a p = Inr b \<Longrightarrow> amount b \<le> GRAPHENE_MAX_SHARE_SUPPLY"
  by (auto simp: asset_times_price_def Let_def split: if_splits)

lemma u128_nonneg [simp]: "0 \<le> u128 x"
  by (simp add: u128_def)

lemma asset_times_price_nonneg: "asset_times_price a p = Inr b \<Longrightarrow> 0 \<le> amount b"
  by (auto simp: asset_times_price_def Let_def pos_imp_zdiv_nonneg_iff split: if_splits)

lemma floor_back_le:
  fixes a q s :: int
  assumes "0 < q" "0 < s"
  shows "(a * q div s) * s div q \<le> a"
proof -
  have "a * q div s * s \<le> a * q"
    using assms(2) pos_mod_sign [OF assms(2), of "a * q"] div_mult_mod_eq [of "a * q" s] by linarith
  then have "(a * q div s) * s div q \<le> a * q div q" using assms(1) by (rule zdiv_mono1)
  then show ?thesis using assms(1) by simp
qed

lemma max_supply_int64: "GRAPHENE_MAX_SHARE_SUPPLY \<le> int64_max"
  by (simp add: GRAPHENE_MAX_SHARE_SUPPLY_def int64_max_def)

section \<open>Call prices\<close>

lemma reduce_pos:
  assumes "0 < n" "0 < d"
  shows "0 < fst (reduce n d)" "0 < snd (reduce n d)"
proof -
  have "0 < gcd n d" using assms by simp
  moreover have "gcd n d \<le> n" "gcd n d \<le> d" using assms by (simp_all add: gcd_le1_int gcd_le2_int)
  ultimately show "0 < fst (reduce n d)" "0 < snd (reduce n d)"
    by (simp_all add: reduce_def pos_imp_zdiv_pos_iff)
qed

lemma reduce_cross: "fst (reduce n d) * d = snd (reduce n d) * n"
proof -
  have "n div gcd n d * d = n * d div gcd n d" by (simp add: dvd_div_mult)
  also have "\<dots> = d * n div gcd n d" by (simp add: mult.commute)
  also have "\<dots> = d div gcd n d * n" by (simp add: dvd_div_mult)
  finally show ?thesis by (simp add: reduce_def)
qed

lemma call_shrink_range:
  "0 < n \<Longrightarrow> 0 < d \<Longrightarrow> 0 < fst (call_shrink n d) \<and> 0 < snd (call_shrink n d) \<and>
    fst (call_shrink n d) \<le> GRAPHENE_MAX_SHARE_SUPPLY \<and> snd (call_shrink n d) \<le> GRAPHENE_MAX_SHARE_SUPPLY"
proof (induction n d rule: call_shrink.induct)
  case (1 n d)
  show ?case
  proof (cases "n > GRAPHENE_MAX_SHARE_SUPPLY \<or> d > GRAPHENE_MAX_SHARE_SUPPLY")
    case True
    have "0 < n div 2 + 1" "0 < d div 2 + 1" using "1.prems" by linarith+
    from "1.IH" [OF True refl reduce_pos [OF this]] True show ?thesis
      by (simp add: call_shrink.simps [of n d] Let_def)
  next
    case False
    with "1.prems" show ?thesis by (simp add: call_shrink.simps [of n d])
  qed
qed

lemma reduce_factor:
  assumes "0 < n" "0 < d"
  shows "\<exists>g\<ge>1. n = g * fst (reduce n d) \<and> d = g * snd (reduce n d)"
proof -
  have "0 < gcd n d" using assms by simp
  then have "1 \<le> gcd n d" by linarith
  moreover have "n = gcd n d * fst (reduce n d)" "d = gcd n d * snd (reduce n d)"
    using assms by (simp_all add: reduce_def Let_def)
  ultimately show ?thesis by blast
qed

text \<open>What \<open>call_shrink\<close> may lose: \<open>rounds_to K g n x\<close> says that \<open>x\<close>, scaled back by the exact factor
  \<open>g\<close> and the rounding factor \<open>K\<close>, is \<open>n\<close> or exceeds it by less than \<open>2 * K\<close>.\<close>

definition rounds_to :: "int \<Rightarrow> int \<Rightarrow> int \<Rightarrow> int \<Rightarrow> bool" where
  "rounds_to K g n x \<longleftrightarrow> 1 \<le> K \<and> 1 \<le> g \<and> n \<le> K * (g * x) \<and> K * (g * x) \<le> n + 2 * K - 2"

lemma rounds_to_exact: "rounds_to 1 g n x \<longleftrightarrow> 1 \<le> g \<and> g * x = n"
  by (auto simp: rounds_to_def)

lemma rounds_to_scale:
  assumes "rounds_to K g n x" "1 \<le> f"
  shows "rounds_to (f * K) g (f * n) x"
proof -
  have "f * n \<le> f * (K * (g * x))" "f * (K * (g * x)) \<le> f * (n + 2 * K - 2)"
    using assms by (simp_all add: rounds_to_def)
  moreover have "1 \<le> f * K" using assms mult_mono [of 1 f 1 K] by (simp add: rounds_to_def)
  ultimately show ?thesis using assms by (simp add: rounds_to_def algebra_simps)
qed

lemma rounds_to_halve:
  assumes "rounds_to K g (n div 2 + 1) x"
  shows "rounds_to (2 * K) g n x"
proof -
  have "n \<le> 2 * (n div 2 + 1)" "2 * (n div 2 + 1) \<le> n + 2" by presburger+
  with assms show ?thesis by (simp add: rounds_to_def)
qed

lemma rounds_to_halve_scale:
  assumes "rounds_to K g n' x" "1 \<le> f" "n div 2 + 1 = f * n'"
  shows "rounds_to (2 * (f * K)) g n x"
  using rounds_to_halve [of "f * K" g n x] rounds_to_scale [OF assms(1,2)] assms(3) by simp

lemma rounds_to_halve_exact:
  assumes "rounds_to 1 g n' x" "1 \<le> f" "n div 2 + 1 = f * n'"
  shows "rounds_to 2 (f * g) n x"
proof -
  have "1 \<le> f * g" using assms mult_mono [of 1 f 1 g] by (simp add: rounds_to_def)
  with assms have "rounds_to 1 (f * g) (n div 2 + 1) x" by (simp add: rounds_to_exact mult.assoc)
  then show ?thesis using rounds_to_halve [of 1] by simp
qed

definition shrinks_to :: "int \<Rightarrow> int \<Rightarrow> int \<times> int \<Rightarrow> bool" where
  "shrinks_to n d xy \<longleftrightarrow> (\<exists>K g. rounds_to K g n (fst xy) \<and> rounds_to K g d (snd xy) \<and>
     (K = 1 \<or> K * (GRAPHENE_MAX_SHARE_SUPPLY - 1) \<le> 2 * max n d - 4))"

lemma shrinks_to_halve:
  assumes sh: "shrinks_to n' d' xy" and f: "1 \<le> f" "n div 2 + 1 = f * n'" "d div 2 + 1 = f * d'"
    and big: "n > GRAPHENE_MAX_SHARE_SUPPLY \<or> d > GRAPHENE_MAX_SHARE_SUPPLY"
  shows "shrinks_to n d xy"
proof -
  obtain K g where r: "rounds_to K g n' (fst xy)" "rounds_to K g d' (snd xy)"
    and K: "K = 1 \<or> K * (GRAPHENE_MAX_SHARE_SUPPLY - 1) \<le> 2 * max n' d' - 4"
    using sh by (auto simp: shrinks_to_def)
  show ?thesis
  proof (cases "K = 1")
    case True
    with r f have "rounds_to 2 (f * g) n (fst xy)" "rounds_to 2 (f * g) d (snd xy)"
      by (auto intro: rounds_to_halve_exact)
    moreover have "2 * (GRAPHENE_MAX_SHARE_SUPPLY - 1) \<le> 2 * max n d - 4"
      using big by (auto simp: max_def)
    ultimately show ?thesis unfolding shrinks_to_def by blast
  next
    case False
    let ?K = "2 * (f * K)"
    have "f * (K * (GRAPHENE_MAX_SHARE_SUPPLY - 1)) \<le> f * (2 * max n' d' - 4)"
      using K False f(1) by simp
    also have "\<dots> = 2 * max (f * n') (f * d') - 4 * f"
      using f(1) by (simp add: max_mult_distrib_left algebra_simps)
    finally have "f * (K * (GRAPHENE_MAX_SHARE_SUPPLY - 1)) \<le> 2 * max (f * n') (f * d') - 4 * f" .
    moreover have "2 * max (f * n') (f * d') \<le> max n d + 2"
      unfolding f(2,3) [symmetric] by (auto simp: max_def)
    ultimately have "2 * (f * (K * (GRAPHENE_MAX_SHARE_SUPPLY - 1))) \<le> 2 * max n d - 4"
      using f(1) by linarith
    moreover have "rounds_to ?K g n (fst xy)" "rounds_to ?K g d (snd xy)"
      using r f by (auto intro: rounds_to_halve_scale)
    ultimately show ?thesis unfolding shrinks_to_def by (metis mult.assoc)
  qed
qed

lemma call_shrink_shrinks: "0 < n \<Longrightarrow> 0 < d \<Longrightarrow> shrinks_to n d (call_shrink n d)"
proof (induction n d rule: call_shrink.induct)
  case (1 n d)
  show ?case
  proof (cases "n > GRAPHENE_MAX_SHARE_SUPPLY \<or> d > GRAPHENE_MAX_SHARE_SUPPLY")
    case True
    have pos: "0 < n div 2 + 1" "0 < d div 2 + 1" using "1.prems" by linarith+
    from reduce_factor [OF pos] obtain f where f: "1 \<le> f"
      "n div 2 + 1 = f * fst (reduce (n div 2 + 1) (d div 2 + 1))"
      "d div 2 + 1 = f * snd (reduce (n div 2 + 1) (d div 2 + 1))" by blast
    from shrinks_to_halve [OF "1.IH" [OF True refl reduce_pos [OF pos]] f True] True show ?thesis
      by (simp add: call_shrink.simps [of n d] Let_def)
  next
    case False
    then have "call_shrink n d = (n, d)" by (simp add: call_shrink.simps [of n d])
    moreover have "rounds_to 1 1 n n \<and> rounds_to 1 1 d d" by (simp add: rounds_to_def)
    ultimately show ?thesis unfolding shrinks_to_def by (intro exI [of _ 1]) simp
  qed
qed

lemma shrinks_to_factors:
  assumes "shrinks_to n d xy"
  shows "\<exists>K g. 1 \<le> K \<and> 1 \<le> g \<and> n \<le> K * (g * fst xy) \<and> K * (g * fst xy) < n + 2 * K \<and>
    d \<le> K * (g * snd xy) \<and> K * (g * snd xy) < d + 2 * K \<and>
    (K = 1 \<and> n = g * fst xy \<and> d = g * snd xy \<or> K * (GRAPHENE_MAX_SHARE_SUPPLY - 1) < 2 * max n d)"
proof -
  obtain K g where r: "rounds_to K g n (fst xy)" "rounds_to K g d (snd xy)"
    and K: "K = 1 \<or> K * (GRAPHENE_MAX_SHARE_SUPPLY - 1) \<le> 2 * max n d - 4"
    using assms by (auto simp: shrinks_to_def)
  from r have "K = 1 \<Longrightarrow> n = g * fst xy \<and> d = g * snd xy" by (simp add: rounds_to_exact)
  with r K show ?thesis unfolding rounds_to_def by (intro exI [of _ K] exI [of _ g]) linarith
qed

lemma shrinks_to_scale:
  assumes "shrinks_to n d xy" "1 \<le> f"
  shows "shrinks_to (f * n) (f * d) xy"
proof -
  obtain K g where r: "rounds_to K g n (fst xy)" "rounds_to K g d (snd xy)"
    and K: "K = 1 \<or> K * (GRAPHENE_MAX_SHARE_SUPPLY - 1) \<le> 2 * max n d - 4"
    using assms(1) by (auto simp: shrinks_to_def)
  show ?thesis
  proof (cases "K = 1")
    case True
    have "1 \<le> f * g" using assms(2) r mult_mono [of 1 f 1 g] by (simp add: rounds_to_def)
    with True r have "rounds_to 1 (f * g) (f * n) (fst xy)" "rounds_to 1 (f * g) (f * d) (snd xy)"
      by (auto simp: rounds_to_exact mult.assoc)
    then show ?thesis by (auto simp: shrinks_to_def)
  next
    case False
    have "f * (K * (GRAPHENE_MAX_SHARE_SUPPLY - 1)) \<le> f * (2 * max n d - 4)"
      using K False assms(2) by simp
    also have "\<dots> = 2 * max (f * n) (f * d) - 4 * f"
      using assms(2) by (simp add: max_mult_distrib_left algebra_simps)
    finally have "f * K * (GRAPHENE_MAX_SHARE_SUPPLY - 1) \<le> 2 * max (f * n) (f * d) - 4"
      using assms(2) by (simp add: mult.assoc)
    then show ?thesis using r assms(2) unfolding shrinks_to_def by (blast intro: rounds_to_scale)
  qed
qed

lemma squeeze_shrink_range:
  "0 < n \<Longrightarrow> 0 < d \<Longrightarrow> 0 < fst (squeeze_shrink n d) \<and> 0 < snd (squeeze_shrink n d) \<and>
    fst (squeeze_shrink n d) \<le> GRAPHENE_MAX_SHARE_SUPPLY \<and> snd (squeeze_shrink n d) \<le> GRAPHENE_MAX_SHARE_SUPPLY"
proof (induction n d rule: squeeze_shrink.induct)
  case (1 n d)
  show ?case
  proof (cases "n > GRAPHENE_MAX_SHARE_SUPPLY \<or> d > GRAPHENE_MAX_SHARE_SUPPLY")
    case True
    have half: "0 < k div 2 + k mod 2" if "0 < k" for k :: int using that by presburger
    from "1.IH" [OF True refl reduce_pos [OF half half]] "1.prems" True show ?thesis
      by (simp add: squeeze_shrink.simps [of n d] Let_def)
  next
    case False
    with "1.prems" show ?thesis by (simp add: squeeze_shrink.simps [of n d])
  qed
qed

lemma rational_pos: "0 < d \<Longrightarrow> rational n d = Inr (reduce n d)"
  by (simp add: rational_def)

lemma call_price_eq:
  assumes "0 < amount collateral" "asset_id debt \<noteq> asset_id collateral"
  shows "call_price debt collateral r =
    (let cp = rational_mul (reduce (amount debt) (amount collateral)) (reduce r GRAPHENE_COLLATERAL_RATIO_DENOM);
         nd = call_shrink (fst cp) (snd cp)
     in Inr \<lparr>base = asset_of (snd nd) (asset_id collateral), quote = asset_of (fst nd) (asset_id debt)\<rparr>)"
  using assms by (simp add: call_price_def rational_pos GRAPHENE_COLLATERAL_RATIO_DENOM_def Let_def
      price_div_def price_inv_def)

lemma rational_mul_pos:
  assumes "0 < fst p" "0 < snd p" "0 < fst q" "0 < snd q"
  shows "0 < fst (rational_mul p q)" "0 < snd (rational_mul p q)"
  using assms by (simp_all add: rational_mul_def reduce_pos)

lemma rational_mul_cross:
  "fst (rational_mul (reduce a b) (reduce c d)) * (b * d) = snd (rational_mul (reduce a b) (reduce c d)) * (a * c)"
  if "0 < a" "0 < b" "0 < c" "0 < d"
proof -
  let ?p = "reduce a b" and ?q = "reduce c d"
  let ?m = "rational_mul ?p ?q"
  have pos: "0 < snd ?p * snd ?q" using reduce_pos [OF that(1,2)] reduce_pos [OF that(3,4)] by simp
  have "fst ?m * (snd ?p * snd ?q) = snd ?m * (fst ?p * fst ?q)"
    unfolding rational_mul_def by (rule reduce_cross)
  then have "fst ?m * (snd ?p * snd ?q) * (b * d) = snd ?m * ((fst ?p * b) * (fst ?q * d))"
    by (simp add: algebra_simps)
  also have "\<dots> = snd ?m * ((snd ?p * a) * (snd ?q * c))"
    by (simp add: reduce_cross)
  finally have "(fst ?m * (b * d)) * (snd ?p * snd ?q) = (snd ?m * (a * c)) * (snd ?p * snd ?q)"
    by (simp add: algebra_simps)
  then show ?thesis using pos by (metis mult_cancel_right less_irrefl)
qed

lemma rational_mul_shrinks:
  assumes "0 < a" "0 < b" "0 < c" "0 < d"
  defines "m \<equiv> rational_mul (reduce a b) (reduce c d)"
  shows "shrinks_to (a * c) (b * d) (call_shrink (fst m) (snd m))"
proof -
  let ?p = "reduce a b" and ?q = "reduce c d"
  note pos = reduce_pos [OF assms(1,2)] reduce_pos [OF assms(3,4)]
  obtain f where f: "1 \<le> f" "a = f * fst ?p" "b = f * snd ?p" using reduce_factor [OF assms(1,2)] by blast
  obtain h where h: "1 \<le> h" "c = h * fst ?q" "d = h * snd ?q" using reduce_factor [OF assms(3,4)] by blast
  have "0 < fst ?p * fst ?q" "0 < snd ?p * snd ?q" using pos by simp_all
  from reduce_factor [OF this] obtain k where
    k: "1 \<le> k" "fst ?p * fst ?q = k * fst m" "snd ?p * snd ?q = k * snd m"
    unfolding m_def rational_mul_def by blast
  have "a * c = f * fst ?p * (h * fst ?q)" "b * d = f * snd ?p * (h * snd ?q)"
    by (simp_all only: f(2,3) [symmetric] h(2,3) [symmetric])
  then have "a * c = f * h * (fst ?p * fst ?q)" "b * d = f * h * (snd ?p * snd ?q)"
    by (simp_all only: ac_simps)
  then have "a * c = f * h * k * fst m" "b * d = f * h * k * snd m"
    by (simp_all only: k(2,3) mult.assoc)
  moreover have "1 \<le> f * h" using f(1) h(1) mult_mono [of 1 f 1 h] by simp
  then have "1 \<le> f * h * k" using k(1) mult_mono [of 1 "f * h" 1 k] by simp
  moreover have "0 < fst m" "0 < snd m" unfolding m_def using pos by (simp_all add: rational_mul_pos)
  then have "shrinks_to (fst m) (snd m) (call_shrink (fst m) (snd m))" by (rule call_shrink_shrinks)
  ultimately show ?thesis using shrinks_to_scale [of "fst m" "snd m" _ "f * h * k"] by (simp only:)
qed

lemma reduce_le: "0 < n \<Longrightarrow> 0 < d \<Longrightarrow> fst (reduce n d) \<le> n" "0 < n \<Longrightarrow> 0 < d \<Longrightarrow> snd (reduce n d) \<le> d"
  using abs_reduce_le [of n d] reduce_pos [of n d] by simp_all

section \<open>Properties\<close>

text \<open>C20: converting an amount through a price rounds down and never gains. For a non-negative
  amount and a price with positive amounts, \<open>asset * price\<close> returns the floor of the exact quotient
  (or throws when that exceeds the maximal share supply), and converting the result back through the
  same price yields at most the amount one started from.\<close>

theorem asset_price_roundtrip:
  assumes "0 \<le> amount a" "amount a \<le> int64_max" "price_ok p"
    "asset_id (base p) \<noteq> asset_id (quote p)"
    "asset_times_price a p = Inr b" "asset_times_price b p = Inr c"
  shows "asset_id c = asset_id a \<and> amount c \<le> amount a \<and>
    (asset_id a = asset_id (base p) \<longrightarrow> amount b = amount a * amount (quote p) div amount (base p)) \<and>
    (asset_id a = asset_id (quote p) \<longrightarrow> amount b = amount a * amount (base p) div amount (quote p))"
proof -
  have b: "0 \<le> amount b" "amount b \<le> int64_max"
    using asset_times_price_nonneg [OF assms(5)] asset_times_price_bound [OF assms(5)] max_supply_int64
    by auto
  note pos = price_ok_pos [OF assms(3)]
  from asset_times_price_side [OF assms(5)] show ?thesis
  proof
    assume s: "asset_id a = asset_id (base p) \<and> asset_id b = asset_id (quote p)"
    then have "amount b = amount a * amount (quote p) div amount (base p)"
      using assms by (auto simp: asset_times_price_base Let_def)
    moreover have "amount c = amount b * amount (base p) div amount (quote p)" "asset_id c = asset_id (base p)"
      using s assms b by (auto simp: asset_times_price_quote Let_def)
    ultimately show ?thesis using s assms(4) floor_back_le [OF pos(2) pos(1), of "amount a"] by simp
  next
    assume s: "asset_id a = asset_id (quote p) \<and> asset_id b = asset_id (base p)"
    then have "amount b = amount a * amount (base p) div amount (quote p)"
      using assms by (auto simp: asset_times_price_quote Let_def)
    moreover have "amount c = amount b * amount (quote p) div amount (base p)" "asset_id c = asset_id (quote p)"
      using s assms b by (auto simp: asset_times_price_base Let_def)
    ultimately show ?thesis using s assms(4) floor_back_le [OF pos(1) pos(2), of "amount a"] by simp
  qed
qed

theorem asset_price_roundtrip_witness:
  "let p = \<lparr>base = asset_of 3 0, quote = asset_of 2 5\<rparr> in
    asset_times_price (asset_of 10 0) p = Inr (asset_of 6 5) \<and>
    asset_times_price (asset_of 6 5) p = Inr (asset_of 9 0) \<and> (9::int) \<le> 10"
proof -
  let ?p = "\<lparr>base = asset_of 3 0, quote = asset_of 2 5\<rparr>"
  have h: "0 \<le> amount (asset_of 10 0)" "amount (asset_of 10 0) \<le> int64_max" "price_ok ?p"
    "asset_id (base ?p) \<noteq> asset_id (quote ?p)"
    by (simp_all add: int64_max_def price_ok_def pos64_def)
  have e: "asset_times_price (asset_of 10 0) ?p = Inr (asset_of 6 5)"
    "asset_times_price (asset_of 6 5) ?p = Inr (asset_of 9 0)"
    by (simp_all add: asset_times_price_def u128_def GRAPHENE_MAX_SHARE_SUPPLY_def)
  from asset_price_roundtrip [OF h e] e show ?thesis by simp
qed

text \<open>C21: \<open>price::call_price\<close> always returns a usable price. For a positive debt and collateral of
  different assets and a positive collateral ratio the scaling loop ends, the result passes
  \<open>price::validate\<close> with both amounts at most the maximal share supply, its base is the collateral
  asset and its quote the debt asset. What it loses to rounding is bounded: for the exact numerator
  \<open>amount debt * r\<close> and denominator \<open>amount collateral * 1000\<close> there are a factor \<open>g\<close> that is cancelled
  exactly and a factor \<open>K\<close> that is rounded away, the same for both amounts, such that each amount
  scaled back by \<open>K * g\<close> is the exact one or exceeds it by less than \<open>2 * K\<close>. Either \<open>K = 1\<close>, so that
  the price is exact, or \<open>K * (GRAPHENE_MAX_SHARE_SUPPLY - 1)\<close> is below twice the larger exact
  amount: no more is rounded away than the supply bound asks for. When both exact amounts are within
  the supply bound nothing is rounded.\<close>

theorem call_price_valid:
  assumes "0 < amount debt" "0 < amount collateral" "0 < r" "asset_id debt \<noteq> asset_id collateral"
  shows "\<exists>p. call_price debt collateral r = Inr p \<and> price_validate p = Inr () \<and>
    amount (base p) \<le> GRAPHENE_MAX_SHARE_SUPPLY \<and> amount (quote p) \<le> GRAPHENE_MAX_SHARE_SUPPLY \<and>
    asset_id (base p) = asset_id collateral \<and> asset_id (quote p) = asset_id debt \<and>
    (amount debt * r \<le> GRAPHENE_MAX_SHARE_SUPPLY \<and> amount collateral * 1000 \<le> GRAPHENE_MAX_SHARE_SUPPLY \<longrightarrow>
      amount (quote p) * (amount collateral * 1000) = amount (base p) * (amount debt * r)) \<and>
    (\<exists>K g. 1 \<le> K \<and> 1 \<le> g \<and>
      amount debt * r \<le> K * (g * amount (quote p)) \<and>
      K * (g * amount (quote p)) < amount debt * r + 2 * K \<and>
      amount collateral * 1000 \<le> K * (g * amount (base p)) \<and>
      K * (g * amount (base p)) < amount collateral * 1000 + 2 * K \<and>
      (K = 1 \<and> amount debt * r = g * amount (quote p) \<and> amount collateral * 1000 = g * amount (base p) \<or>
       K * (GRAPHENE_MAX_SHARE_SUPPLY - 1) < 2 * max (amount debt * r) (amount collateral * 1000)))"
proof -
  let ?D = GRAPHENE_COLLATERAL_RATIO_DENOM
  have D: "0 < ?D" "?D = 1000" by (simp_all add: GRAPHENE_COLLATERAL_RATIO_DENOM_def)
  let ?s = "reduce (amount debt) (amount collateral)" and ?r = "reduce r ?D"
  let ?cp = "rational_mul ?s ?r"
  let ?nd = "call_shrink (fst ?cp) (snd ?cp)"
  note s = reduce_pos [OF assms(1,2)] and r = reduce_pos [OF assms(3) D(1)]
  note cp = rational_mul_pos [OF s r]
  note range = call_shrink_range [OF cp]
  have "?nd = (fst ?cp, snd ?cp)"
    if "amount debt * r \<le> GRAPHENE_MAX_SHARE_SUPPLY" "amount collateral * ?D \<le> GRAPHENE_MAX_SHARE_SUPPLY"
  proof -
    have "fst ?cp \<le> fst ?s * fst ?r" "snd ?cp \<le> snd ?s * snd ?r"
      unfolding rational_mul_def using s r by (simp_all add: reduce_le)
    moreover have "fst ?s * fst ?r \<le> amount debt * r" "snd ?s * snd ?r \<le> amount collateral * ?D"
      using s r D assms by (auto intro!: mult_mono reduce_le)
    ultimately show ?thesis using that by (simp add: call_shrink.simps)
  qed
  moreover have "shrinks_to (amount debt * r) (amount collateral * 1000) ?nd"
    using rational_mul_shrinks [OF assms(1,2,3) D(1)] by (simp add: D(2))
  note shrinks_to_factors [OF this]
  ultimately show ?thesis using rational_mul_cross [OF assms(1,2,3) D(1)] range assms D(2)
    by (simp add: call_price_eq Let_def)
qed

theorem call_price_valid_witness:
  "(\<exists>p. call_price (asset_of 1000 2) (asset_of 2000 0) 1750 = Inr p \<and>
      amount (quote p) * (2000 * 1000) = amount (base p) * (1000 * 1750)) \<and>
    (\<exists>p K g. call_price (asset_of (10 ^ 16) 2) (asset_of (10 ^ 16 + 1) 0) 1749 = Inr p \<and>
      1 \<le> K \<and> 1 \<le> g \<and> amount (quote p) \<le> 10 ^ 18 \<and>
      1749 * 10 ^ 16 \<le> K * (g * amount (quote p)) \<and> K * (g * amount (quote p)) < 1749 * 10 ^ 16 + 2 * K \<and>
      10 ^ 19 + 1000 \<le> K * (g * amount (base p)) \<and> K * (g * amount (base p)) < 10 ^ 19 + 1000 + 2 * K)"
  using call_price_valid [of "asset_of 1000 2" "asset_of 2000 0" 1750]
    call_price_valid [of "asset_of (10 ^ 16) 2" "asset_of (10 ^ 16 + 1) 0" 1749]
  by (simp add: GRAPHENE_MAX_SHARE_SUPPLY_def) blast

end
