(* ===== verification/Vesting_Policy.thy ===== *)
theory Vesting_Policy
  imports Asset_Price
begin

text \<open>
  Vesting policies and vesting balances: \<open>chain/vesting_balance_object.hpp\<close> and
  \<open>chain/vesting_balance_object.cpp\<close>.

  Times are seconds (\<open>time_point_sec\<close>), differences of times are signed. Coin seconds are 128-bit
  unsigned integers that wrap. A signed 64-bit product that does not fit is undefined behaviour in C++
  and an error value here.

  What the clients of a vesting balance rely on is the locale \<open>vesting_contract\<close>: between zero and the
  balance may be withdrawn, and withdrawals and deposits keep the policy's invariant. It is interpreted
  for the linear policy, the coin-days policy and the variant of both.
\<close>

section \<open>Conversions\<close>

definition max_uint32 :: int where "max_uint32 = 2 ^ 32 - 1"

definition signed64 :: "int \<Rightarrow> int" where
  "signed64 x = (if x mod 2 ^ 64 < 2 ^ 63 then x mod 2 ^ 64 else x mod 2 ^ 64 - 2 ^ 64)"

text \<open>\<open>uint128::to_uint64\<close>, assigned to a \<open>share_type\<close>.\<close>

definition to_share :: "int \<Rightarrow> share_type result" where
  "to_share x = (if x \<ge> 2 ^ 64 then Inl Assert_exception else Inr (signed64 x))"

text \<open>A product of built-in signed 64-bit integers.\<close>

definition int64_mul :: "int \<Rightarrow> int \<Rightarrow> int result" where
  "int64_mul a b = (if in_int64 (a * b) then Inr (a * b) else Inl Undefined_behaviour)"

section \<open>Policies\<close>

record vesting_policy_context =
  vc_balance :: asset
  vc_now :: nat
  vc_amount :: asset

definition sum_below_max_shares :: "asset \<Rightarrow> asset \<Rightarrow> bool result" where
  "sum_below_max_shares a b =
     (if \<not> amount a \<le> GRAPHENE_MAX_SHARE_SUPPLY then Inr False
      else if \<not> amount b \<le> GRAPHENE_MAX_SHARE_SUPPLY then Inr False
      else bindE (safe_add (amount a) (amount b)) (\<lambda>s. Inr (s \<le> GRAPHENE_MAX_SHARE_SUPPLY)))"

subsection \<open>Linear vesting\<close>

record linear_vesting_policy =
  begin_timestamp :: nat
  vesting_cliff_seconds :: nat
  vesting_duration_seconds :: nat
  begin_balance :: share_type

definition linear_total_vested :: "linear_vesting_policy \<Rightarrow> int \<Rightarrow> share_type result" where
  "linear_total_vested p elapsed =
     (if elapsed < int (vesting_duration_seconds p)
      then to_share (u128 (u128 (begin_balance p) * elapsed) div int (vesting_duration_seconds p))
      else Inr (begin_balance p))"

definition linear_get_allowed_withdraw :: "linear_vesting_policy \<Rightarrow> vesting_policy_context \<Rightarrow> asset result" where
  "linear_get_allowed_withdraw p ctx =
     bindE
       (if vc_now ctx > begin_timestamp p then
          let elapsed_seconds = int (vc_now ctx) - int (begin_timestamp p) in
          if elapsed_seconds \<ge> int (vesting_cliff_seconds p) then
            bindE (linear_total_vested p elapsed_seconds) (\<lambda>total_vested.
            bindE (safe_sub (begin_balance p) (amount (vc_balance ctx))) (\<lambda>withdrawn_already.
            safe_sub total_vested withdrawn_already))
          else Inr 0
        else Inr 0)
       (\<lambda>allowed_withdraw. Inr (asset_of allowed_withdraw (asset_id (vc_balance ctx))))"

definition linear_on_deposit :: "linear_vesting_policy \<Rightarrow> vesting_policy_context \<Rightarrow> linear_vesting_policy result" where
  "linear_on_deposit p ctx = Inr p"

definition linear_on_deposit_vested :: "linear_vesting_policy \<Rightarrow> vesting_policy_context \<Rightarrow> linear_vesting_policy result" where
  "linear_on_deposit_vested p ctx = Inl Std_exception"

definition linear_is_deposit_allowed :: "linear_vesting_policy \<Rightarrow> vesting_policy_context \<Rightarrow> bool result" where
  "linear_is_deposit_allowed p ctx =
     (if asset_id (vc_amount ctx) = asset_id (vc_balance ctx)
      then sum_below_max_shares (vc_amount ctx) (vc_balance ctx) else Inr False)"

definition linear_on_withdraw :: "linear_vesting_policy \<Rightarrow> vesting_policy_context \<Rightarrow> linear_vesting_policy result" where
  "linear_on_withdraw p ctx = Inr p"

definition linear_is_withdraw_allowed :: "linear_vesting_policy \<Rightarrow> vesting_policy_context \<Rightarrow> bool result" where
  "linear_is_withdraw_allowed p ctx =
     (if asset_id (vc_amount ctx) = asset_id (vc_balance ctx)
      then bindE (linear_get_allowed_withdraw p ctx) (\<lambda>w. asset_le (vc_amount ctx) w) else Inr False)"

subsection \<open>Coin-days vesting\<close>

record cdd_vesting_policy =
  vesting_seconds :: nat
  coin_seconds_earned :: int
  start_claim :: nat
  coin_seconds_earned_last_update :: nat

definition cdd_seconds :: "cdd_vesting_policy \<Rightarrow> int" where
  "cdd_seconds p = int (max (vesting_seconds p) 1)"

definition compute_coin_seconds_earned :: "cdd_vesting_policy \<Rightarrow> vesting_policy_context \<Rightarrow> int" where
  "compute_coin_seconds_earned p ctx =
     (let delta_seconds = int (vc_now ctx) - int (coin_seconds_earned_last_update p);
          delta_coin_seconds = u128 (u128 (amount (vc_balance ctx)) * u128 delta_seconds);
          coin_seconds_earned_cap = u128 (u128 (amount (vc_balance ctx)) * cdd_seconds p)
      in min (u128 (coin_seconds_earned p + delta_coin_seconds)) coin_seconds_earned_cap)"

definition update_coin_seconds_earned :: "cdd_vesting_policy \<Rightarrow> vesting_policy_context \<Rightarrow> cdd_vesting_policy" where
  "update_coin_seconds_earned p ctx =
     p\<lparr>coin_seconds_earned := compute_coin_seconds_earned p ctx,
       coin_seconds_earned_last_update := vc_now ctx\<rparr>"

definition cdd_get_allowed_withdraw :: "cdd_vesting_policy \<Rightarrow> vesting_policy_context \<Rightarrow> asset result" where
  "cdd_get_allowed_withdraw p ctx =
     (if vc_now ctx \<le> start_claim p then Inr (asset_of 0 (asset_id (vc_balance ctx)))
      else bindE (to_share (compute_coin_seconds_earned p ctx div cdd_seconds p)) (\<lambda>withdraw_available.
        Inr (asset_of withdraw_available (asset_id (vc_balance ctx)))))"

definition cdd_on_deposit :: "cdd_vesting_policy \<Rightarrow> vesting_policy_context \<Rightarrow> cdd_vesting_policy result" where
  "cdd_on_deposit p ctx = Inr (update_coin_seconds_earned p ctx)"

definition cdd_on_deposit_vested :: "cdd_vesting_policy \<Rightarrow> vesting_policy_context \<Rightarrow> cdd_vesting_policy result" where
  "cdd_on_deposit_vested p ctx =
     bindE (cdd_on_deposit p ctx) (\<lambda>p'.
     bindE (int64_mul (amount (vc_amount ctx)) (cdd_seconds p')) (\<lambda>earned.
     Inr (p'\<lparr>coin_seconds_earned := u128 (coin_seconds_earned p' + u128 earned)\<rparr>)))"

definition cdd_on_withdraw :: "cdd_vesting_policy \<Rightarrow> vesting_policy_context \<Rightarrow> cdd_vesting_policy result" where
  "cdd_on_withdraw p ctx =
     (let p' = update_coin_seconds_earned p ctx;
          coin_seconds_needed = u128 (u128 (amount (vc_amount ctx)) * cdd_seconds p')
      in Inr (p'\<lparr>coin_seconds_earned := u128 (coin_seconds_earned p' - coin_seconds_needed)\<rparr>))"

definition cdd_is_deposit_allowed :: "cdd_vesting_policy \<Rightarrow> vesting_policy_context \<Rightarrow> bool result" where
  "cdd_is_deposit_allowed p ctx =
     (if asset_id (vc_amount ctx) = asset_id (vc_balance ctx)
      then sum_below_max_shares (vc_amount ctx) (vc_balance ctx) else Inr False)"

definition cdd_is_deposit_vested_allowed :: "cdd_vesting_policy \<Rightarrow> vesting_policy_context \<Rightarrow> bool result" where
  "cdd_is_deposit_vested_allowed p ctx = cdd_is_deposit_allowed p ctx"

definition cdd_is_withdraw_allowed :: "cdd_vesting_policy \<Rightarrow> vesting_policy_context \<Rightarrow> bool result" where
  "cdd_is_withdraw_allowed p ctx = bindE (cdd_get_allowed_withdraw p ctx) (\<lambda>w. asset_le (vc_amount ctx) w)"

subsection \<open>The variant and its visitors\<close>

datatype vesting_policy = Linear linear_vesting_policy | Cdd cdd_vesting_policy

fun on_deposit :: "vesting_policy \<Rightarrow> vesting_policy_context \<Rightarrow> vesting_policy result" where
  "on_deposit (Linear p) ctx = bindE (linear_on_deposit p ctx) (\<lambda>q. Inr (Linear q))"
| "on_deposit (Cdd p) ctx = bindE (cdd_on_deposit p ctx) (\<lambda>q. Inr (Cdd q))"

fun on_deposit_vested :: "vesting_policy \<Rightarrow> vesting_policy_context \<Rightarrow> vesting_policy result" where
  "on_deposit_vested (Linear p) ctx = bindE (linear_on_deposit_vested p ctx) (\<lambda>q. Inr (Linear q))"
| "on_deposit_vested (Cdd p) ctx = bindE (cdd_on_deposit_vested p ctx) (\<lambda>q. Inr (Cdd q))"

fun on_withdraw :: "vesting_policy \<Rightarrow> vesting_policy_context \<Rightarrow> vesting_policy result" where
  "on_withdraw (Linear p) ctx = bindE (linear_on_withdraw p ctx) (\<lambda>q. Inr (Linear q))"
| "on_withdraw (Cdd p) ctx = bindE (cdd_on_withdraw p ctx) (\<lambda>q. Inr (Cdd q))"

fun is_deposit_allowed :: "vesting_policy \<Rightarrow> vesting_policy_context \<Rightarrow> bool result" where
  "is_deposit_allowed (Linear p) ctx = linear_is_deposit_allowed p ctx"
| "is_deposit_allowed (Cdd p) ctx = cdd_is_deposit_allowed p ctx"

fun is_deposit_vested_allowed :: "vesting_policy \<Rightarrow> vesting_policy_context \<Rightarrow> bool result" where
  "is_deposit_vested_allowed (Linear p) ctx = Inr False"
| "is_deposit_vested_allowed (Cdd p) ctx = cdd_is_deposit_vested_allowed p ctx"

fun is_withdraw_allowed :: "vesting_policy \<Rightarrow> vesting_policy_context \<Rightarrow> bool result" where
  "is_withdraw_allowed (Linear p) ctx = linear_is_withdraw_allowed p ctx"
| "is_withdraw_allowed (Cdd p) ctx = cdd_is_withdraw_allowed p ctx"

fun get_allowed_withdraw :: "vesting_policy \<Rightarrow> vesting_policy_context \<Rightarrow> asset result" where
  "get_allowed_withdraw (Linear p) ctx = linear_get_allowed_withdraw p ctx"
| "get_allowed_withdraw (Cdd p) ctx = cdd_get_allowed_withdraw p ctx"

section \<open>Vesting balances\<close>

record vesting_balance_object =
  vb_id :: nat
  vb_owner :: nat
  vb_balance :: asset
  vb_create_time :: nat
  vb_update_time :: nat
  vb_policy :: vesting_policy
  vb_describe :: "string option"

definition vb_ctx :: "vesting_balance_object \<Rightarrow> nat \<Rightarrow> asset \<Rightarrow> vesting_policy_context" where
  "vb_ctx v now a = \<lparr>vc_balance = vb_balance v, vc_now = now, vc_amount = a\<rparr>"

definition vb_is_deposit_allowed :: "vesting_balance_object \<Rightarrow> nat \<Rightarrow> asset \<Rightarrow> bool result" where
  "vb_is_deposit_allowed v now a = is_deposit_allowed (vb_policy v) (vb_ctx v now a)"

definition vb_is_withdraw_allowed :: "vesting_balance_object \<Rightarrow> nat \<Rightarrow> asset \<Rightarrow> bool result" where
  "vb_is_withdraw_allowed v now a = is_withdraw_allowed (vb_policy v) (vb_ctx v now a)"

definition vb_deposit :: "nat \<Rightarrow> asset \<Rightarrow> vesting_balance_object \<Rightarrow> vesting_balance_object result" where
  "vb_deposit now a v =
     bindE (on_deposit (vb_policy v) (vb_ctx v now a)) (\<lambda>p.
     bindE (asset_add (vb_balance v) a) (\<lambda>b. Inr (v\<lparr>vb_policy := p, vb_balance := b\<rparr>)))"

definition vb_deposit_vested :: "nat \<Rightarrow> asset \<Rightarrow> vesting_balance_object \<Rightarrow> vesting_balance_object result" where
  "vb_deposit_vested now a v =
     bindE (on_deposit_vested (vb_policy v) (vb_ctx v now a)) (\<lambda>p.
     bindE (asset_add (vb_balance v) a) (\<lambda>b. Inr (v\<lparr>vb_policy := p, vb_balance := b\<rparr>)))"

definition vb_is_deposit_vested_allowed :: "vesting_balance_object \<Rightarrow> nat \<Rightarrow> asset \<Rightarrow> bool result" where
  "vb_is_deposit_vested_allowed v now a = is_deposit_vested_allowed (vb_policy v) (vb_ctx v now a)"

definition vb_withdraw :: "nat \<Rightarrow> asset \<Rightarrow> vesting_balance_object \<Rightarrow> vesting_balance_object result" where
  "vb_withdraw now a v =
     bindE (on_withdraw (vb_policy v) (vb_ctx v now a)) (\<lambda>p.
     bindE (asset_sub (vb_balance v) a) (\<lambda>b. Inr (v\<lparr>vb_policy := p, vb_balance := b\<rparr>)))"

definition vb_get_allowed_withdraw :: "vesting_balance_object \<Rightarrow> nat \<Rightarrow> asset result" where
  "vb_get_allowed_withdraw v now = get_allowed_withdraw (vb_policy v) (vb_ctx v now (asset_of 0 0))"

section \<open>The contract of a policy\<close>

definition policy_ctx :: "asset \<Rightarrow> nat \<Rightarrow> asset \<Rightarrow> vesting_policy_context" where
  "policy_ctx b t a = \<lparr>vc_balance = b, vc_now = t, vc_amount = a\<rparr>"

lemma policy_ctx_simps [simp]:
  "vc_balance (policy_ctx b t a) = b" "vc_now (policy_ctx b t a) = t" "vc_amount (policy_ctx b t a) = a"
  by (simp_all add: policy_ctx_def)

lemma vb_ctx_eq [simp]: "vb_ctx v t a = policy_ctx (vb_balance v) t a"
  by (simp add: vb_ctx_def policy_ctx_def)

locale vesting_contract =
  fixes inv :: "'p \<Rightarrow> asset \<Rightarrow> nat \<Rightarrow> bool"
    and allowed :: "'p \<Rightarrow> vesting_policy_context \<Rightarrow> asset result"
    and may_withdraw :: "'p \<Rightarrow> vesting_policy_context \<Rightarrow> bool result"
    and withdraw :: "'p \<Rightarrow> vesting_policy_context \<Rightarrow> 'p result"
    and deposit :: "'p \<Rightarrow> vesting_policy_context \<Rightarrow> 'p result"
  assumes inv_later: "inv p b t \<Longrightarrow> t \<le> t' \<Longrightarrow> int t' \<le> max_uint32 \<Longrightarrow> inv p b t'"
    and allowed_range: "inv p b t \<Longrightarrow> \<exists>w. (\<forall>a. allowed p (policy_ctx b t a) = Inr (asset_of w (asset_id b))) \<and>
          0 \<le> w \<and> w \<le> amount b"
    and may_withdraw_allowed: "inv p b t \<Longrightarrow> asset_id a = asset_id b \<Longrightarrow>
          may_withdraw p (policy_ctx b t a) = bindE (allowed p (policy_ctx b t a)) (asset_le a)"
    and withdraw_inv: "inv p b t \<Longrightarrow> asset_id a = asset_id b \<Longrightarrow> 0 \<le> amount a \<Longrightarrow>
          allowed p (policy_ctx b t a) = Inr w \<Longrightarrow> amount a \<le> amount w \<Longrightarrow>
          \<exists>p'. withdraw p (policy_ctx b t a) = Inr p' \<and> inv p' (asset_of (amount b - amount a) (asset_id b)) t"
    and withdraw_allowed: "inv p b t \<Longrightarrow> asset_id a = asset_id b \<Longrightarrow> 0 \<le> amount a \<Longrightarrow>
          allowed p (policy_ctx b t a) = Inr w \<Longrightarrow> amount a \<le> amount w \<Longrightarrow> withdraw p (policy_ctx b t a) = Inr p' \<Longrightarrow>
          allowed p' (policy_ctx (asset_of (amount b - amount a) (asset_id b)) t c) =
            Inr (asset_of (amount w - amount a) (asset_id b))"
    and deposit_inv: "inv p b t \<Longrightarrow> asset_id a = asset_id b \<Longrightarrow> 0 \<le> amount a \<Longrightarrow>
          amount b + amount a \<le> GRAPHENE_MAX_SHARE_SUPPLY \<Longrightarrow>
          \<exists>p'. deposit p (policy_ctx b t a) = Inr p' \<and> inv p' (asset_of (amount b + amount a) (asset_id b)) t"
begin

lemma may_withdraw_iff:
  assumes "inv p b t" "asset_id a = asset_id b"
  obtains w where "allowed p (policy_ctx b t a) = Inr (asset_of w (asset_id b))" "0 \<le> w" "w \<le> amount b"
    "may_withdraw p (policy_ctx b t a) = Inr (amount a \<le> w)"
proof -
  from allowed_range [OF assms(1)] obtain w where
    w: "\<forall>a. allowed p (policy_ctx b t a) = Inr (asset_of w (asset_id b))" "0 \<le> w" "w \<le> amount b"
    by blast
  moreover have "asset_le a (asset_of w (asset_id b)) = Inr (amount a \<le> w)"
    using assms(2) by (simp add: asset_cmp_same)
  ultimately show thesis
    using that may_withdraw_allowed [OF assms] by simp
qed

text \<open>An allowed withdrawal never exceeds the balance, leaves a policy that may be used again, and uses up
  what was allowed.\<close>

lemma withdraw_step:
  assumes "inv p b t" "asset_id a = asset_id b" "0 \<le> amount a" "may_withdraw p (policy_ctx b t a) = Inr True"
  shows "\<exists>p' w. withdraw p (policy_ctx b t a) = Inr p' \<and> amount a \<le> amount w \<and> amount w \<le> amount b \<and>
    allowed p (policy_ctx b t a) = Inr w \<and> inv p' (asset_of (amount b - amount a) (asset_id b)) t \<and>
    allowed p' (policy_ctx (asset_of (amount b - amount a) (asset_id b)) t c) =
      Inr (asset_of (amount w - amount a) (asset_id b))"
proof -
  from assms(1,2) obtain w where w: "allowed p (policy_ctx b t a) = Inr (asset_of w (asset_id b))" "w \<le> amount b"
    "may_withdraw p (policy_ctx b t a) = Inr (amount a \<le> w)"
    by (rule may_withdraw_iff)
  with assms(4) have a: "amount a \<le> amount (asset_of w (asset_id b))" by simp
  from withdraw_inv [OF assms(1-3) w(1) a] obtain p' where
    p': "withdraw p (policy_ctx b t a) = Inr p'" "inv p' (asset_of (amount b - amount a) (asset_id b)) t" by blast
  from withdraw_allowed [OF assms(1-3) w(1) a p'(1)] p' w a show ?thesis
    by (intro exI [of _ p'] exI [of _ "asset_of w (asset_id b)"]) simp
qed

end

subsection \<open>Invariants of the two policies\<close>

definition linear_vested :: "linear_vesting_policy \<Rightarrow> nat \<Rightarrow> int" where
  "linear_vested p t =
     (if begin_timestamp p < t \<and> vesting_cliff_seconds p \<le> t - begin_timestamp p
      then if t - begin_timestamp p < vesting_duration_seconds p
           then begin_balance p * int (t - begin_timestamp p) div int (vesting_duration_seconds p)
           else begin_balance p
      else 0)"

definition linear_inv :: "linear_vesting_policy \<Rightarrow> asset \<Rightarrow> nat \<Rightarrow> bool" where
  "linear_inv p b t \<longleftrightarrow> 0 \<le> begin_balance p \<and> begin_balance p \<le> GRAPHENE_MAX_SHARE_SUPPLY \<and>
     0 \<le> amount b \<and> amount b \<le> GRAPHENE_MAX_SHARE_SUPPLY \<and> int t \<le> max_uint32 \<and>
     begin_balance p - amount b \<le> linear_vested p t"

definition cdd_inv :: "cdd_vesting_policy \<Rightarrow> asset \<Rightarrow> nat \<Rightarrow> bool" where
  "cdd_inv p b t \<longleftrightarrow> 0 \<le> amount b \<and> amount b \<le> GRAPHENE_MAX_SHARE_SUPPLY \<and> int t \<le> max_uint32 \<and>
     coin_seconds_earned_last_update p \<le> t \<and> int (vesting_seconds p) \<le> max_uint32 \<and>
     0 \<le> coin_seconds_earned p \<and> coin_seconds_earned p \<le> amount b * cdd_seconds p"

fun vesting_inv :: "vesting_policy \<Rightarrow> asset \<Rightarrow> nat \<Rightarrow> bool" where
  "vesting_inv (Linear p) b t = linear_inv p b t"
| "vesting_inv (Cdd p) b t = cdd_inv p b t"

subsection \<open>Bounds of the machine arithmetic\<close>

lemma u128_id: "0 \<le> x \<Longrightarrow> x < 2 ^ 128 \<Longrightarrow> u128 x = x"
  by (simp add: u128_def)

lemma u128_supply: "0 \<le> x \<Longrightarrow> x \<le> GRAPHENE_MAX_SHARE_SUPPLY \<Longrightarrow> u128 x = x"
  by (rule u128_id) (simp_all add: chain_constants)

lemma to_share_small: "0 \<le> x \<Longrightarrow> x \<le> GRAPHENE_MAX_SHARE_SUPPLY \<Longrightarrow> to_share x = Inr x"
  by (simp add: to_share_def signed64_def chain_constants)

text \<open>A supply times a 32-bit number of seconds stays far below \<open>2 ^ 127\<close>.\<close>

lemma supply_times_seconds:
  assumes "0 \<le> x" "x \<le> GRAPHENE_MAX_SHARE_SUPPLY" "0 \<le> s" "s \<le> max_uint32"
  shows "0 \<le> x * s" "x * s < 2 ^ 127"
proof -
  show "0 \<le> x * s" using assms by simp
  have "x * s \<le> GRAPHENE_MAX_SHARE_SUPPLY * max_uint32"
    using assms by (intro mult_mono) auto
  also have "\<dots> < 2 ^ 127" by (simp add: chain_constants max_uint32_def)
  finally show "x * s < 2 ^ 127" .
qed

lemma safe_sub_supply:
  "\<bar>a\<bar> \<le> GRAPHENE_MAX_SHARE_SUPPLY \<Longrightarrow> \<bar>b\<bar> \<le> GRAPHENE_MAX_SHARE_SUPPLY \<Longrightarrow> safe_sub a b = Inr (a - b)"
  by (rule safe_sub_ok) (simp_all add: chain_constants int64_min_def int64_max_def in_int64_def, linarith+)

subsection \<open>Linear vesting\<close>

lemma linear_share_bounds:
  assumes "0 \<le> (x::int)" "0 \<le> e" "e \<le> d" "0 < d"
  shows "0 \<le> x * e div d" "x * e div d \<le> x"
proof -
  show "0 \<le> x * e div d" using assms by (simp add: pos_imp_zdiv_nonneg_iff)
  have "x * e div d \<le> x * d div d" using assms by (intro zdiv_mono1 mult_left_mono) auto
  then show "x * e div d \<le> x" using assms by simp
qed

lemma linear_vested_range: "0 \<le> begin_balance p \<Longrightarrow> 0 \<le> linear_vested p t \<and> linear_vested p t \<le> begin_balance p"
  using linear_share_bounds [of "begin_balance p" "int (t - begin_timestamp p)" "int (vesting_duration_seconds p)"]
  by (auto simp: linear_vested_def)

lemma linear_vested_mono:
  assumes "0 \<le> begin_balance p" "t \<le> t'"
  shows "linear_vested p t \<le> linear_vested p t'"
proof (cases "begin_timestamp p < t \<and> vesting_cliff_seconds p \<le> t - begin_timestamp p \<and>
    t' - begin_timestamp p < vesting_duration_seconds p")
  case True
  then show ?thesis
    using assms by (auto simp: linear_vested_def intro!: zdiv_mono1 mult_left_mono)
next
  case False
  then show ?thesis
    using assms linear_vested_range [of p t] linear_vested_range [of p t']
    by (auto simp: linear_vested_def)
qed

lemma linear_total_vested_eq:
  assumes "0 \<le> begin_balance p" "begin_balance p \<le> GRAPHENE_MAX_SHARE_SUPPLY" "0 \<le> e" "e \<le> max_uint32"
  shows "linear_total_vested p e =
    Inr (if e < int (vesting_duration_seconds p) then begin_balance p * e div int (vesting_duration_seconds p)
         else begin_balance p)"
proof (cases "e < int (vesting_duration_seconds p)")
  case True
  let ?r = "begin_balance p * e div int (vesting_duration_seconds p)"
  have "u128 (u128 (begin_balance p) * e) = begin_balance p * e"
    unfolding u128_supply [OF assms(1,2)] using supply_times_seconds [OF assms] by (intro u128_id) auto
  moreover have "0 \<le> ?r" "?r \<le> begin_balance p"
    using linear_share_bounds [of "begin_balance p" e "int (vesting_duration_seconds p)"] assms True by auto
  then have "to_share ?r = Inr ?r"
    using assms(2) by (intro to_share_small) auto
  ultimately show ?thesis using True by (simp add: linear_total_vested_def)
next
  case False
  then show ?thesis by (simp add: linear_total_vested_def)
qed

lemma linear_allowed:
  assumes "linear_inv p b t"
  shows "linear_get_allowed_withdraw p (policy_ctx b t a) =
    Inr (asset_of (if begin_timestamp p < t \<and> vesting_cliff_seconds p \<le> t - begin_timestamp p
      then linear_vested p t - (begin_balance p - amount b) else 0) (asset_id b))"
proof (cases "begin_timestamp p < t \<and> vesting_cliff_seconds p \<le> t - begin_timestamp p")
  case True
  have e: "int (t - begin_timestamp p) = int t - int (begin_timestamp p)" using True by auto
  have bb: "0 \<le> begin_balance p" "begin_balance p \<le> GRAPHENE_MAX_SHARE_SUPPLY"
    "0 \<le> amount b" "amount b \<le> GRAPHENE_MAX_SHARE_SUPPLY" "int (t - begin_timestamp p) \<le> max_uint32"
    using assms by (auto simp: linear_inv_def)
  have total: "linear_total_vested p (int t - int (begin_timestamp p)) = Inr (linear_vested p t)"
    unfolding e [symmetric] linear_total_vested_eq [OF bb(1,2) of_nat_0_le_iff bb(5)]
    using True by (simp add: linear_vested_def del: of_nat_diff)
  have abs: "\<bar>begin_balance p\<bar> \<le> GRAPHENE_MAX_SHARE_SUPPLY" "\<bar>amount b\<bar> \<le> GRAPHENE_MAX_SHARE_SUPPLY"
    "\<bar>linear_vested p t\<bar> \<le> GRAPHENE_MAX_SHARE_SUPPLY" "\<bar>begin_balance p - amount b\<bar> \<le> GRAPHENE_MAX_SHARE_SUPPLY"
    using bb linear_vested_range [OF bb(1), of t] by linarith+
  show ?thesis
    using True total
    by (auto simp: linear_get_allowed_withdraw_def Let_def safe_sub_supply [OF abs(1,2)]
        safe_sub_supply [OF abs(3,4)])
next
  case False
  then show ?thesis by (auto simp: linear_get_allowed_withdraw_def Let_def)
qed

lemma linear_withdraw_allowed:
  assumes "linear_inv p b t" "0 \<le> amount a" "linear_get_allowed_withdraw p (policy_ctx b t a) = Inr w"
    "amount a \<le> amount w"
  shows "linear_get_allowed_withdraw p (policy_ctx (asset_of (amount b - amount a) (asset_id b)) t c) =
    Inr (asset_of (amount w - amount a) (asset_id b))"
proof -
  have "linear_inv p (asset_of (amount b - amount a) (asset_id b)) t"
    using assms linear_vested_range [of p t]
    by (auto simp: linear_allowed [OF assms(1)] linear_inv_def split: if_splits)
  then show ?thesis
    using assms by (auto simp: linear_allowed split: if_splits intro!: asset_eqI)
qed

interpretation linear: vesting_contract linear_inv linear_get_allowed_withdraw linear_is_withdraw_allowed
  linear_on_withdraw linear_on_deposit
proof
  fix p b t t' a w c p'
  assume inv: "linear_inv p b t"
  have range: "0 \<le> linear_vested p t \<and> linear_vested p t \<le> begin_balance p"
    using inv linear_vested_range by (simp add: linear_inv_def)
  show "t \<le> t' \<Longrightarrow> int t' \<le> max_uint32 \<Longrightarrow> linear_inv p b t'"
    using inv linear_vested_mono [of p t t'] by (auto simp: linear_inv_def)
  show "\<exists>w. (\<forall>a. linear_get_allowed_withdraw p (policy_ctx b t a) = Inr (asset_of w (asset_id b))) \<and>
      0 \<le> w \<and> w \<le> amount b"
    using inv range by (auto simp: linear_allowed [OF inv] linear_inv_def)
  show "asset_id a = asset_id b \<Longrightarrow> linear_is_withdraw_allowed p (policy_ctx b t a) =
      bindE (linear_get_allowed_withdraw p (policy_ctx b t a)) (asset_le a)"
    by (simp add: linear_is_withdraw_allowed_def)
  show "asset_id a = asset_id b \<Longrightarrow> 0 \<le> amount a \<Longrightarrow> linear_get_allowed_withdraw p (policy_ctx b t a) = Inr w \<Longrightarrow>
      amount a \<le> amount w \<Longrightarrow> \<exists>p'. linear_on_withdraw p (policy_ctx b t a) = Inr p' \<and>
        linear_inv p' (asset_of (amount b - amount a) (asset_id b)) t"
    using inv range by (auto simp: linear_allowed [OF inv] linear_on_withdraw_def linear_inv_def split: if_splits)
  show "asset_id a = asset_id b \<Longrightarrow> 0 \<le> amount a \<Longrightarrow> linear_get_allowed_withdraw p (policy_ctx b t a) = Inr w \<Longrightarrow>
      amount a \<le> amount w \<Longrightarrow> linear_on_withdraw p (policy_ctx b t a) = Inr p' \<Longrightarrow>
      linear_get_allowed_withdraw p' (policy_ctx (asset_of (amount b - amount a) (asset_id b)) t c) =
        Inr (asset_of (amount w - amount a) (asset_id b))"
    using linear_withdraw_allowed [OF inv] by (simp add: linear_on_withdraw_def)
  show "asset_id a = asset_id b \<Longrightarrow> 0 \<le> amount a \<Longrightarrow> amount b + amount a \<le> GRAPHENE_MAX_SHARE_SUPPLY \<Longrightarrow>
      \<exists>p'. linear_on_deposit p (policy_ctx b t a) = Inr p' \<and>
        linear_inv p' (asset_of (amount b + amount a) (asset_id b)) t"
    using inv by (auto simp: linear_on_deposit_def linear_inv_def)
qed

subsection \<open>Coin-days vesting\<close>

lemma cdd_seconds_range: "int (vesting_seconds p) \<le> max_uint32 \<Longrightarrow> 1 \<le> cdd_seconds p \<and> cdd_seconds p \<le> max_uint32"
  by (auto simp: cdd_seconds_def max_uint32_def)

definition cdd_earned :: "cdd_vesting_policy \<Rightarrow> asset \<Rightarrow> nat \<Rightarrow> int" where
  "cdd_earned p b t = min (coin_seconds_earned p + amount b * (int t - int (coin_seconds_earned_last_update p)))
     (amount b * cdd_seconds p)"

lemma cdd_compute:
  assumes "cdd_inv p b t"
  shows "compute_coin_seconds_earned p (policy_ctx b t a) = cdd_earned p b t"
proof -
  let ?d = "int t - int (coin_seconds_earned_last_update p)"
  have b: "0 \<le> amount b" "amount b \<le> GRAPHENE_MAX_SHARE_SUPPLY" and d: "0 \<le> ?d" "?d \<le> max_uint32"
    and s: "0 \<le> cdd_seconds p" "cdd_seconds p \<le> max_uint32"
    and e: "0 \<le> coin_seconds_earned p" "coin_seconds_earned p \<le> amount b * cdd_seconds p"
    using assms cdd_seconds_range [of p] by (auto simp: cdd_inv_def)
  note bd = supply_times_seconds [OF b d] and bs = supply_times_seconds [OF b s]
  have "u128 ?d = ?d" using d by (intro u128_id) (auto simp: max_uint32_def)
  moreover have "u128 (amount b * ?d) = amount b * ?d" "u128 (amount b * cdd_seconds p) = amount b * cdd_seconds p"
    using bd bs by (auto intro!: u128_id)
  moreover have "u128 (coin_seconds_earned p + amount b * ?d) = coin_seconds_earned p + amount b * ?d"
    using bd bs e by (intro u128_id) auto
  ultimately show ?thesis
    by (simp add: compute_coin_seconds_earned_def cdd_earned_def Let_def u128_supply [OF b])
qed

lemma cdd_earned_range: "cdd_inv p b t \<Longrightarrow> 0 \<le> cdd_earned p b t \<and> cdd_earned p b t \<le> amount b * cdd_seconds p"
  by (auto simp: cdd_earned_def cdd_inv_def)

lemma cdd_earned_div:
  assumes "cdd_inv p b t"
  shows "0 \<le> cdd_earned p b t div cdd_seconds p" "cdd_earned p b t div cdd_seconds p \<le> amount b"
    "cdd_earned p b t div cdd_seconds p * cdd_seconds p \<le> cdd_earned p b t"
proof -
  have s: "0 < cdd_seconds p" by (simp add: cdd_seconds_def)
  note r = cdd_earned_range [OF assms]
  show "0 \<le> cdd_earned p b t div cdd_seconds p" using s r by (simp add: pos_imp_zdiv_nonneg_iff)
  have "cdd_earned p b t div cdd_seconds p \<le> amount b * cdd_seconds p div cdd_seconds p"
    using s r by (intro zdiv_mono1) auto
  then show "cdd_earned p b t div cdd_seconds p \<le> amount b" using s by simp
  show "cdd_earned p b t div cdd_seconds p * cdd_seconds p \<le> cdd_earned p b t"
    using s pos_mod_sign [OF s, of "cdd_earned p b t"] div_mult_mod_eq [of "cdd_earned p b t" "cdd_seconds p"]
    by linarith
qed

lemma cdd_allowed:
  assumes "cdd_inv p b t"
  shows "cdd_get_allowed_withdraw p (policy_ctx b t a) =
    Inr (asset_of (if t \<le> start_claim p then 0 else cdd_earned p b t div cdd_seconds p) (asset_id b))"
proof -
  have "cdd_earned p b t div cdd_seconds p \<le> GRAPHENE_MAX_SHARE_SUPPLY"
    using cdd_earned_div(2) [OF assms] assms by (simp add: cdd_inv_def)
  then show ?thesis
    using cdd_earned_div(1) [OF assms]
    by (simp add: cdd_get_allowed_withdraw_def cdd_compute [OF assms] to_share_small)
qed

lemma cdd_update_inv:
  assumes "cdd_inv p b t" "amount b \<le> amount b'" "amount b' \<le> GRAPHENE_MAX_SHARE_SUPPLY"
  shows "cdd_inv (update_coin_seconds_earned p (policy_ctx b t a)) b' t"
proof -
  have "amount b * cdd_seconds p \<le> amount b' * cdd_seconds p"
    using assms(2) by (intro mult_right_mono) (auto simp: cdd_seconds_def)
  then show ?thesis
    using assms cdd_earned_range [OF assms(1)]
    by (auto simp: update_coin_seconds_earned_def cdd_compute [OF assms(1)] cdd_inv_def cdd_seconds_def)
qed

lemma cdd_withdraw_inv:
  assumes "cdd_inv p b t" "0 \<le> amount a" "cdd_get_allowed_withdraw p (policy_ctx b t a) = Inr w"
    "amount a \<le> amount w"
  shows "\<exists>p'. cdd_on_withdraw p (policy_ctx b t a) = Inr p' \<and>
    cdd_inv p' (asset_of (amount b - amount a) (asset_id b)) t \<and>
    p' = p\<lparr>coin_seconds_earned := cdd_earned p b t - amount a * cdd_seconds p, coin_seconds_earned_last_update := t\<rparr>"
proof -
  let ?s = "cdd_seconds p" and ?e = "cdd_earned p b t"
  have a: "amount a \<le> ?e div ?s" using assms by (auto simp: cdd_allowed split: if_splits
        intro: order_trans [OF _ cdd_earned_div(1)])
  have s: "1 \<le> ?s" "?s \<le> max_uint32" using assms(1) cdd_seconds_range by (auto simp: cdd_inv_def)
  have need: "amount a * ?s \<le> ?e"
    using mult_right_mono [OF a, of ?s] s cdd_earned_div(3) [OF assms(1)] by linarith
  have b: "amount a \<le> amount b" using a cdd_earned_div(2) [OF assms(1)] by linarith
  have as: "amount a \<le> GRAPHENE_MAX_SHARE_SUPPLY" using b assms(1) by (simp add: cdd_inv_def)
  note pr = supply_times_seconds [OF assms(2) as _ s(2)] and r = cdd_earned_range [OF assms(1)]
  have bs: "amount b * ?s < 2 ^ 127"
    using assms(1) s by (intro supply_times_seconds) (auto simp: cdd_inv_def)
  let ?p = "update_coin_seconds_earned p (policy_ctx b t a)"
  have "u128 (u128 (amount a) * ?s) = amount a * ?s"
    unfolding u128_supply [OF assms(2) as] using pr s by (intro u128_id) auto
  moreover have "u128 (?e - amount a * ?s) = ?e - amount a * ?s"
    using need r bs pr s by (intro u128_id) auto
  ultimately have "cdd_on_withdraw p (policy_ctx b t a) = Inr (?p\<lparr>coin_seconds_earned := ?e - amount a * ?s\<rparr>)"
    by (simp add: cdd_on_withdraw_def Let_def update_coin_seconds_earned_def cdd_compute [OF assms(1)] cdd_seconds_def)
  moreover have "?e - amount a * ?s \<le> (amount b - amount a) * ?s" using r by (simp add: left_diff_distrib)
  then have "cdd_inv (?p\<lparr>coin_seconds_earned := ?e - amount a * ?s\<rparr>) (asset_of (amount b - amount a) (asset_id b)) t"
    using need b assms by (auto simp: update_coin_seconds_earned_def cdd_inv_def cdd_seconds_def)
  ultimately show ?thesis by (simp add: update_coin_seconds_earned_def)
qed

lemma cdd_withdraw_allowed:
  assumes "cdd_inv p b t" "0 \<le> amount a" "cdd_get_allowed_withdraw p (policy_ctx b t a) = Inr w"
    "amount a \<le> amount w" "cdd_on_withdraw p (policy_ctx b t a) = Inr p'"
  shows "cdd_get_allowed_withdraw p' (policy_ctx (asset_of (amount b - amount a) (asset_id b)) t c) =
    Inr (asset_of (amount w - amount a) (asset_id b))"
proof -
  let ?b = "asset_of (amount b - amount a) (asset_id b)"
  let ?q = "p\<lparr>coin_seconds_earned := cdd_earned p b t - amount a * cdd_seconds p, coin_seconds_earned_last_update := t\<rparr>"
  have p': "cdd_inv p' ?b t" "p' = ?q" using cdd_withdraw_inv [OF assms(1-4)] assms(5) by auto
  have s: "cdd_seconds ?q = cdd_seconds p" "0 < cdd_seconds p" by (simp_all add: cdd_seconds_def)
  have "cdd_earned ?q ?b t = cdd_earned p b t + - amount a * cdd_seconds p"
    using cdd_earned_range [OF assms(1)] s by (simp add: cdd_earned_def [of ?q] min_def left_diff_distrib)
  then have "cdd_earned ?q ?b t div cdd_seconds ?q = cdd_earned p b t div cdd_seconds p - amount a"
    using s div_mult_self1 [of "cdd_seconds p" "cdd_earned p b t" "- amount a"] by simp
  then show ?thesis
    unfolding cdd_allowed [OF p'(1)] unfolding p'(2)
    using assms(2-4) by (auto simp: cdd_allowed [OF assms(1)] split: if_splits)
qed

interpretation cdd: vesting_contract cdd_inv cdd_get_allowed_withdraw cdd_is_withdraw_allowed
  cdd_on_withdraw cdd_on_deposit
proof
  fix p b t t' a w c p'
  assume inv: "cdd_inv p b t"
  show "t \<le> t' \<Longrightarrow> int t' \<le> max_uint32 \<Longrightarrow> cdd_inv p b t'"
    using inv by (auto simp: cdd_inv_def)
  show "\<exists>w. (\<forall>a. cdd_get_allowed_withdraw p (policy_ctx b t a) = Inr (asset_of w (asset_id b))) \<and>
      0 \<le> w \<and> w \<le> amount b"
    using inv cdd_earned_div [OF inv] by (auto simp: cdd_allowed [OF inv] cdd_inv_def)
  show "asset_id a = asset_id b \<Longrightarrow> cdd_is_withdraw_allowed p (policy_ctx b t a) =
      bindE (cdd_get_allowed_withdraw p (policy_ctx b t a)) (asset_le a)"
    by (simp add: cdd_is_withdraw_allowed_def)
  show "asset_id a = asset_id b \<Longrightarrow> 0 \<le> amount a \<Longrightarrow> cdd_get_allowed_withdraw p (policy_ctx b t a) = Inr w \<Longrightarrow>
      amount a \<le> amount w \<Longrightarrow> \<exists>p'. cdd_on_withdraw p (policy_ctx b t a) = Inr p' \<and>
        cdd_inv p' (asset_of (amount b - amount a) (asset_id b)) t"
    using cdd_withdraw_inv [OF inv] by blast
  show "asset_id a = asset_id b \<Longrightarrow> 0 \<le> amount a \<Longrightarrow> cdd_get_allowed_withdraw p (policy_ctx b t a) = Inr w \<Longrightarrow>
      amount a \<le> amount w \<Longrightarrow> cdd_on_withdraw p (policy_ctx b t a) = Inr p' \<Longrightarrow>
      cdd_get_allowed_withdraw p' (policy_ctx (asset_of (amount b - amount a) (asset_id b)) t c) =
        Inr (asset_of (amount w - amount a) (asset_id b))"
    using cdd_withdraw_allowed [OF inv] by blast
  show "asset_id a = asset_id b \<Longrightarrow> 0 \<le> amount a \<Longrightarrow> amount b + amount a \<le> GRAPHENE_MAX_SHARE_SUPPLY \<Longrightarrow>
      \<exists>p'. cdd_on_deposit p (policy_ctx b t a) = Inr p' \<and>
        cdd_inv p' (asset_of (amount b + amount a) (asset_id b)) t"
    using cdd_update_inv [OF inv, of "asset_of (amount b + amount a) (asset_id b)" a] by (simp add: cdd_on_deposit_def)
qed

subsection \<open>The variant\<close>

interpretation variant: vesting_contract vesting_inv get_allowed_withdraw is_withdraw_allowed on_withdraw on_deposit
proof
  fix p b t t' a w c p'
  assume inv: "vesting_inv p b t"
  show "t \<le> t' \<Longrightarrow> int t' \<le> max_uint32 \<Longrightarrow> vesting_inv p b t'"
    using inv linear.inv_later cdd.inv_later by (cases p) auto
  show "\<exists>w. (\<forall>a. get_allowed_withdraw p (policy_ctx b t a) = Inr (asset_of w (asset_id b))) \<and> 0 \<le> w \<and> w \<le> amount b"
    using inv linear.allowed_range cdd.allowed_range by (cases p) auto
  show "asset_id a = asset_id b \<Longrightarrow> is_withdraw_allowed p (policy_ctx b t a) =
      bindE (get_allowed_withdraw p (policy_ctx b t a)) (asset_le a)"
    using inv linear.may_withdraw_allowed cdd.may_withdraw_allowed by (cases p) auto
  show "asset_id a = asset_id b \<Longrightarrow> 0 \<le> amount a \<Longrightarrow> get_allowed_withdraw p (policy_ctx b t a) = Inr w \<Longrightarrow>
      amount a \<le> amount w \<Longrightarrow> \<exists>p'. on_withdraw p (policy_ctx b t a) = Inr p' \<and>
        vesting_inv p' (asset_of (amount b - amount a) (asset_id b)) t"
    using inv linear.withdraw_inv cdd.withdraw_inv by (cases p) fastforce+
  show "asset_id a = asset_id b \<Longrightarrow> 0 \<le> amount a \<Longrightarrow> get_allowed_withdraw p (policy_ctx b t a) = Inr w \<Longrightarrow>
      amount a \<le> amount w \<Longrightarrow> on_withdraw p (policy_ctx b t a) = Inr p' \<Longrightarrow>
      get_allowed_withdraw p' (policy_ctx (asset_of (amount b - amount a) (asset_id b)) t c) =
        Inr (asset_of (amount w - amount a) (asset_id b))"
    using inv linear.withdraw_allowed cdd.withdraw_allowed by (cases p) fastforce+
  show "asset_id a = asset_id b \<Longrightarrow> 0 \<le> amount a \<Longrightarrow> amount b + amount a \<le> GRAPHENE_MAX_SHARE_SUPPLY \<Longrightarrow>
      \<exists>p'. on_deposit p (policy_ctx b t a) = Inr p' \<and> vesting_inv p' (asset_of (amount b + amount a) (asset_id b)) t"
    using inv linear.deposit_inv cdd.deposit_inv by (cases p) fastforce+
qed

section \<open>Vesting balances are never overdrawn\<close>

lemma vb_withdraw_step:
  assumes "vesting_inv (vb_policy v) (vb_balance v) t" "asset_id a = asset_id (vb_balance v)" "0 \<le> amount a"
    "vb_is_withdraw_allowed v t a = Inr True"
  shows "\<exists>v' w. vb_withdraw t a v = Inr v' \<and> vb_get_allowed_withdraw v t = Inr w \<and>
    amount a \<le> amount w \<and> amount w \<le> amount (vb_balance v) \<and>
    vb_balance v' = asset_of (amount (vb_balance v) - amount a) (asset_id a) \<and>
    vb_get_allowed_withdraw v' t = Inr (asset_of (amount w - amount a) (asset_id a)) \<and>
    vesting_inv (vb_policy v') (vb_balance v') t"
proof -
  from variant.withdraw_step [OF assms(1-3), of "asset_of 0 0"] assms(4) obtain p' w where
    p': "on_withdraw (vb_policy v) (policy_ctx (vb_balance v) t a) = Inr p'" "amount a \<le> amount w"
      "amount w \<le> amount (vb_balance v)"
      "get_allowed_withdraw (vb_policy v) (policy_ctx (vb_balance v) t a) = Inr w"
      "vesting_inv p' (asset_of (amount (vb_balance v) - amount a) (asset_id (vb_balance v))) t"
      "get_allowed_withdraw p' (policy_ctx (asset_of (amount (vb_balance v) - amount a) (asset_id (vb_balance v))) t
        (asset_of 0 0)) = Inr (asset_of (amount w - amount a) (asset_id (vb_balance v)))"
    by (auto simp: vb_is_withdraw_allowed_def)
  from variant.allowed_range [OF assms(1)] p'(4)
  have w: "vb_get_allowed_withdraw v t = Inr w" by (auto simp: vb_get_allowed_withdraw_def)
  have "vesting_inv (vb_policy v) (vb_balance v) t \<Longrightarrow> 0 \<le> amount (vb_balance v) \<and> amount (vb_balance v) \<le> GRAPHENE_MAX_SHARE_SUPPLY"
    by (cases "vb_policy v") (auto simp: linear_inv_def cdd_inv_def)
  then have "asset_sub (vb_balance v) a = Inr (asset_of (amount (vb_balance v) - amount a) (asset_id a))"
    using assms p'(2,3) by (simp add: asset_sub_def safe_sub_supply)
  with p' w assms(2) show ?thesis by (simp add: vb_withdraw_def vb_get_allowed_withdraw_def)
qed

text \<open>C22: a vesting balance is never overdrawn and vested funds are not paid twice. Under the invariant of
  its policy, at any later time, a withdrawal the policy allows succeeds, takes exactly its amount out of
  the balance, was at most the allowed amount and therefore at most the balance, lowers what is still
  allowed at that time by its amount, and leaves the invariant intact; this holds for linear vesting and
  for coin-days vesting.\<close>

theorem vesting_withdraw_sound:
  assumes "vesting_inv (vb_policy v) (vb_balance v) t0" "t0 \<le> t" "int t \<le> max_uint32"
    and "asset_id a = asset_id (vb_balance v)" "0 \<le> amount a" "vb_is_withdraw_allowed v t a = Inr True"
  shows "\<exists>v' w. vb_withdraw t a v = Inr v' \<and> vb_get_allowed_withdraw v t = Inr w \<and>
    amount a \<le> amount w \<and> amount w \<le> amount (vb_balance v) \<and>
    vb_balance v' = asset_of (amount (vb_balance v) - amount a) (asset_id a) \<and>
    vb_get_allowed_withdraw v' t = Inr (asset_of (amount w - amount a) (asset_id a)) \<and>
    vesting_inv (vb_policy v') (vb_balance v') t"
  using vb_withdraw_step [OF variant.inv_later [OF assms(1-3)] assms(4-6)] .

theorem vesting_withdraw_sound_witness:
  "\<exists>v' w. vb_withdraw 50 (asset_of 30 0)
      \<lparr>vb_id = 0, vb_owner = 7, vb_balance = asset_of 100 0, vb_create_time = 0, vb_update_time = 0,
       vb_policy = Cdd \<lparr>vesting_seconds = 100, coin_seconds_earned = 0, start_claim = 0,
         coin_seconds_earned_last_update = 0\<rparr>, vb_describe = None\<rparr> = Inr v' \<and>
    amount (vb_balance v') = 70 \<and> vb_get_allowed_withdraw v' 50 = Inr w \<and> amount w = 20"
  using vesting_withdraw_sound [of "\<lparr>vb_id = 0, vb_owner = 7, vb_balance = asset_of 100 0, vb_create_time = 0,
      vb_update_time = 0, vb_policy = Cdd \<lparr>vesting_seconds = 100, coin_seconds_earned = 0, start_claim = 0,
        coin_seconds_earned_last_update = 0\<rparr>, vb_describe = None\<rparr>" 0 50 "asset_of 30 0"]
  by (auto simp: cdd_inv_def cdd_seconds_def max_uint32_def chain_constants vb_is_withdraw_allowed_def
      cdd_is_withdraw_allowed_def cdd_get_allowed_withdraw_def compute_coin_seconds_earned_def u128_def to_share_def
      signed64_def asset_le_def asset_lt_def asset_of_def vb_get_allowed_withdraw_def policy_ctx_def)

end
