(* ===== verification/Chain_State.thy ===== *)
theory Chain_State
  imports Vesting_Policy "HOL-Library.Word"
begin

unbundle bit_operations_syntax

text \<open>
  The objects of the chain database that the evaluators read and write, each as a record with the fields
  of its class under \<open>chain/include/graphene/chain\<close>, and the database as one record of tables.

  Object ids are instance numbers: each table holds the objects of one space and type. Texts, memos,
  extensions and keys that no modelled operation reads are left out. Accounts keep the map of locked
  amounts (\<open>asset_locked.locked_total\<close>); a missing key reads as zero, as \<open>operator[]\<close> of a map
  does.

  The last part defines what the supply checks of the test fixture (\<open>verify_asset_supplies\<close>) compute:
  \<open>holdings a s\<close>, all amounts of asset \<open>a\<close> the database holds anywhere, and \<open>imbalance a s\<close>,
  their difference to the recorded supply. The relation \<open>flow\<close> says how an operation changes it.
\<close>

section \<open>Accounts\<close>

record account_statistics_object =
  st_id :: nat
  st_owner :: nat
  total_core_in_orders :: share_type

record account_balance_object =
  ab_id :: nat
  ab_owner :: nat
  ab_asset_type :: nat
  ab_balance :: share_type

record account_object =
  acc_id :: nat
  acc_name :: string
  acc_statistics :: nat
  acc_locked_total :: "nat \<rightharpoonup> share_type"
  acc_active_accounts :: "nat list"
  cashback_gas :: "nat option"
  cashback_vb :: "nat option"

section \<open>Assets\<close>

definition charge_market_fee :: "16 word" where "charge_market_fee = 0x01"
definition white_list :: "16 word" where "white_list = 0x02"
definition override_authority :: "16 word" where "override_authority = 0x04"
definition transfer_restricted :: "16 word" where "transfer_restricted = 0x08"
definition disable_force_settle :: "16 word" where "disable_force_settle = 0x10"
definition global_settle :: "16 word" where "global_settle = 0x20"
definition disable_issuer :: "16 word" where "disable_issuer = 0x40"
definition witness_fed_asset :: "16 word" where "witness_fed_asset = 0x80"
definition committee_fed_asset :: "16 word" where "committee_fed_asset = 0x100"

definition ASSET_ISSUER_PERMISSION_MASK :: "16 word" where
  "ASSET_ISSUER_PERMISSION_MASK = charge_market_fee OR white_list OR override_authority OR transfer_restricted
     OR disable_force_settle OR global_settle OR disable_issuer OR witness_fed_asset OR committee_fed_asset"

lemmas permission_flags = charge_market_fee_def white_list_def override_authority_def transfer_restricted_def
  disable_force_settle_def global_settle_def disable_issuer_def witness_fed_asset_def committee_fed_asset_def

definition has_flag :: "16 word \<Rightarrow> 16 word \<Rightarrow> bool" where
  "has_flag fl m \<longleftrightarrow> fl AND m \<noteq> 0"

record asset_options =
  max_supply :: share_type
  market_fee_percent :: int
  max_market_fee :: share_type
  issuer_permissions :: "16 word"
  flags :: "16 word"
  core_exchange_rate :: "price option"

record bitasset_options =
  feed_lifetime_sec :: nat
  minimum_feeds :: nat
  force_settlement_delay_sec :: nat
  force_settlement_offset_percent :: int
  maximum_force_settlement_volume :: int
  short_backing_asset :: nat

record asset_dynamic_data_object =
  dyn_id :: nat
  current_supply :: share_type
  accumulated_fees :: share_type

record asset_object =
  as_id :: nat
  as_symbol :: string
  as_precision :: nat
  as_issuer :: nat
  as_options :: asset_options
  dynamic_asset_data_id :: nat
  bitasset_data_id :: "nat option"

record asset_bitasset_data_object =
  bit_id :: nat
  bit_options :: bitasset_options
  feeds :: "(nat \<times> nat \<times> price_feed) list"
  current_feed :: price_feed
  current_feed_publication_time :: nat
  force_settled_volume :: share_type
  settlement_price :: price
  settlement_fund :: share_type

datatype restricted_enum = All_restricted | Whitelist_authorities | Blacklist_authorities
  | Whitelist_markets | Blacklist_markets

datatype restricted_ref = Account_ref nat | Asset_ref nat | Other_ref nat

record asset_restricted_object =
  rs_id :: nat
  rs_type :: restricted_enum
  rs_asset :: nat
  rs_restricted_id :: restricted_ref

definition is_market_issued :: "asset_object \<Rightarrow> bool" where
  "is_market_issued a = (bitasset_data_id a \<noteq> None)"

definition can_force_settle :: "asset_object \<Rightarrow> bool" where
  "can_force_settle a = (\<not> has_flag (flags (as_options a)) disable_force_settle)"

definition can_global_settle :: "asset_object \<Rightarrow> bool" where
  "can_global_settle a = has_flag (issuer_permissions (as_options a)) global_settle"

definition charges_market_fees :: "asset_object \<Rightarrow> bool" where
  "charges_market_fees a = has_flag (flags (as_options a)) charge_market_fee"

definition is_transfer_restricted :: "asset_object \<Rightarrow> bool" where
  "is_transfer_restricted a = has_flag (flags (as_options a)) transfer_restricted"

definition is_white_list :: "asset_object \<Rightarrow> bool" where
  "is_white_list a = has_flag (flags (as_options a)) white_list"

definition can_override :: "asset_object \<Rightarrow> bool" where
  "can_override a = has_flag (flags (as_options a)) override_authority"

definition has_settlement :: "asset_bitasset_data_object \<Rightarrow> bool" where
  "has_settlement b = (\<not> price_is_null (settlement_price b))"

section \<open>Orders\<close>

record limit_order_object =
  lo_id :: nat
  lo_expiration :: nat
  lo_seller :: nat
  for_sale :: share_type
  sell_price :: price
  deferred_fee :: "share_type option"

record call_order_object =
  co_id :: nat
  borrower :: nat
  collateral :: share_type
  debt :: share_type
  co_call_price :: price

record force_settlement_object =
  fs_id :: nat
  fs_owner :: nat
  fs_balance :: asset
  settlement_date :: nat

record collateral_bid_object =
  cb_id :: nat
  bidder :: nat
  inv_swan_price :: price

record collateral_for_gas_object =
  cg_id :: nat
  mortgager :: nat
  beneficiary :: nat
  cg_collateral :: share_type
  cg_debt :: share_type

definition amount_for_sale :: "limit_order_object \<Rightarrow> asset" where
  "amount_for_sale ord = asset_of (for_sale ord) (asset_id (base (sell_price ord)))"

definition amount_to_receive :: "limit_order_object \<Rightarrow> asset result" where
  "amount_to_receive ord = asset_times_price (amount_for_sale ord) (sell_price ord)"

definition get_collateral :: "call_order_object \<Rightarrow> asset" where
  "get_collateral c = asset_of (collateral c) (asset_id (base (co_call_price c)))"

definition debt_type :: "call_order_object \<Rightarrow> nat" where
  "debt_type c = asset_id (quote (co_call_price c))"

definition get_debt :: "call_order_object \<Rightarrow> asset" where
  "get_debt c = asset_of (debt c) (debt_type c)"

definition collateralization :: "call_order_object \<Rightarrow> price result" where
  "collateralization c = price_div (get_collateral c) (get_debt c)"

section \<open>The database\<close>

record chain_parameters =
  block_interval :: nat
  cashback_gas_period_seconds :: nat
  cashback_vb_period_seconds :: nat
  maximum_asset_feed_publishers :: nat

record database =
  accounts :: "account_object table"
  statistics :: "account_statistics_object table"
  balances :: "account_balance_object table"
  assets :: "asset_object table"
  dyn_data :: "asset_dynamic_data_object table"
  bitassets :: "asset_bitasset_data_object table"
  restricteds :: "asset_restricted_object table"
  limit_orders :: "limit_order_object table"
  call_orders :: "call_order_object table"
  settlements :: "force_settlement_object table"
  bids :: "collateral_bid_object table"
  vestings :: "vesting_balance_object table"
  gas_collaterals :: "collateral_for_gas_object table"
  parameters :: chain_parameters
  head_block_time :: nat

definition get_account :: "database \<Rightarrow> nat \<Rightarrow> account_object result" where
  "get_account s i = tget acc_id i (accounts s)"

definition get_statistics :: "database \<Rightarrow> account_object \<Rightarrow> account_statistics_object result" where
  "get_statistics s a = tget st_id (acc_statistics a) (statistics s)"

definition get_asset :: "database \<Rightarrow> nat \<Rightarrow> asset_object result" where
  "get_asset s i = tget as_id i (assets s)"

definition dynamic_data :: "database \<Rightarrow> asset_object \<Rightarrow> asset_dynamic_data_object result" where
  "dynamic_data s a = tget dyn_id (dynamic_asset_data_id a) (dyn_data s)"

definition bitasset_data :: "database \<Rightarrow> asset_object \<Rightarrow> asset_bitasset_data_object result" where
  "bitasset_data s a = (case bitasset_data_id a of
     None \<Rightarrow> Inl Assert_exception
   | Some i \<Rightarrow> tget bit_id i (bitassets s))"

section \<open>What the database holds of an asset\<close>

definition amt :: "nat \<Rightarrow> asset \<Rightarrow> int" where
  "amt a x = (if asset_id x = a then amount x else 0)"

definition held_balances :: "nat \<Rightarrow> account_balance_object table \<Rightarrow> int" where
  "held_balances a = tsum (\<lambda>b. if ab_asset_type b = a then ab_balance b else 0)"

definition held_limit :: "nat \<Rightarrow> limit_order_object table \<Rightarrow> int" where
  "held_limit a = tsum (\<lambda>ord. amt a (amount_for_sale ord))"

definition held_call :: "nat \<Rightarrow> call_order_object table \<Rightarrow> int" where
  "held_call a = tsum (\<lambda>c. amt a (get_collateral c))"

definition held_settle :: "nat \<Rightarrow> force_settlement_object table \<Rightarrow> int" where
  "held_settle a = tsum (\<lambda>f. amt a (fs_balance f))"

definition held_bids :: "nat \<Rightarrow> collateral_bid_object table \<Rightarrow> int" where
  "held_bids a = tsum (\<lambda>b. amt a (base (inv_swan_price b)))"

definition held_vesting :: "nat \<Rightarrow> vesting_balance_object table \<Rightarrow> int" where
  "held_vesting a = tsum (\<lambda>v. amt a (vb_balance v))"

definition held_gas :: "nat \<Rightarrow> collateral_for_gas_object table \<Rightarrow> int" where
  "held_gas a = tsum (\<lambda>g. if a = core_asset then cg_collateral g else 0)"

definition held_funds :: "nat \<Rightarrow> asset_bitasset_data_object table \<Rightarrow> int" where
  "held_funds a = tsum (\<lambda>b. if short_backing_asset (bit_options b) = a then settlement_fund b else 0)"

definition dyn_of :: "nat \<Rightarrow> asset_object table \<Rightarrow> asset_dynamic_data_object table \<Rightarrow> asset_dynamic_data_object option" where
  "dyn_of a as ds = (case tfind as_id a as of None \<Rightarrow> None | Some ao \<Rightarrow> tfind dyn_id (dynamic_asset_data_id ao) ds)"

text \<open>The fees an asset has accumulated, minus its recorded supply.\<close>

definition dyn_net :: "nat \<Rightarrow> asset_object table \<Rightarrow> asset_dynamic_data_object table \<Rightarrow> int" where
  "dyn_net a as ds = (case dyn_of a as ds of None \<Rightarrow> 0 | Some d \<Rightarrow> accumulated_fees d - current_supply d)"

definition imbalance :: "nat \<Rightarrow> database \<Rightarrow> int" where
  "imbalance a s = held_balances a (balances s) + held_limit a (limit_orders s) + held_call a (call_orders s) +
     held_settle a (settlements s) + held_bids a (bids s) + held_vesting a (vestings s) +
     held_gas a (gas_collaterals s) + held_funds a (bitassets s) + dyn_net a (assets s) (dyn_data s)"

definition deferred :: "limit_order_object table \<Rightarrow> int" where
  "deferred = tsum (\<lambda>ord. case deferred_fee ord of None \<Rightarrow> 0 | Some f \<Rightarrow> f)"

section \<open>Well-formed databases\<close>

definition dyn_wf :: "asset_object table \<Rightarrow> asset_dynamic_data_object table \<Rightarrow> bool" where
  "dyn_wf as ds \<longleftrightarrow> table_wf as_id as \<and> table_wf dyn_id ds \<and>
     inj_on dynamic_asset_data_id (set (rows as)) \<and>
     (\<forall>ao \<in> set (rows as). tfind dyn_id (dynamic_asset_data_id ao) ds \<noteq> None)"

definition limit_order_ok :: "limit_order_object \<Rightarrow> bool" where
  "limit_order_ok ord \<longleftrightarrow> 0 \<le> for_sale ord \<and> for_sale ord \<le> int64_max \<and>
     in_int64 (amount (base (sell_price ord))) \<and> in_int64 (amount (quote (sell_price ord))) \<and>
     (\<forall>f. deferred_fee ord = Some f \<longrightarrow> 0 \<le> f)"

definition limit_wf :: "limit_order_object table \<Rightarrow> bool" where
  "limit_wf t \<longleftrightarrow> table_wf lo_id t \<and> (\<forall>ord \<in> set (rows t). limit_order_ok ord)"

text \<open>The market fee options every asset has been validated for.\<close>

definition fee_options_ok :: "asset_options \<Rightarrow> bool" where
  "fee_options_ok opts \<longleftrightarrow> 0 \<le> market_fee_percent opts \<and> market_fee_percent opts \<le> GRAPHENE_100_PERCENT \<and>
     0 \<le> max_market_fee opts"

text \<open>A bitasset that has not been settled holds no settlement fund.\<close>

definition bit_wf :: "asset_bitasset_data_object table \<Rightarrow> bool" where
  "bit_wf t \<longleftrightarrow> table_wf bit_id t \<and> (\<forall>b \<in> set (rows t). \<not> has_settlement b \<longrightarrow> settlement_fund b = 0)"

text \<open>The feeds of a market-issued asset, unless null, are prices of that asset, and a settlement price is one against the backing
  asset.\<close>

definition bitasset_ok :: "nat \<Rightarrow> asset_bitasset_data_object \<Rightarrow> bool" where
  "bitasset_ok i b \<longleftrightarrow> price_feed_is_for (current_feed b) i \<and> (\<forall>f \<in> set (feeds b). price_feed_is_for (snd (snd f)) i) \<and>
     (has_settlement b \<longrightarrow> asset_id (base (settlement_price b)) = i \<and> asset_id (quote (settlement_price b)) = short_backing_asset (bit_options b))"

text \<open>Every market-issued asset has a bitasset object of its own.\<close>

definition feed_wf :: "asset_object table \<Rightarrow> asset_bitasset_data_object table \<Rightarrow> bool" where
  "feed_wf as bs \<longleftrightarrow> distinct (List.map_filter bitasset_data_id (rows as)) \<and>
     (\<forall>ao \<in> set (rows as). case bitasset_data_id ao of None \<Rightarrow> True | Some i \<Rightarrow>
       (case tfind bit_id i bs of None \<Rightarrow> False | Some b \<Rightarrow> bitasset_ok (as_id ao) b))"

definition db_wf :: "database \<Rightarrow> bool" where
  "db_wf s \<longleftrightarrow> table_wf acc_id (accounts s) \<and> table_wf st_id (statistics s) \<and> table_wf ab_id (balances s) \<and>
     dyn_wf (assets s) (dyn_data s) \<and> (\<forall>ao \<in> set (rows (assets s)). fee_options_ok (as_options ao)) \<and> bit_wf (bitassets s) \<and>
     feed_wf (assets s) (bitassets s) \<and> limit_wf (limit_orders s) \<and>
     table_wf co_id (call_orders s) \<and> table_wf fs_id (settlements s) \<and> table_wf cb_id (bids s) \<and>
     table_wf vb_id (vestings s) \<and> table_wf cg_id (gas_collaterals s)"

section \<open>Flows\<close>

text \<open>\<open>flow dt s s'\<close>: from \<open>s\<close> to \<open>s'\<close> the imbalance of each asset grew by \<open>dt\<close>, except that
  core may in addition have been created, at most as much as the deferred fees of limit orders that are
  gone.\<close>

definition flow :: "(nat \<Rightarrow> int) \<Rightarrow> database \<Rightarrow> database \<Rightarrow> bool" where
  "flow dt s s' \<longleftrightarrow> (\<forall>a. a \<noteq> core_asset \<longrightarrow> imbalance a s' = imbalance a s + dt a) \<and>
     imbalance core_asset s + dt core_asset \<le> imbalance core_asset s' \<and>
     imbalance core_asset s' \<le>
       imbalance core_asset s + dt core_asset + (deferred (limit_orders s) - deferred (limit_orders s'))"

definition no_flow :: "nat \<Rightarrow> int" where
  "no_flow a = 0"

definition asset_flow :: "asset \<Rightarrow> asset \<Rightarrow> nat \<Rightarrow> int" where
  "asset_flow receives pays a = amt a receives - amt a pays"

lemma flow_refl: "flow no_flow s s"
  by (simp add: flow_def no_flow_def)

lemma flow_trans: "flow d1 s s1 \<Longrightarrow> flow d2 s1 s2 \<Longrightarrow> (\<And>a. d a = d1 a + d2 a) \<Longrightarrow> flow d s s2"
  unfolding flow_def by force

lemma flow_eqI:
  "(\<And>a. imbalance a s' = imbalance a s + d a) \<Longrightarrow> deferred (limit_orders s') \<le> deferred (limit_orders s) \<Longrightarrow> flow d s s'"
  by (simp add: flow_def)

lemma amt_simps [simp]:
  "amt a (asset_of v i) = (if i = a then v else 0)"
  by (simp add: amt_def)

subsection \<open>One table at a time\<close>

lemma imbalance_frame [chain_frame]:
  "imbalance a (s\<lparr>accounts := ac\<rparr>) = imbalance a s"
  "imbalance a (s\<lparr>statistics := st\<rparr>) = imbalance a s"
  "imbalance a (s\<lparr>restricteds := rs\<rparr>) = imbalance a s"
  "imbalance a (s\<lparr>parameters := pa\<rparr>) = imbalance a s"
  "imbalance a (s\<lparr>head_block_time := tm\<rparr>) = imbalance a s"
  "imbalance a (s\<lparr>balances := ba\<rparr>) = imbalance a s - held_balances a (balances s) + held_balances a ba"
  "imbalance a (s\<lparr>limit_orders := li\<rparr>) = imbalance a s - held_limit a (limit_orders s) + held_limit a li"
  "imbalance a (s\<lparr>call_orders := ca\<rparr>) = imbalance a s - held_call a (call_orders s) + held_call a ca"
  "imbalance a (s\<lparr>settlements := se\<rparr>) = imbalance a s - held_settle a (settlements s) + held_settle a se"
  "imbalance a (s\<lparr>bids := bi\<rparr>) = imbalance a s - held_bids a (bids s) + held_bids a bi"
  "imbalance a (s\<lparr>vestings := ve\<rparr>) = imbalance a s - held_vesting a (vestings s) + held_vesting a ve"
  "imbalance a (s\<lparr>gas_collaterals := ga\<rparr>) = imbalance a s - held_gas a (gas_collaterals s) + held_gas a ga"
  "imbalance a (s\<lparr>bitassets := bt\<rparr>) = imbalance a s - held_funds a (bitassets s) + held_funds a bt"
  "imbalance a (s\<lparr>dyn_data := dy\<rparr>) = imbalance a s - dyn_net a (assets s) (dyn_data s) + dyn_net a (assets s) dy"
  by (simp_all add: imbalance_def)

lemmas held_defs = held_balances_def held_limit_def held_call_def held_settle_def held_bids_def
  held_vesting_def held_gas_def held_funds_def

lemma limit_wf_create:
  "limit_wf t \<Longrightarrow> lo_id (mk (next_id t)) = next_id t \<Longrightarrow> limit_order_ok (mk (next_id t)) \<Longrightarrow> limit_wf (tcreate mk t)"
  by (auto simp: limit_wf_def table_wf_create) (auto simp: tcreate_def)

lemma limit_wf_modify:
  assumes "limit_wf t" "\<And>r. lo_id (f r) = lo_id r" "\<And>r. tfind lo_id i t = Some r \<Longrightarrow> limit_order_ok (f r)"
  shows "limit_wf (tmodify lo_id i f t)"
proof -
  have wf: "table_wf lo_id t" using assms(1) by (simp add: limit_wf_def)
  have "limit_order_ok (f r)" if "r \<in> set (rows t)" "lo_id r = i" for r
    using assms(3) tfind_Some_iff [OF wf] that by blast
  then show ?thesis
    using assms(1,2) by (auto simp: limit_wf_def table_wf_modify) (auto simp: tmodify_def)
qed

lemma limit_wf_remove: "limit_wf t \<Longrightarrow> limit_wf (tremove lo_id i t)"
  by (auto simp: limit_wf_def table_wf_remove) (auto simp: tremove_def)

subsection \<open>Supplies and fees\<close>

lemma dyn_of_modify:
  assumes "dyn_wf as ds" "tfind as_id i as = Some ao" "tfind dyn_id (dynamic_asset_data_id ao) ds = Some d"
    and "\<And>r. dyn_id (f r) = dyn_id r"
  shows "dyn_of a as (tmodify dyn_id (dynamic_asset_data_id ao) f ds) = (if a = i then Some (f d) else dyn_of a as ds)"
proof -
  have "dynamic_asset_data_id bo \<noteq> dynamic_asset_data_id ao" if "tfind as_id a as = Some bo" "a \<noteq> i" for bo
    using that assms(1,2) by (auto simp: dyn_wf_def inj_on_def dest: tfind_SomeD)
  then show ?thesis
    using assms by (auto simp: dyn_of_def tfind_modify split: option.splits)
qed

lemma distinct_map_filter: "distinct (List.map_filter f xs) \<Longrightarrow> x \<in> set xs \<Longrightarrow> y \<in> set xs \<Longrightarrow> f x = Some i \<Longrightarrow> f y = Some i \<Longrightarrow> x = y"
proof (induction xs)
  case (Cons z xs)
  have "i \<in> set (List.map_filter f xs)" if "w \<in> set xs" "f w = Some i" for w using that by (force simp: List.map_filter_def)
  with Cons show ?case by (auto simp: List.map_filter_simps split: option.splits)
qed simp

lemma feed_wfD:
  assumes "feed_wf as bs" "tfind as_id i as = Some ao" "bitasset_data_id ao = Some j"
  obtains b where "tfind bit_id j bs = Some b" "bitasset_ok i b"
proof -
  have ao: "ao \<in> set (rows as)" "as_id ao = i" using tfind_SomeD [OF assms(2)] by simp_all
  from assms(1) ao(1) have "case bitasset_data_id ao of None \<Rightarrow> True | Some i \<Rightarrow>
       (case tfind bit_id i bs of None \<Rightarrow> False | Some b \<Rightarrow> bitasset_ok (as_id ao) b)" unfolding feed_wf_def by blast
  with assms(3) ao(2) that show ?thesis by (auto split: option.splits)
qed

lemma feed_wf_modify:
  assumes "feed_wf as bs" "\<And>b. bit_id (f b) = bit_id b" "\<And>k b. bitasset_ok k b \<Longrightarrow> bitasset_ok k (f b)"
  shows "feed_wf as (tmodify bit_id i f bs)"
proof -
  have "case bitasset_data_id co of None \<Rightarrow> True | Some j \<Rightarrow>
      (case tfind bit_id j (tmodify bit_id i f bs) of None \<Rightarrow> False | Some b \<Rightarrow> bitasset_ok (as_id co) b)" if co: "co \<in> set (rows as)" for co
  proof (cases "bitasset_data_id co")
    case (Some j)
    from assms(1) co have "case bitasset_data_id co of None \<Rightarrow> True | Some j \<Rightarrow>
      (case tfind bit_id j bs of None \<Rightarrow> False | Some b \<Rightarrow> bitasset_ok (as_id co) b)" unfolding feed_wf_def by blast
    with Some obtain b where b: "tfind bit_id j bs = Some b" "bitasset_ok (as_id co) b" by (auto split: option.splits)
    then show ?thesis using Some assms(3) [OF b(2)] assms(2) by (cases "j = i") (simp_all add: tfind_modify)
  qed simp
  then show ?thesis using assms(1) unfolding feed_wf_def by blast
qed

lemma feed_wf_modify_at:
  assumes wf: "feed_wf as bs" and ao: "tfind as_id k as = Some ao" "bitasset_data_id ao = Some i" "tfind bit_id i bs = Some b"
    and f: "\<And>b. bit_id (f b) = bit_id b" "bitasset_ok k (f b)"
  shows "feed_wf as (tmodify bit_id i f bs)"
proof -
  have ao': "ao \<in> set (rows as)" "as_id ao = k" using tfind_SomeD [OF ao(1)] by simp_all
  have "case bitasset_data_id co of None \<Rightarrow> True | Some j \<Rightarrow>
      (case tfind bit_id j (tmodify bit_id i f bs) of None \<Rightarrow> False | Some b \<Rightarrow> bitasset_ok (as_id co) b)" if co: "co \<in> set (rows as)" for co
  proof (cases "bitasset_data_id co = Some i")
    case True
    have "distinct (List.map_filter bitasset_data_id (rows as))" using wf unfolding feed_wf_def by blast
    from distinct_map_filter [OF this co ao'(1) True ao(2)] have "co = ao" .
    then show ?thesis using ao(2,3) ao' f by (simp add: tfind_modify)
  next
    case False
    from wf co have "case bitasset_data_id co of None \<Rightarrow> True | Some j \<Rightarrow>
      (case tfind bit_id j bs of None \<Rightarrow> False | Some b \<Rightarrow> bitasset_ok (as_id co) b)" unfolding feed_wf_def by blast
    with False f(1) show ?thesis by (cases "bitasset_data_id co") (auto simp: tfind_modify split: option.splits)
  qed
  then show ?thesis using wf unfolding feed_wf_def by blast
qed

lemma dyn_wf_modify:
  assumes "dyn_wf as ds" "\<And>r. dyn_id (f r) = dyn_id r"
  shows "dyn_wf as (tmodify dyn_id i f ds)"
  using assms by (auto simp: dyn_wf_def table_wf_modify tfind_modify)

end
