(* ===== verification/Balances.thy ===== *)
theory Balances
  imports Chain_State
begin

text \<open>
  Account balances, deposits into vesting balances, fees and transfers: \<open>chain/db_balance.cpp\<close>, the fee
  functions of \<open>chain/account_object.cpp\<close> and \<open>chain/evaluator.cpp\<close>,
  \<open>chain/is_authorized_asset.cpp\<close>, \<open>chain/transfer_evaluator.cpp\<close> and
  \<open>chain/protocol/transfer.cpp\<close>.

  An error raised while a message is formatted is identified with the failed assertion. The
  floating-point conversion of a core fee to GAS is a parameter.
\<close>

section \<open>Balances\<close>

definition find_balance :: "database \<Rightarrow> nat \<Rightarrow> nat \<Rightarrow> account_balance_object option" where
  "find_balance s owner a = List.find (\<lambda>b. ab_owner b = owner \<and> ab_asset_type b = a) (rows (balances s))"

definition ab_get_balance :: "account_balance_object \<Rightarrow> asset" where
  "ab_get_balance b = asset_of (ab_balance b) (ab_asset_type b)"

definition get_balance :: "database \<Rightarrow> nat \<Rightarrow> nat \<Rightarrow> asset" where
  "get_balance s owner a = (case find_balance s owner a of None \<Rightarrow> asset_of 0 a | Some b \<Rightarrow> ab_get_balance b)"

definition locked_of :: "account_object \<Rightarrow> nat \<Rightarrow> share_type" where
  "locked_of ao a = (case acc_locked_total ao a of None \<Rightarrow> 0 | Some l \<Rightarrow> l)"

definition assert_balance :: "account_object \<Rightarrow> asset \<Rightarrow> database \<Rightarrow> unit result" where
  "assert_balance ao target s =
     (let bal = amount (get_balance s (acc_id ao) (asset_id target)); locked = locked_of ao (asset_id target) in
      if \<not> (locked \<ge> 0 \<and> locked \<le> bal) then Inl Assert_exception else Inr ())"

text \<open>The checks of a debit: enough funds, and what remains covers the locked amount.\<close>

definition check_debit :: "nat \<Rightarrow> asset \<Rightarrow> account_balance_object \<Rightarrow> database \<Rightarrow> unit result" where
  "check_debit account delta b s =
     bindE (asset_neg delta) (\<lambda>required.
     bindE (asset_ge (ab_get_balance b) required) (\<lambda>enough.
     if \<not> enough then Inl Assert_exception
     else bindE (get_account s account) (\<lambda>account_ob.
     let locked = locked_of account_ob (asset_id delta) in
     if \<not> locked \<ge> 0 then Inl Assert_exception
     else bindE (asset_add (ab_get_balance b) delta) (\<lambda>remaining.
     bindE (asset_ge remaining (asset_of locked (asset_id delta))) (\<lambda>unlocked.
     if \<not> unlocked then Inl Assert_exception else Inr ())))))"

definition adjust_balance_gas :: "bool \<Rightarrow> nat \<Rightarrow> asset \<Rightarrow> database \<Rightarrow> database result" where
  "adjust_balance_gas allow_gas_negative account delta s =
     (if amount delta = 0 then Inr s
      else case find_balance s account (asset_id delta) of
        None \<Rightarrow>
          if \<not> amount delta > 0 then Inl Assert_exception
          else Inr (s\<lparr>balances := tcreate (\<lambda>i. \<lparr>ab_id = i, ab_owner = account, ab_asset_type = asset_id delta,
                                  ab_balance = amount delta\<rparr>) (balances s)\<rparr>)
      | Some b \<Rightarrow>
          bindE (if amount delta < 0 \<and> \<not> (allow_gas_negative \<and> asset_id delta = GRAPHENE_ASSET_GAS)
                 then check_debit account delta b s else Inr ()) (\<lambda>_.
          bindE (safe_add (ab_balance b) (amount delta)) (\<lambda>v.
          Inr (s\<lparr>balances := tmodify ab_id (ab_id b) (\<lambda>r. r\<lparr>ab_balance := v\<rparr>) (balances s)\<rparr>))))"

definition adjust_balance :: "nat \<Rightarrow> asset \<Rightarrow> database \<Rightarrow> database result" where
  "adjust_balance account delta s = adjust_balance_gas False account delta s"

text \<open>\<open>adjust_balance(account, -a)\<close>\<close>

definition debit_balance :: "nat \<Rightarrow> asset \<Rightarrow> database \<Rightarrow> database result" where
  "debit_balance account a s = bindE (asset_neg a) (\<lambda>d. adjust_balance account d s)"

section \<open>Deposits into vesting balances\<close>

definition lazy_vesting_reusable :: "vesting_balance_object \<Rightarrow> nat \<Rightarrow> nat \<Rightarrow> string \<Rightarrow> bool" where
  "lazy_vesting_reusable v req_vesting_seconds req_owner describe \<longleftrightarrow>
     vb_owner v = req_owner \<and>
     (case vb_policy v of Cdd p \<Rightarrow> vesting_seconds p = req_vesting_seconds | Linear _ \<Rightarrow> False) \<and>
     vb_describe v = Some describe"

definition deposit_lazy_vesting ::
  "nat option \<Rightarrow> asset \<Rightarrow> nat \<Rightarrow> nat \<Rightarrow> string \<Rightarrow> bool \<Rightarrow> database \<Rightarrow> (database \<times> nat option) result" where
  "deposit_lazy_vesting ovbid a req_vesting_seconds req_owner describe require_vesting s =
     (if amount a = 0 then Inr (s, None)
      else
        let now = head_block_time s;
            make = (bindE (if require_vesting then Inr 0 else int64_mul (amount a) (int req_vesting_seconds)) (\<lambda>earned.
              Inr (s\<lparr>vestings := tcreate (\<lambda>i. \<lparr>vb_id = i, vb_owner = req_owner, vb_balance = a, vb_create_time = now,
                     vb_update_time = 0, vb_policy = Cdd \<lparr>vesting_seconds = req_vesting_seconds,
                       coin_seconds_earned = u128 earned, start_claim = 0, coin_seconds_earned_last_update = now\<rparr>,
                     vb_describe = Some describe\<rparr>) (vestings s)\<rparr>, Some (next_id (vestings s)))))
        in case ovbid of
          None \<Rightarrow> make
        | Some i \<Rightarrow>
            bindE (tget vb_id i (vestings s)) (\<lambda>v.
            if lazy_vesting_reusable v req_vesting_seconds req_owner describe
            then bindE (if require_vesting then vb_deposit now a v else vb_deposit_vested now a v) (\<lambda>v'.
              Inr (s\<lparr>vestings := tmodify vb_id i (\<lambda>_. v') (vestings s)\<rparr>, None))
            else make))"

definition deposit_cashback :: "account_object \<Rightarrow> asset \<Rightarrow> string \<Rightarrow> bool \<Rightarrow> database \<Rightarrow> database result" where
  "deposit_cashback acct a describe require_vesting s =
     (if amount a = 0 then Inr s
      else bindE (deposit_lazy_vesting (cashback_gas acct) a (cashback_gas_period_seconds (parameters s))
        (acc_id acct) describe require_vesting s) (\<lambda>(s', new_vbid).
        case new_vbid of
          None \<Rightarrow> Inr s'
        | Some i \<Rightarrow> Inr (s'\<lparr>accounts := tmodify acc_id (acc_id acct) (\<lambda>r. r\<lparr>cashback_gas := Some i\<rparr>) (accounts s')\<rparr>)))"

section \<open>Fees\<close>

definition cut_fee :: "share_type \<Rightarrow> int \<Rightarrow> share_type result" where
  "cut_fee a p =
     (if a = 0 \<or> p = 0 then Inr 0
      else if p = GRAPHENE_100_PERCENT then Inr a
      else to_share (u128 (u128 a * p) div GRAPHENE_100_PERCENT))"

text \<open>\<open>modify(dyn, accumulated_fees += v)\<close> and the like: the dynamic data of an asset, by asset object.\<close>

definition add_fees :: "asset_object \<Rightarrow> share_type \<Rightarrow> database \<Rightarrow> database result" where
  "add_fees ao v s =
     bindE (dynamic_data s ao) (\<lambda>d. bindE (safe_add (accumulated_fees d) v) (\<lambda>n.
     Inr (s\<lparr>dyn_data := tmodify dyn_id (dyn_id d) (\<lambda>r. r\<lparr>accumulated_fees := n\<rparr>) (dyn_data s)\<rparr>)))"

definition add_supply :: "asset_object \<Rightarrow> share_type \<Rightarrow> database \<Rightarrow> database result" where
  "add_supply ao v s =
     bindE (dynamic_data s ao) (\<lambda>d. bindE (safe_add (current_supply d) v) (\<lambda>n.
     Inr (s\<lparr>dyn_data := tmodify dyn_id (dyn_id d) (\<lambda>r. r\<lparr>current_supply := n\<rparr>) (dyn_data s)\<rparr>)))"

definition sub_supply :: "asset_object \<Rightarrow> share_type \<Rightarrow> database \<Rightarrow> database result" where
  "sub_supply ao v s =
     bindE (dynamic_data s ao) (\<lambda>d. bindE (safe_sub (current_supply d) v) (\<lambda>n.
     Inr (s\<lparr>dyn_data := tmodify dyn_id (dyn_id d) (\<lambda>r. r\<lparr>current_supply := n\<rparr>) (dyn_data s)\<rparr>)))"

definition account_pay_fee :: "nat \<Rightarrow> asset \<Rightarrow> database \<Rightarrow> database result" where
  "account_pay_fee account fee s =
     (if asset_id fee = core_asset
      then bindE (get_asset s core_asset) (\<lambda>core. add_fees core (amount fee) s)
      else bindE (get_account s account) (\<lambda>acct. deposit_cashback acct fee ''cashback_gas'' True s))"

text \<open>\<open>generic_evaluator::pay_fee\<close>; \<open>real_gas\<close> stands for the floating-point product
  \<open>double(core_fee_paid) * core_exchange_rate.to_real()\<close> converted to an amount. The fees paid are the
  second component, as \<open>fee_visitor\<close> collects them.\<close>

definition generic_pay_fee ::
  "(share_type \<Rightarrow> price \<Rightarrow> share_type) \<Rightarrow> nat \<Rightarrow> share_type \<Rightarrow> database \<Rightarrow> (database \<times> asset list) result" where
  "generic_pay_fee real_gas payer core_fee_paid s =
     bindE (get_asset s GRAPHENE_ASSET_GAS) (\<lambda>gas.
     case core_exchange_rate (as_options gas) of
       None \<Rightarrow> Inl Assert_exception
     | Some rate \<Rightarrow>
       if core_fee_paid > 0 then
         let total_gas = get_balance s payer GRAPHENE_ASSET_GAS;
             require_gas = asset_of (real_gas core_fee_paid rate) GRAPHENE_ASSET_GAS
         in if amount total_gas \<ge> amount require_gas then
              bindE (account_pay_fee payer require_gas s) (\<lambda>s1.
              bindE (debit_balance payer require_gas s1) (\<lambda>s2. Inr (s2, [require_gas])))
            else
              bindE (if amount total_gas > 0 then
                       bindE (account_pay_fee payer total_gas s) (\<lambda>s1.
                       bindE (debit_balance payer total_gas s1) (\<lambda>s2.
                       bindE (asset_sub require_gas total_gas) (\<lambda>rest.
                       bindE (asset_times_price rest rate) (\<lambda>require_core. Inr (s2, [total_gas], require_core)))))
                     else Inr (s, [], asset_of core_fee_paid core_asset)) (\<lambda>(s2, fees, require_core).
              bindE (account_pay_fee payer require_core s2) (\<lambda>s3.
              bindE (debit_balance payer require_core s3) (\<lambda>s4. Inr (s4, fees @ [require_core]))))
       else Inr (s, []))"

section \<open>Authorisation\<close>

definition find_restricted :: "database \<Rightarrow> nat \<Rightarrow> restricted_enum \<Rightarrow> restricted_ref \<Rightarrow> asset_restricted_object option" where
  "find_restricted s a ty i =
     List.find (\<lambda>r. rs_asset r = a \<and> rs_type r = ty \<and> rs_restricted_id r = i) (rows (restricteds s))"

definition has_restricted :: "database \<Rightarrow> nat \<Rightarrow> restricted_enum \<Rightarrow> bool" where
  "has_restricted s a ty = (\<exists>r \<in> set (rows (restricteds s)). rs_asset r = a \<and> rs_type r = ty)"

definition is_authorized_asset_slow :: "database \<Rightarrow> account_object \<Rightarrow> asset_object \<Rightarrow> bool" where
  "is_authorized_asset_slow s acct ao =
     (if \<not> is_transfer_restricted ao \<and>
         find_restricted s (as_id ao) Blacklist_authorities (Account_ref (acc_id acct)) \<noteq> None then False
      else if \<not> has_restricted s (as_id ao) Whitelist_authorities then True
      else find_restricted s (as_id ao) Whitelist_authorities (Account_ref (acc_id acct)) \<noteq> None)"

definition is_authorized_asset :: "database \<Rightarrow> account_object \<Rightarrow> asset_object \<Rightarrow> bool" where
  "is_authorized_asset s acct ao =
     (if \<not> has_flag (flags (as_options ao)) white_list then True else is_authorized_asset_slow s acct ao)"

section \<open>Transfers\<close>

record transfer_operation =
  tr_from :: nat
  tr_to :: nat
  tr_amount :: asset

definition transfer_validate :: "transfer_operation \<Rightarrow> unit result" where
  "transfer_validate op =
     (if \<not> tr_from op \<noteq> tr_to op then Inl Assert_exception
      else if \<not> amount (tr_amount op) \<ge> 0 then Inl Assert_exception else Inr ())"

definition transfer_evaluate :: "transfer_operation \<Rightarrow> database \<Rightarrow> unit result" where
  "transfer_evaluate op s =
     bindE (get_account s (tr_from op)) (\<lambda>from_account.
     bindE (get_account s (tr_to op)) (\<lambda>to_account.
     bindE (get_asset s (asset_id (tr_amount op))) (\<lambda>asset_type.
     let issuer_involved = (acc_id from_account = as_issuer asset_type \<or> acc_id to_account = as_issuer asset_type) in
     if \<not> asset_id (tr_amount op) \<noteq> GRAPHENE_ASSET_GAS then Inl Assert_exception
     else if \<not> issuer_involved \<and> \<not> is_authorized_asset s from_account asset_type
       then Inl Transfer_from_account_not_whitelisted
     else if \<not> issuer_involved \<and> \<not> is_authorized_asset s to_account asset_type
       then Inl Transfer_to_account_not_whitelisted
     else if is_transfer_restricted asset_type \<and> \<not> is_white_list asset_type \<and> \<not> issuer_involved
       then Inl Transfer_restricted_transfer_asset
     else if \<not> amount (get_balance s (acc_id from_account) (as_id asset_type)) \<ge> amount (tr_amount op)
       then Inl Assert_exception
     else Inr ())))"

definition transfer_apply :: "transfer_operation \<Rightarrow> database \<Rightarrow> database result" where
  "transfer_apply op s =
     (if amount (tr_amount op) > 0
      then bindE (debit_balance (tr_from op) (tr_amount op) s) (adjust_balance (tr_to op) (tr_amount op))
      else Inr s)"

record override_transfer_operation = transfer_operation +
  ov_issuer :: nat

definition override_transfer_validate :: "override_transfer_operation \<Rightarrow> unit result" where
  "override_transfer_validate op =
     (if \<not> tr_from op \<noteq> tr_to op then Inl Assert_exception
      else if \<not> amount (tr_amount op) > 0 then Inl Assert_exception
      else if \<not> ov_issuer op \<noteq> tr_from op then Inl Assert_exception else Inr ())"

definition override_transfer_evaluate :: "override_transfer_operation \<Rightarrow> database \<Rightarrow> unit result" where
  "override_transfer_evaluate op s =
     (if \<not> asset_id (tr_amount op) \<noteq> GRAPHENE_ASSET_GAS then Inl Assert_exception
      else bindE (get_asset s (asset_id (tr_amount op))) (\<lambda>asset_type.
      if \<not> can_override asset_type then Inl Assert_exception
      else if \<not> as_issuer asset_type = ov_issuer op then Inl Assert_exception
      else bindE (get_account s (tr_from op)) (\<lambda>from_account.
      bindE (get_account s (tr_to op)) (\<lambda>to_account.
      if \<not> is_authorized_asset s to_account asset_type then Inl Assert_exception
      else if \<not> is_authorized_asset s from_account asset_type then Inl Assert_exception
      else if \<not> amount (get_balance s (acc_id from_account) (as_id asset_type)) \<ge> amount (tr_amount op)
        then Inl Assert_exception
      else Inr ()))))"

definition override_transfer_apply :: "override_transfer_operation \<Rightarrow> database \<Rightarrow> database result" where
  "override_transfer_apply op s =
     bindE (debit_balance (tr_from op) (tr_amount op) s) (adjust_balance (tr_to op) (tr_amount op))"

section \<open>The effect of the balance operations\<close>

lemma find_balanceD:
  assumes "table_wf ab_id (balances s)" "find_balance s owner a = Some b"
  shows "b \<in> set (rows (balances s))" "ab_owner b = owner" "ab_asset_type b = a"
    "tfind ab_id (ab_id b) (balances s) = Some b"
proof -
  from assms(2) show "b \<in> set (rows (balances s))" "ab_owner b = owner" "ab_asset_type b = a"
    by (auto simp: find_balance_def find_Some_iff)
  with assms(1) show "tfind ab_id (ab_id b) (balances s) = Some b"
    by (simp add: tfind_Some_iff)
qed

lemma adjust_balance_gas_effect:
  assumes "table_wf ab_id (balances s)" "adjust_balance_gas g account x s = Inr s'"
  obtains t where "s' = s\<lparr>balances := t\<rparr>" "table_wf ab_id t"
    "\<And>a. held_balances a t = held_balances a (balances s) + amt a x"
proof (cases "amount x = 0")
  case True
  with assms that [of "balances s"] show ?thesis by (simp add: adjust_balance_gas_def amt_def)
next
  case False
  show ?thesis
  proof (cases "find_balance s account (asset_id x)")
    case None
    with False assms(2) have "s' = s\<lparr>balances := tcreate (\<lambda>i. \<lparr>ab_id = i, ab_owner = account,
        ab_asset_type = asset_id x, ab_balance = amount x\<rparr>) (balances s)\<rparr>"
      by (auto simp: adjust_balance_gas_def)
    then show ?thesis
      by (rule that) (use assms(1) in \<open>auto simp: held_balances_def tsum_create amt_def intro: table_wf_create\<close>)
  next
    case (Some b)
    note b = find_balanceD [OF assms(1) Some]
    from False Some assms(2) have "s' = s\<lparr>balances := tmodify ab_id (ab_id b)
        (\<lambda>r. r\<lparr>ab_balance := ab_balance b + amount x\<rparr>) (balances s)\<rparr>"
      by (auto simp: adjust_balance_gas_def)
    then show ?thesis
      by (rule that) (use assms(1) b in \<open>auto simp: held_balances_def tsum_modify amt_def intro: table_wf_modify\<close>)
  qed
qed

lemma adjust_balance_effect:
  assumes "db_wf s" "adjust_balance_gas g account x s = Inr s'"
  shows "db_wf s'" "imbalance a s' = imbalance a s + amt a x" "deferred (limit_orders s') = deferred (limit_orders s)"
proof -
  from assms(1) have "table_wf ab_id (balances s)" by (simp add: db_wf_def)
  then obtain t where t: "s' = s\<lparr>balances := t\<rparr>" "table_wf ab_id t"
    "\<And>a. held_balances a t = held_balances a (balances s) + amt a x"
    using adjust_balance_gas_effect assms(2) by blast
  then show "db_wf s'" "imbalance a s' = imbalance a s + amt a x" "deferred (limit_orders s') = deferred (limit_orders s)"
    using assms(1) by (simp_all add: db_wf_def chain_frame)
qed

lemma adjust_balance_flow:
  "db_wf s \<Longrightarrow> adjust_balance_gas g account x s = Inr s' \<Longrightarrow> db_wf s' \<and> flow (\<lambda>a. amt a x) s s'"
  using adjust_balance_effect by (auto intro!: flow_eqI)

lemma asset_neg_amt: "asset_neg x = Inr y \<Longrightarrow> amt a y = - amt a x"
  by (auto simp: asset_neg_def amt_def)

lemma debit_balance_flow:
  assumes "db_wf s" "debit_balance account x s = Inr s'"
  shows "db_wf s' \<and> flow (\<lambda>a. - amt a x) s s'"
proof -
  from assms(2) obtain y where y: "asset_neg x = Inr y" "adjust_balance_gas False account y s = Inr s'"
    by (auto simp: debit_balance_def adjust_balance_def)
  from adjust_balance_flow [OF assms(1) y(2)] asset_neg_amt [OF y(1)] show ?thesis by simp
qed

subsection \<open>Supplies and fees\<close>

lemma dynamic_data_simp:
  "dynamic_data s ao = Inr d \<longleftrightarrow> tfind dyn_id (dynamic_asset_data_id ao) (dyn_data s) = Some d"
  by (simp add: dynamic_data_def)

text \<open>The asset object handed to these operations is the one stored under its id.\<close>

lemma dyn_modify_effect:
  assumes "db_wf s" "get_asset s i = Inr ao" "dynamic_data s ao = Inr d" "\<And>r. dyn_id (f r) = dyn_id r"
    and "accumulated_fees (f d) - current_supply (f d) = accumulated_fees d - current_supply d + v"
    and "s' = s\<lparr>dyn_data := tmodify dyn_id (dyn_id d) f (dyn_data s)\<rparr>"
  shows "db_wf s' \<and> flow (\<lambda>a. amt a (asset_of v i)) s s'"
proof -
  have wf: "dyn_wf (assets s) (dyn_data s)" using assms(1) by (simp add: db_wf_def)
  have ao: "tfind as_id i (assets s) = Some ao" using assms(2) by (simp add: get_asset_def)
  have d: "tfind dyn_id (dynamic_asset_data_id ao) (dyn_data s) = Some d" using assms(3) by (simp add: dynamic_data_simp)
  then have id: "dyn_id d = dynamic_asset_data_id ao" by (rule tfind_id)
  have "dyn_net a (assets s) (tmodify dyn_id (dyn_id d) f (dyn_data s)) =
      dyn_net a (assets s) (dyn_data s) + amt a (asset_of v i)" for a
    unfolding id dyn_net_def dyn_of_modify [OF wf ao d assms(4)]
    using ao d assms(5) by (auto simp: dyn_of_def)
  then show ?thesis
    using assms(1,4,6) dyn_wf_modify [OF wf, of f] by (auto intro!: flow_eqI simp: chain_frame db_wf_def)
qed

lemma add_fees_flow:
  assumes "db_wf s" "get_asset s i = Inr ao" "add_fees ao v s = Inr s'"
  shows "db_wf s' \<and> flow (\<lambda>a. amt a (asset_of v i)) s s'"
proof -
  from assms(3) obtain d where d: "dynamic_data s ao = Inr d"
    "s' = s\<lparr>dyn_data := tmodify dyn_id (dyn_id d) (\<lambda>r. r\<lparr>accumulated_fees := accumulated_fees d + v\<rparr>) (dyn_data s)\<rparr>"
    by (auto simp: add_fees_def)
  show ?thesis by (rule dyn_modify_effect [OF assms(1,2) d(1) _ _ d(2)]) simp_all
qed

lemma add_supply_flow:
  assumes "db_wf s" "get_asset s i = Inr ao" "add_supply ao v s = Inr s'"
  shows "db_wf s' \<and> flow (\<lambda>a. amt a (asset_of (- v) i)) s s'"
proof -
  from assms(3) obtain d where d: "dynamic_data s ao = Inr d"
    "s' = s\<lparr>dyn_data := tmodify dyn_id (dyn_id d) (\<lambda>r. r\<lparr>current_supply := current_supply d + v\<rparr>) (dyn_data s)\<rparr>"
    by (auto simp: add_supply_def)
  show ?thesis by (rule dyn_modify_effect [OF assms(1,2) d(1) _ _ d(2)]) simp_all
qed

lemma sub_supply_flow:
  assumes "db_wf s" "get_asset s i = Inr ao" "sub_supply ao v s = Inr s'"
  shows "db_wf s' \<and> flow (\<lambda>a. amt a (asset_of v i)) s s'"
proof -
  from assms(3) obtain d where d: "dynamic_data s ao = Inr d"
    "s' = s\<lparr>dyn_data := tmodify dyn_id (dyn_id d) (\<lambda>r. r\<lparr>current_supply := current_supply d - v\<rparr>) (dyn_data s)\<rparr>"
    by (auto simp: sub_supply_def)
  show ?thesis by (rule dyn_modify_effect [OF assms(1,2) d(1) _ _ d(2)]) simp_all
qed

subsection \<open>Vesting deposits and fee payments\<close>

lemma vb_deposit_balance:
  assumes "vb_deposit t x v = Inr v' \<or> vb_deposit_vested t x v = Inr v'"
  shows "vb_id v' = vb_id v" "amt a (vb_balance v') = amt a (vb_balance v) + amt a x"
  using assms by (auto simp: vb_deposit_def vb_deposit_vested_def asset_add_def amt_def split: if_splits)

lemma vesting_modify_effect:
  assumes "db_wf s" "tfind vb_id i (vestings s) = Some v" "vb_id v' = i"
    "\<And>a. amt a (vb_balance v') = amt a (vb_balance v) + d a"
  shows "db_wf (s\<lparr>vestings := tmodify vb_id i (\<lambda>_. v') (vestings s)\<rparr>) \<and>
    flow d s (s\<lparr>vestings := tmodify vb_id i (\<lambda>_. v') (vestings s)\<rparr>)"
proof -
  have wf: "table_wf vb_id (vestings s)" using assms(1) by (simp add: db_wf_def)
  have eq: "tmodify vb_id i (\<lambda>_. v') (vestings s) = tmodify vb_id i (\<lambda>r. v'\<lparr>vb_id := vb_id r\<rparr>) (vestings s)"
    using assms(3) by (auto simp: tmodify_def intro!: map_cong)
  have "table_wf vb_id (tmodify vb_id i (\<lambda>_. v') (vestings s))"
    unfolding eq using wf by (rule table_wf_modify) simp
  moreover have "held_vesting a (tmodify vb_id i (\<lambda>_. v') (vestings s)) = held_vesting a (vestings s) + d a" for a
    using tsum_modify [OF wf assms(2)] assms(4) by (simp add: held_vesting_def)
  ultimately show ?thesis
    using assms(1) by (auto intro!: flow_eqI simp: chain_frame db_wf_def)
qed

lemma vesting_create_effect:
  assumes "db_wf s" "vb_id (mk (next_id (vestings s))) = next_id (vestings s)" "vb_balance (mk (next_id (vestings s))) = x"
  shows "db_wf (s\<lparr>vestings := tcreate mk (vestings s)\<rparr>) \<and> flow (\<lambda>a. amt a x) s (s\<lparr>vestings := tcreate mk (vestings s)\<rparr>)"
  using assms by (auto intro!: flow_eqI table_wf_create simp: chain_frame db_wf_def held_vesting_def tsum_create)

lemma deposit_lazy_vesting_flow:
  assumes "db_wf s" "deposit_lazy_vesting ovbid x secs owner descr req s = Inr (s', nid)"
  shows "db_wf s' \<and> flow (\<lambda>a. amt a x) s s'"
proof (cases "amount x = 0")
  case True
  then have "(\<lambda>a. amt a x) = no_flow" by (auto simp: amt_def no_flow_def)
  with True assms show ?thesis by (simp add: deposit_lazy_vesting_def flow_refl)
next
  case False
  show ?thesis
  proof (cases "\<exists>i v. ovbid = Some i \<and> tfind vb_id i (vestings s) = Some v \<and> lazy_vesting_reusable v secs owner descr")
    case True
    then obtain i v where v: "ovbid = Some i" "tfind vb_id i (vestings s) = Some v" "lazy_vesting_reusable v secs owner descr"
      by blast
    with False assms(2) obtain v' where "vb_deposit (head_block_time s) x v = Inr v' \<or>
        vb_deposit_vested (head_block_time s) x v = Inr v'" "s' = s\<lparr>vestings := tmodify vb_id i (\<lambda>_. v') (vestings s)\<rparr>"
      by (auto simp: deposit_lazy_vesting_def Let_def split: if_splits)
    with vesting_modify_effect [OF assms(1) v(2)] vb_deposit_balance tfind_id [OF v(2)] show ?thesis by auto
  next
    case no: False
    from False no assms(2) show ?thesis
      by (auto simp: deposit_lazy_vesting_def Let_def split: option.splits if_splits
          intro!: vesting_create_effect [OF assms(1)])
  qed
qed

lemma accounts_flow:
  "db_wf s \<Longrightarrow> table_wf acc_id t \<Longrightarrow> db_wf (s\<lparr>accounts := t\<rparr>) \<and> flow no_flow s (s\<lparr>accounts := t\<rparr>)"
  by (auto intro!: flow_eqI simp: chain_frame db_wf_def no_flow_def)

lemma amt_zero: "amount x = 0 \<Longrightarrow> (\<lambda>a. amt a x) = no_flow"
  by (auto simp: amt_def no_flow_def)

lemma deposit_cashback_flow:
  assumes "db_wf s" "deposit_cashback acct x descr req s = Inr s'"
  shows "db_wf s' \<and> flow (\<lambda>a. amt a x) s s'"
proof (cases "amount x = 0")
  case True
  with assms show ?thesis by (simp add: deposit_cashback_def amt_zero flow_refl)
next
  case False
  with assms(2) obtain s1 nid where s1: "deposit_lazy_vesting (cashback_gas acct) x
      (cashback_gas_period_seconds (parameters s)) (acc_id acct) descr req s = Inr (s1, nid)"
    "s' = (case nid of None \<Rightarrow> s1 | Some i \<Rightarrow>
      s1\<lparr>accounts := tmodify acc_id (acc_id acct) (\<lambda>r. r\<lparr>cashback_gas := Some i\<rparr>) (accounts s1)\<rparr>)"
    by (auto simp: deposit_cashback_def split: option.splits)
  note f = deposit_lazy_vesting_flow [OF assms(1) s1(1)]
  have "db_wf s' \<and> flow no_flow s1 s'"
    using f s1(2) accounts_flow [of s1]
    by (auto simp: flow_refl db_wf_def table_wf_modify split: option.splits)
  with f show ?thesis by (auto intro: flow_trans simp: no_flow_def)
qed

lemma account_pay_fee_flow:
  assumes "db_wf s" "account_pay_fee account fee s = Inr s'"
  shows "db_wf s' \<and> flow (\<lambda>a. amt a fee) s s'"
proof (cases "asset_id fee = core_asset")
  case True
  then have "asset_of (amount fee) core_asset = fee" by (auto intro: asset_eqI)
  with True assms add_fees_flow [OF assms(1), of core_asset _ "amount fee" s'] show ?thesis
    by (auto simp: account_pay_fee_def simp del: amt_simps)
next
  case False
  with assms deposit_cashback_flow [OF assms(1)] show ?thesis by (auto simp: account_pay_fee_def)
qed

text \<open>A fee moved out of the payer's balance into the fee accounts leaves the imbalance unchanged.\<close>

lemma pay_and_debit_flow:
  assumes "db_wf s" "account_pay_fee account fee s = Inr s1" "debit_balance account fee s1 = Inr s2"
  shows "db_wf s2 \<and> flow no_flow s s2"
  using account_pay_fee_flow [OF assms(1,2)] debit_balance_flow [OF _ assms(3)]
  by (auto intro: flow_trans simp: no_flow_def)

lemma flow_no_trans: "flow no_flow s s1 \<Longrightarrow> flow no_flow s1 s2 \<Longrightarrow> flow no_flow s s2"
  by (erule (1) flow_trans) (simp add: no_flow_def)

lemma generic_pay_fee_flow:
  assumes "db_wf s" "generic_pay_fee real_gas payer fee s = Inr (s', fees)"
  shows "db_wf s' \<and> flow no_flow s s'"
proof (cases "fee > 0")
  case False
  with assms show ?thesis by (auto simp: generic_pay_fee_def flow_refl split: option.splits)
next
  case True
  obtain rate where rate: "\<And>g. get_asset s GRAPHENE_ASSET_GAS = Inr g \<Longrightarrow> core_exchange_rate (as_options g) = Some rate"
    using assms(2) by (auto simp: generic_pay_fee_def)
  let ?req = "asset_of (real_gas fee rate) GRAPHENE_ASSET_GAS" and ?tot = "get_balance s payer GRAPHENE_ASSET_GAS"
  show ?thesis
  proof (cases "amount ?tot \<ge> amount ?req")
    case enough: True
    with True assms(2) rate pay_and_debit_flow [OF assms(1)] show ?thesis
      by (fastforce simp: generic_pay_fee_def Let_def)
  next
    case False
    with True assms(2) rate obtain s2 core s3 where core: "account_pay_fee payer core s2 = Inr s3"
        "debit_balance payer core s3 = Inr s'"
      and s2: "s2 = s \<or> (\<exists>s1. account_pay_fee payer ?tot s = Inr s1 \<and> debit_balance payer ?tot s1 = Inr s2)"
      by (fastforce simp: generic_pay_fee_def Let_def split: if_splits)
    have "db_wf s2 \<and> flow no_flow s s2" using s2 assms(1) pay_and_debit_flow flow_refl by blast
    with pay_and_debit_flow [OF _ core] show ?thesis by (blast intro: flow_no_trans)
  qed
qed

section \<open>Transfers\<close>

lemma transfer_flow:
  assumes "db_wf s" "debit_balance from x s = Inr s1" "adjust_balance to x s1 = Inr s2"
  shows "db_wf s2 \<and> flow no_flow s s2"
  using debit_balance_flow [OF assms(1,2)] adjust_balance_flow [of s1 False to x s2] assms(3)
  by (auto intro: flow_trans simp: no_flow_def adjust_balance_def)

text \<open>One balance object per account and asset, as the index by account and asset enforces.\<close>

definition balance_unique :: "database \<Rightarrow> bool" where
  "balance_unique s \<longleftrightarrow> table_wf ab_id (balances s) \<and>
     distinct (map (\<lambda>b. (ab_owner b, ab_asset_type b)) (rows (balances s)))"

lemma find_snoc: "List.find P (xs @ [x]) = (case List.find P xs of None \<Rightarrow> if P x then Some x else None | Some y \<Rightarrow> Some y)"
  by (induction xs) auto

lemma find_map_other:
  assumes "\<And>r. P (f r) = P r"
  shows "List.find P (map f xs) = map_option f (List.find P xs)"
  using assms by (induction xs) auto

lemma find_balance_modify:
  "find_balance (s\<lparr>balances := tmodify ab_id i (\<lambda>r. r\<lparr>ab_balance := v\<rparr>) (balances s)\<rparr>) ow a =
    map_option (\<lambda>r. if ab_id r = i then r\<lparr>ab_balance := v\<rparr> else r) (find_balance s ow a)"
  unfolding find_balance_def tmodify_def
  by (simp add: find_map_other [where f = "\<lambda>r. if ab_id r = i then r\<lparr>ab_balance := v\<rparr> else r"])

lemma adjust_balance_cases:
  assumes "adjust_balance_gas g account x s = Inr s'" "amount x \<noteq> 0"
  obtains (new) "find_balance s account (asset_id x) = None" "amount x > 0"
      "s' = s\<lparr>balances := tcreate (\<lambda>i. \<lparr>ab_id = i, ab_owner = account, ab_asset_type = asset_id x,
         ab_balance = amount x\<rparr>) (balances s)\<rparr>"
    | (old) b where "find_balance s account (asset_id x) = Some b"
      "amount x < 0 \<and> \<not> (g \<and> asset_id x = GRAPHENE_ASSET_GAS) \<Longrightarrow> check_debit account x b s = Inr ()"
      "s' = s\<lparr>balances := tmodify ab_id (ab_id b) (\<lambda>r. r\<lparr>ab_balance := ab_balance b + amount x\<rparr>) (balances s)\<rparr>"
  using assms by (cases "find_balance s account (asset_id x)") (auto simp: adjust_balance_gas_def split: if_splits)

lemma balance_unique_keys:
  assumes "balance_unique s" "b \<in> set (rows (balances s))" "c \<in> set (rows (balances s))"
    "ab_owner b = ab_owner c" "ab_asset_type b = ab_asset_type c"
  shows "b = c"
  using assms by (auto simp: balance_unique_def distinct_map inj_on_def)

lemma adjust_balance_unique:
  assumes "balance_unique s" "adjust_balance_gas g account x s = Inr s'"
  shows "balance_unique s'"
proof (cases "amount x = 0")
  case True
  with assms show ?thesis by (simp add: adjust_balance_gas_def)
next
  case False
  from assms(2) False show ?thesis
  proof (cases rule: adjust_balance_cases)
    case new
    then have "(account, asset_id x) \<notin> (\<lambda>b. (ab_owner b, ab_asset_type b)) ` set (rows (balances s))"
      by (auto simp: find_balance_def find_None_iff)
    with new assms(1) show ?thesis
      by (auto simp: balance_unique_def table_wf_create) (auto simp: tcreate_def)
  next
    case (old b)
    have "map (\<lambda>b. (ab_owner b, ab_asset_type b)) (rows (balances s')) =
        map (\<lambda>b. (ab_owner b, ab_asset_type b)) (rows (balances s))"
      using old(3) by (simp add: tmodify_def)
    with old assms(1) show ?thesis by (simp add: balance_unique_def table_wf_modify)
  qed
qed

lemma adjust_balance_get:
  assumes "balance_unique s" "adjust_balance_gas g account x s = Inr s'"
  shows "amount (get_balance s' ow a) =
    amount (get_balance s ow a) + (if ow = account \<and> a = asset_id x then amount x else 0)"
proof (cases "amount x = 0")
  case True
  with assms show ?thesis by (simp add: adjust_balance_gas_def)
next
  case False
  from assms(2) False show ?thesis
  proof (cases rule: adjust_balance_cases)
    case new
    have find: "find_balance s' ow a = (case find_balance s ow a of
        None \<Rightarrow> if account = ow \<and> asset_id x = a then Some \<lparr>ab_id = next_id (balances s), ab_owner = account,
          ab_asset_type = asset_id x, ab_balance = amount x\<rparr> else None | Some c \<Rightarrow> Some c)"
      unfolding new(3) find_balance_def tcreate_def
      by (cases "find_balance s ow a") (simp_all add: find_balance_def find_snoc)
    show ?thesis
    proof (cases "ow = account \<and> a = asset_id x")
      case True
      with new(1) find show ?thesis by (simp add: get_balance_def ab_get_balance_def)
    next
      case False
      then have "find_balance s' ow a = find_balance s ow a" using find by (auto split: option.splits)
      with False show ?thesis by (auto simp: get_balance_def)
    qed
  next
    case (old b)
    have wf: "table_wf ab_id (balances s)" using assms(1) by (simp add: balance_unique_def)
    note b = find_balanceD [OF wf old(1)]
    show ?thesis
    proof (cases "find_balance s ow a")
      case None
      then have "\<not> (ow = account \<and> a = asset_id x)" "find_balance s' ow a = None"
        using old(1) unfolding old(3) by (auto simp: find_balance_modify)
      with None show ?thesis by (auto simp: get_balance_def)
    next
      case (Some c)
      note c = find_balanceD [OF wf Some]
      have "ab_id c = ab_id b \<longleftrightarrow> ow = account \<and> a = asset_id x"
      proof
        assume "ab_id c = ab_id b"
        then have "c = b" using c(4) b(4) by (metis option.inject)
        then show "ow = account \<and> a = asset_id x" using c(2,3) b(2,3) by simp
      next
        assume "ow = account \<and> a = asset_id x"
        then show "ab_id c = ab_id b" using Some old(1) by simp
      qed
      moreover have "find_balance s' ow a =
          Some (if ab_id c = ab_id b then c\<lparr>ab_balance := ab_balance b + amount x\<rparr> else c)"
        using Some unfolding old(3) by (simp add: find_balance_modify)
      moreover have "ab_balance c = ab_balance b" if "ow = account \<and> a = asset_id x" using that Some old(1) by simp
      ultimately show ?thesis using Some by (simp add: get_balance_def ab_get_balance_def)
    qed
  qed
qed

lemma check_debit_iff:
  assumes "ab_asset_type b = asset_id d" "get_account s account = Inr ao" "amount d \<noteq> int64_min"
    "in_int64 (ab_balance b)" "in_int64 (ab_balance b + amount d)"
  shows "check_debit account d b s = Inr () \<longleftrightarrow>
    - amount d \<le> ab_balance b \<and> 0 \<le> locked_of ao (asset_id d) \<and> locked_of ao (asset_id d) \<le> ab_balance b + amount d"
proof -
  have "safe_neg (amount d) = Inr (- amount d)" using assms(3) by simp
  then have neg: "asset_neg d = Inr (asset_of (- amount d) (asset_id d))" by (simp add: asset_neg_def)
  have bal: "ab_get_balance b = asset_of (ab_balance b) (asset_id d)" using assms(1) by (simp add: ab_get_balance_def)
  have "safe_add (ab_balance b) (amount d) = Inr (ab_balance b + amount d)" using assms(4,5) by (rule safe_add_ok)
  then have add: "asset_add (ab_get_balance b) d = Inr (asset_of (ab_balance b + amount d) (asset_id d))"
    by (simp add: asset_add_def bal)
  have ge: "asset_ge (asset_of u i) (asset_of v i) = Inr (u \<ge> v)" for u v i by (simp add: asset_cmp_same)
  show ?thesis
    unfolding check_debit_def neg add Let_def using assms(2) by (simp add: bal ge)
qed

lemma asset_neg_range: "asset_neg x = Inr y \<Longrightarrow> amount y = - amount x \<and> asset_id y = asset_id x"
  by (auto simp: asset_neg_def)

lemma debit_not_found:
  assumes "find_balance s account (asset_id x) = None" "0 < amount x"
  shows "debit_balance account x s \<noteq> Inr s'"
proof
  assume "debit_balance account x s = Inr s'"
  then obtain y where y: "asset_neg x = Inr y" "adjust_balance_gas False account y s = Inr s'"
    by (auto simp: debit_balance_def adjust_balance_def)
  with assms asset_neg_range [OF y(1)] show False by (simp add: adjust_balance_gas_def)
qed

text \<open>C23: a debit goes through exactly when the account keeps its locked amount. For a positive amount, an
  existing account and a stored balance in the 64-bit range, \<open>adjust_balance(account, -amount)\<close> succeeds if
  and only if the locked amount of the asset is not negative and balance minus amount is at least the
  locked amount; otherwise it fails and nothing changes.\<close>

theorem debit_balance_iff:
  assumes "balance_unique s" "get_account s account = Inr ao" "0 < amount x" "amount x \<le> int64_max"
    and "0 \<le> amount (get_balance s account (asset_id x))" "amount (get_balance s account (asset_id x)) \<le> int64_max"
  shows "(\<exists>s'. debit_balance account x s = Inr s') \<longleftrightarrow>
    0 \<le> locked_of ao (asset_id x) \<and>
    locked_of ao (asset_id x) + amount x \<le> amount (get_balance s account (asset_id x))"
proof (cases "find_balance s account (asset_id x)")
  case None
  with debit_not_found [OF None assms(3)] assms(3) show ?thesis by (simp add: get_balance_def)
next
  case (Some b)
  let ?d = "asset_of (- amount x) (asset_id x)"
  have wf: "table_wf ab_id (balances s)" using assms(1) by (simp add: balance_unique_def)
  note b = find_balanceD [OF wf Some]
  have bal: "amount (get_balance s account (asset_id x)) = ab_balance b"
    using Some by (simp add: get_balance_def ab_get_balance_def)
  have mm: "int64_min = - int64_max - 1" "0 \<le> int64_max" by (simp_all add: int64_min_def int64_max_def)
  have rng: "in_int64 (ab_balance b)" "in_int64 (ab_balance b + amount ?d)" "amount ?d \<noteq> int64_min"
    and min: "amount x \<noteq> int64_min"
    unfolding in_int64_def asset_of_simps using assms(3-6) bal mm by linarith+
  then have "safe_neg (amount x) = Inr (- amount x)" by simp
  then have "asset_neg x = Inr ?d" by (simp add: asset_neg_def)
  moreover have "safe_add (ab_balance b) (- amount x) = Inr (ab_balance b - amount x)"
    using safe_add_ok [OF rng(1,2)] by simp
  ultimately have "(\<exists>s'. debit_balance account x s = Inr s') \<longleftrightarrow> check_debit account ?d b s = Inr ()"
    using Some assms(3) by (simp add: debit_balance_def adjust_balance_def adjust_balance_gas_def)
  also have "\<dots> \<longleftrightarrow> amount x \<le> ab_balance b \<and> 0 \<le> locked_of ao (asset_id x) \<and>
      locked_of ao (asset_id x) \<le> ab_balance b - amount x"
    using check_debit_iff [OF _ assms(2) rng(3,1,2)] b(3) unfolding asset_of_simps by simp
  finally show ?thesis unfolding bal using assms(3) by (simp only:) linarith
qed

text \<open>A small concrete database: two accounts, the core asset with a supply of 150 and one balance each.\<close>

definition plain_options :: asset_options where
  "plain_options = \<lparr>max_supply = 1000, market_fee_percent = 0, max_market_fee = 0, issuer_permissions = 0,
     flags = 0, core_exchange_rate = None\<rparr>"

definition demo_account :: "nat \<Rightarrow> account_object" where
  "demo_account i = \<lparr>acc_id = i, acc_name = ''a'', acc_statistics = i, acc_locked_total = [0 \<mapsto> 20],
     acc_active_accounts = [], cashback_gas = None, cashback_vb = None\<rparr>"

definition demo_db :: database where
  "demo_db = \<lparr>accounts = \<lparr>next_id = 4, rows = [demo_account 2, demo_account 3]\<rparr>,
     statistics = \<lparr>next_id = 4, rows = [\<lparr>st_id = 2, st_owner = 2, total_core_in_orders = 0\<rparr>,
       \<lparr>st_id = 3, st_owner = 3, total_core_in_orders = 0\<rparr>]\<rparr>,
     balances = \<lparr>next_id = 2, rows = [\<lparr>ab_id = 0, ab_owner = 2, ab_asset_type = 0, ab_balance = 100\<rparr>,
       \<lparr>ab_id = 1, ab_owner = 3, ab_asset_type = 0, ab_balance = 50\<rparr>]\<rparr>,
     assets = \<lparr>next_id = 1, rows = [\<lparr>as_id = 0, as_symbol = ''COCOS'', as_precision = 5, as_issuer = 9,
       as_options = plain_options, dynamic_asset_data_id = 0, bitasset_data_id = None\<rparr>]\<rparr>,
     dyn_data = \<lparr>next_id = 1, rows = [\<lparr>dyn_id = 0, current_supply = 150, accumulated_fees = 0\<rparr>]\<rparr>,
     bitassets = empty_table, restricteds = empty_table, limit_orders = empty_table, call_orders = empty_table,
     settlements = empty_table, bids = empty_table, vestings = empty_table, gas_collaterals = empty_table,
     parameters = \<lparr>block_interval = 2, cashback_gas_period_seconds = 3600, cashback_vb_period_seconds = 3600,
       maximum_asset_feed_publishers = 10\<rparr>,
     head_block_time = 1000\<rparr>"

lemmas demo_defs = demo_db_def demo_account_def plain_options_def empty_table_def

lemma demo_db_facts:
  "balance_unique demo_db" "db_wf demo_db" "get_account demo_db 2 = Inr (demo_account 2)"
  "get_account demo_db 3 = Inr (demo_account 3)" "locked_of (demo_account i) 0 = 20"
  "get_balance demo_db 2 0 = asset_of 100 0" "get_balance demo_db 3 0 = asset_of 50 0"
  by (simp_all add: demo_defs balance_unique_def table_wf_def db_wf_def dyn_wf_def limit_wf_def feed_wf_def map_filter_simps bitasset_ok_def bit_wf_def fee_options_ok_def chain_constants get_account_def
      tfind_def tget_def locked_of_def get_balance_def find_balance_def ab_get_balance_def)

theorem debit_balance_iff_witness:
  "(\<exists>s'. debit_balance 2 (asset_of 80 0) demo_db = Inr s') \<and> \<not> (\<exists>s'. debit_balance 2 (asset_of 81 0) demo_db = Inr s')"
  using debit_balance_iff [OF demo_db_facts(1,3), of "asset_of 80 0"]
    debit_balance_iff [OF demo_db_facts(1,3), of "asset_of 81 0"]
  by (simp add: demo_db_facts int64_max_def)

text \<open>C24: a transfer moves exactly its amount. When a transfer operation passes \<open>validate\<close> and is applied,
  the sender's balance of the asset falls by the amount, the receiver's rises by it, every other balance of
  every account is unchanged, and for every asset the sum of all holdings minus the recorded supply stays
  what it was.\<close>

theorem transfer_correct:
  assumes "db_wf s" "balance_unique s" "transfer_validate op = Inr ()" "transfer_apply op s = Inr s'"
  shows "(\<forall>ow a. amount (get_balance s' ow a) = amount (get_balance s ow a) +
      (if a = asset_id (tr_amount op) then
         if ow = tr_from op then - amount (tr_amount op) else if ow = tr_to op then amount (tr_amount op) else 0
       else 0)) \<and>
    (\<forall>a. imbalance a s' = imbalance a s) \<and> db_wf s' \<and> balance_unique s'"
proof (cases "amount (tr_amount op) > 0")
  case True
  with assms(4) obtain s1 where s1: "debit_balance (tr_from op) (tr_amount op) s = Inr s1"
    "adjust_balance_gas False (tr_to op) (tr_amount op) s1 = Inr s'"
    by (auto simp: transfer_apply_def adjust_balance_def)
  from s1(1) obtain y where y: "asset_neg (tr_amount op) = Inr y" "adjust_balance_gas False (tr_from op) y s = Inr s1"
    by (auto simp: debit_balance_def adjust_balance_def)
  note ny = asset_neg_range [OF y(1)] and u1 = adjust_balance_unique [OF assms(2) y(2)]
  have ne: "tr_from op \<noteq> tr_to op" using assms(3) by (auto simp: transfer_validate_def)
  have bal: "amount (get_balance s' ow a) = amount (get_balance s ow a) +
      (if a = asset_id (tr_amount op) then
         if ow = tr_from op then - amount (tr_amount op) else if ow = tr_to op then amount (tr_amount op) else 0
       else 0)" for ow a
    unfolding adjust_balance_get [OF u1 s1(2)] adjust_balance_get [OF assms(2) y(2)] using ne ny by auto
  note w1 = adjust_balance_effect [OF assms(1) y(2)] and w2 = adjust_balance_effect [OF _ s1(2)]
  have "imbalance a s' = imbalance a s" for a
    using w1 w2(2) [OF w1(1)] asset_neg_amt [OF y(1)] by simp
  with bal w1 w2 adjust_balance_unique [OF u1 s1(2)] show ?thesis by blast
next
  case False
  with assms show ?thesis by (auto simp: transfer_apply_def transfer_validate_def)
qed

definition demo_transfer :: transfer_operation where
  "demo_transfer = \<lparr>tr_from = 2, tr_to = 3, tr_amount = asset_of 30 0\<rparr>"

theorem transfer_correct_witness:
  "\<exists>s'. transfer_apply demo_transfer demo_db = Inr s' \<and> amount (get_balance s' 2 0) = 70 \<and>
    amount (get_balance s' 3 0) = 80"
proof -
  have "\<exists>s'. transfer_apply demo_transfer demo_db = Inr s'"
    by (simp add: demo_transfer_def transfer_apply_def debit_balance_def adjust_balance_def adjust_balance_gas_def
        asset_neg_def safe_neg_def int64_min_def int64_max_def find_balance_def check_debit_def asset_cmp_same
        ab_get_balance_def get_account_def tget_def tfind_def locked_of_def asset_add_def safe_add_def demo_defs
        tmodify_def Let_def)
  then obtain s' where s': "transfer_apply demo_transfer demo_db = Inr s'" by blast
  have "transfer_validate demo_transfer = Inr ()" by (simp add: transfer_validate_def demo_transfer_def)
  from transfer_correct [OF demo_db_facts(2,1) this s'] s' show ?thesis
    by (auto simp: demo_transfer_def demo_db_facts)
qed

end
