(* ===== verification/Market.thy ===== *)
theory Market
  imports Balances
begin

text \<open>
  The market: \<open>chain/db_market.cpp\<close> and \<open>check_for_blackswan\<close> of \<open>chain/db_update.cpp\<close>.

  The ordered indices are sorted views of the tables. An iterator into an index is the list of the ids it
  has still to visit: the operations inside the loops only remove orders or change fields that are not part
  of the key the loop iterates by. Reading through an iterator whose order has been removed is undefined
  behaviour. Virtual operations for the history (\<open>push_applied_operation\<close>) leave the objects alone
  and are not modelled, nor are the C \<open>assert\<close>s, which a release build drops.
\<close>

section \<open>Indices\<close>

definition limit_lt :: "limit_order_object \<Rightarrow> limit_order_object \<Rightarrow> bool" where
  "limit_lt x y \<longleftrightarrow> price_gt (sell_price x) (sell_price y) \<or>
     \<not> price_gt (sell_price y) (sell_price x) \<and> lo_id x < lo_id y"

definition call_lt :: "call_order_object \<Rightarrow> call_order_object \<Rightarrow> bool" where
  "call_lt x y \<longleftrightarrow> price_lt (co_call_price x) (co_call_price y) \<or>
     \<not> price_lt (co_call_price y) (co_call_price x) \<and> co_id x < co_id y"

definition bid_lt :: "collateral_bid_object \<Rightarrow> collateral_bid_object \<Rightarrow> bool" where
  "bid_lt x y \<longleftrightarrow>
     asset_id (quote (inv_swan_price x)) < asset_id (quote (inv_swan_price y)) \<or>
     asset_id (quote (inv_swan_price x)) = asset_id (quote (inv_swan_price y)) \<and>
       (price_gt (inv_swan_price x) (inv_swan_price y) \<or>
        \<not> price_gt (inv_swan_price y) (inv_swan_price x) \<and> cb_id x < cb_id y)"

text \<open>\<open>[lower_bound(highest), upper_bound(lowest))\<close> of the limit orders, which are sorted by descending
  price, and \<open>[lower_bound(lowest), upper_bound(highest))\<close> of the call orders.\<close>

definition limit_range :: "price \<Rightarrow> price \<Rightarrow> database \<Rightarrow> limit_order_object list" where
  "limit_range highest lowest s =
     index_range (\<lambda>r. price_gt (sell_price r) highest) (\<lambda>r. price_gt lowest (sell_price r))
       (index_by limit_lt (rows (limit_orders s)))"

definition call_range :: "price \<Rightarrow> price \<Rightarrow> database \<Rightarrow> call_order_object list" where
  "call_range lowest highest s =
     index_range (\<lambda>r. price_lt (co_call_price r) lowest) (\<lambda>r. price_lt highest (co_call_price r))
       (index_by call_lt (rows (call_orders s)))"

definition calls_of :: "asset_object \<Rightarrow> asset_bitasset_data_object \<Rightarrow> database \<Rightarrow> call_order_object list result" where
  "calls_of mia bitasset s =
     bindE (price_min (short_backing_asset (bit_options bitasset)) (as_id mia)) (\<lambda>call_min.
     bindE (price_max (short_backing_asset (bit_options bitasset)) (as_id mia)) (\<lambda>call_max.
     Inr (call_range call_min call_max s)))"

section \<open>Fees and payments\<close>

definition calculate_market_fee :: "asset_object \<Rightarrow> asset \<Rightarrow> asset result" where
  "calculate_market_fee trade_asset trade_amount =
     (if \<not> charges_market_fees trade_asset then Inr (asset_of 0 (as_id trade_asset))
      else if market_fee_percent (as_options trade_asset) = 0 then Inr (asset_of 0 (as_id trade_asset))
      else bindE (to_share (u128 (u128 (amount trade_amount) * market_fee_percent (as_options trade_asset))
                            div GRAPHENE_100_PERCENT)) (\<lambda>percent_fee.
        Inr (asset_of (if percent_fee > max_market_fee (as_options trade_asset)
                       then max_market_fee (as_options trade_asset) else percent_fee) (as_id trade_asset))))"

definition pay_market_fees :: "asset_object \<Rightarrow> asset \<Rightarrow> database \<Rightarrow> (database \<times> asset) result" where
  "pay_market_fees recv_asset receives s =
     bindE (calculate_market_fee recv_asset receives) (\<lambda>issuer_fees.
     if amount issuer_fees > 0
     then bindE (add_fees recv_asset (amount issuer_fees) s) (\<lambda>s'. Inr (s', issuer_fees))
     else Inr (s, issuer_fees))"

definition add_core_in_orders :: "account_object \<Rightarrow> share_type \<Rightarrow> database \<Rightarrow> database result" where
  "add_core_in_orders ao v s =
     bindE (get_statistics s ao) (\<lambda>st. bindE (safe_add (total_core_in_orders st) v) (\<lambda>n.
     Inr (s\<lparr>statistics := tmodify st_id (st_id st) (\<lambda>r. r\<lparr>total_core_in_orders := n\<rparr>) (statistics s)\<rparr>)))"

definition sub_core_in_orders :: "account_object \<Rightarrow> share_type \<Rightarrow> database \<Rightarrow> database result" where
  "sub_core_in_orders ao v s =
     bindE (get_statistics s ao) (\<lambda>st. bindE (safe_sub (total_core_in_orders st) v) (\<lambda>n.
     Inr (s\<lparr>statistics := tmodify st_id (st_id st) (\<lambda>r. r\<lparr>total_core_in_orders := n\<rparr>) (statistics s)\<rparr>)))"

definition pay_order :: "account_object \<Rightarrow> asset \<Rightarrow> asset \<Rightarrow> database \<Rightarrow> database result" where
  "pay_order receiver receives pays s =
     bindE (sub_core_in_orders receiver (if asset_id pays = core_asset then amount pays else 0) s)
       (adjust_balance (acc_id receiver) receives)"

section \<open>Limit orders\<close>

definition cancel_limit_order :: "limit_order_object \<Rightarrow> database \<Rightarrow> database result" where
  "cancel_limit_order ord s =
     (let refunded = amount_for_sale ord in
      bindE (get_account s (lo_seller ord)) (\<lambda>seller.
      bindE (sub_core_in_orders seller (if asset_id refunded = core_asset then amount refunded else 0) s) (\<lambda>s1.
      bindE (adjust_balance (lo_seller ord) refunded s1) (\<lambda>s2.
      bindE (case deferred_fee ord of
               None \<Rightarrow> Inr s2
             | Some f \<Rightarrow> adjust_balance (lo_seller ord) (asset_of f core_asset) s2) (\<lambda>s3.
      Inr (s3\<lparr>limit_orders := tremove lo_id (lo_id ord) (limit_orders s3)\<rparr>))))))"

definition maybe_cull_small_order :: "limit_order_object \<Rightarrow> database \<Rightarrow> (database \<times> bool) result" where
  "maybe_cull_small_order ord s =
     bindE (amount_to_receive ord) (\<lambda>r.
     if amount r = 0 then bindE (cancel_limit_order ord s) (\<lambda>s'. Inr (s', True)) else Inr (s, False))"

definition fill_limit_order :: "limit_order_object \<Rightarrow> asset \<Rightarrow> asset \<Rightarrow> bool \<Rightarrow> database \<Rightarrow> (database \<times> bool) result" where
  "fill_limit_order ord pays receives cull_if_small s =
     (if \<not> asset_id (amount_for_sale ord) = asset_id pays then Inl Assert_exception
      else if \<not> asset_id pays \<noteq> asset_id receives then Inl Assert_exception
      else bindE (get_account s (lo_seller ord)) (\<lambda>seller.
      bindE (get_asset s (asset_id receives)) (\<lambda>recv_asset.
      bindE (pay_market_fees recv_asset receives s) (\<lambda>(s1, issuer_fees).
      bindE (asset_sub receives issuer_fees) (\<lambda>net.
      bindE (pay_order seller net pays s1) (\<lambda>s2.
      if pays = amount_for_sale ord
      then Inr (s2\<lparr>limit_orders := tremove lo_id (lo_id ord) (limit_orders s2)\<rparr>, True)
      else
        bindE (safe_sub (for_sale ord) (amount pays)) (\<lambda>left.
        let s3 = s2\<lparr>limit_orders := tmodify lo_id (lo_id ord) (\<lambda>r. r\<lparr>for_sale := left\<rparr>) (limit_orders s2)\<rparr> in
        if cull_if_small then maybe_cull_small_order (ord\<lparr>for_sale := left\<rparr>) s3 else Inr (s3, False))))))))"

section \<open>Call orders and force settlements\<close>

text \<open>Freed collateral goes back to the borrower, and the statistics follow.\<close>

definition release_collateral :: "account_object \<Rightarrow> bool \<Rightarrow> asset \<Rightarrow> asset \<Rightarrow> database \<Rightarrow> database result" where
  "release_collateral borrower_acc freed collateral_freed pays s2 =
     (if freed \<or> asset_id pays = core_asset then
        bindE (get_statistics s2 borrower_acc) (\<lambda>_.
        bindE (if freed then adjust_balance (acc_id borrower_acc) collateral_freed s2 else Inr s2) (\<lambda>s3.
        bindE (if freed \<and> amount collateral_freed > 0
               then sub_core_in_orders borrower_acc (amount collateral_freed) s3 else Inr s3) (\<lambda>s4.
        if asset_id pays = core_asset
        then sub_core_in_orders borrower_acc (amount pays) s4 else Inr s4)))
      else Inr s2)"

definition fill_call_order :: "call_order_object \<Rightarrow> asset \<Rightarrow> asset \<Rightarrow> database \<Rightarrow> (database \<times> bool) result" where
  "fill_call_order ord pays receives s =
     (if \<not> asset_id (get_debt ord) = asset_id receives then Inl Assert_exception
      else if \<not> asset_id (get_collateral ord) = asset_id pays then Inl Assert_exception
      else if \<not> amount (get_collateral ord) \<ge> amount pays then Inl Assert_exception
      else
        bindE (safe_sub (debt ord) (amount receives)) (\<lambda>debt'.
        bindE (safe_sub (collateral ord) (amount pays)) (\<lambda>collateral'.
        let freed = (debt' = 0);
            s1 = s\<lparr>call_orders := tmodify co_id (co_id ord)
                   (\<lambda>r. r\<lparr>debt := debt', collateral := (if freed then 0 else collateral')\<rparr>) (call_orders s)\<rparr>;
            collateral_freed = asset_of collateral' (asset_id (get_collateral ord))
        in
        bindE (get_asset s1 (asset_id receives)) (\<lambda>mia.
        bindE (sub_supply mia (amount receives) s1) (\<lambda>s2.
        bindE (get_account s2 (borrower ord)) (\<lambda>borrower_acc.
        bindE (release_collateral borrower_acc freed collateral_freed pays s2) (\<lambda>s5.
        if freed then Inr (s5\<lparr>call_orders := tremove co_id (co_id ord) (call_orders s5)\<rparr>, True)
        else Inr (s5, False))))))))"

definition fill_settle_order :: "force_settlement_object \<Rightarrow> asset \<Rightarrow> asset \<Rightarrow> database \<Rightarrow> (database \<times> bool) result" where
  "fill_settle_order settle pays receives s =
     bindE (get_asset s (asset_id receives)) (\<lambda>recv_asset.
     bindE (pay_market_fees recv_asset receives s) (\<lambda>(s1, issuer_fees).
     bindE (asset_lt pays (fs_balance settle)) (\<lambda>partial.
     bindE (if partial then
              bindE (asset_sub (fs_balance settle) pays) (\<lambda>left.
              Inr (s1\<lparr>settlements := tmodify fs_id (fs_id settle) (\<lambda>r. r\<lparr>fs_balance := left\<rparr>) (settlements s1)\<rparr>))
            else Inr s1) (\<lambda>s2.
     bindE (asset_sub receives issuer_fees) (\<lambda>net.
     bindE (adjust_balance (fs_owner settle) net s2) (\<lambda>s3.
     if partial then Inr (s3, False)
     else Inr (s3\<lparr>settlements := tremove fs_id (fs_id settle) (settlements s3)\<rparr>, True)))))))"

definition cancel_settle_order :: "force_settlement_object \<Rightarrow> database \<Rightarrow> database result" where
  "cancel_settle_order ord s =
     bindE (adjust_balance (fs_owner ord) (fs_balance ord) s) (\<lambda>s'.
     Inr (s'\<lparr>settlements := tremove fs_id (fs_id ord) (settlements s')\<rparr>))"

section \<open>Matching\<close>

text \<open>The result says whether the first and whether the second order was filled.\<close>

definition match_limit_orders ::
  "limit_order_object \<Rightarrow> limit_order_object \<Rightarrow> price \<Rightarrow> database \<Rightarrow> (database \<times> bool \<times> bool) result" where
  "match_limit_orders usd core match_price s =
     (let usd_for_sale = amount_for_sale usd; core_for_sale = amount_for_sale core in
      bindE (asset_times_price core_for_sale match_price) (\<lambda>core_value.
      bindE (asset_le usd_for_sale core_value) (\<lambda>usd_smaller.
      bindE (if usd_smaller then
               bindE (asset_times_price usd_for_sale match_price) (\<lambda>usd_receives. Inr (usd_receives, usd_for_sale))
             else
               bindE (asset_times_price core_for_sale match_price) (\<lambda>core_receives. Inr (core_for_sale, core_receives)))
        (\<lambda>(usd_receives, core_receives).
      bindE (fill_limit_order usd core_receives usd_receives False s) (\<lambda>(s1, usd_filled).
      bindE (fill_limit_order core usd_receives core_receives True s1) (\<lambda>(s2, core_filled).
      Inr (s2, usd_filled, core_filled)))))))"

definition asset_min :: "asset \<Rightarrow> asset \<Rightarrow> asset result" where
  "asset_min a b = bindE (asset_lt b a) (\<lambda>c. Inr (if c then b else a))"

definition match_settlement ::
  "call_order_object \<Rightarrow> force_settlement_object \<Rightarrow> price \<Rightarrow> asset \<Rightarrow> database \<Rightarrow> (database \<times> asset) result" where
  "match_settlement call settle match_price max_settlement s =
     (if \<not> asset_id (get_debt call) = asset_id (fs_balance settle) then Inl Assert_exception
      else if \<not> (debt call > 0 \<and> collateral call > 0 \<and> amount (fs_balance settle) > 0) then Inl Assert_exception
      else bindE (asset_min (fs_balance settle) max_settlement) (\<lambda>settle_for_sale.
      bindE (asset_min settle_for_sale (get_debt call)) (\<lambda>call_receives.
      bindE (asset_times_price call_receives match_price) (\<lambda>call_pays.
      bindE (asset_lt call_pays (get_collateral call)) (\<lambda>covered.
      if \<not> covered then Inl Black_swan_exception
      else bindE (fill_call_order call call_pays call_receives s) (\<lambda>(s1, _).
      bindE (fill_settle_order settle call_receives call_pays s1) (\<lambda>(s2, _).
      Inr (s2, call_receives))))))))"

section \<open>Global settlement\<close>

definition settle_call :: "price \<Rightarrow> nat \<Rightarrow> database \<times> asset \<Rightarrow> (database \<times> asset) result" where
  "settle_call st_price i = (\<lambda>(s, collateral_gathered).
     case tfind co_id i (call_orders s) of
       None \<Rightarrow> Inl Undefined_behaviour
     | Some c \<Rightarrow>
         bindE (asset_times_price (get_debt c) st_price) (\<lambda>value.
         bindE (asset_gt value (get_collateral c)) (\<lambda>too_much.
         let pays = (if too_much then get_collateral c else value) in
         bindE (asset_add collateral_gathered pays) (\<lambda>gathered.
         bindE (fill_call_order c pays (get_debt c) s) (\<lambda>(s', filled).
         if \<not> filled then Inl Assert_exception else Inr (s', gathered))))))"

definition globally_settle_asset :: "asset_object \<Rightarrow> price \<Rightarrow> database \<Rightarrow> database result" where
  "globally_settle_asset mia st_price s =
     bindE (bitasset_data s mia) (\<lambda>bitasset.
     if \<not> \<not> has_settlement bitasset then Inl Assert_exception
     else bindE (get_asset s (short_backing_asset (bit_options bitasset))) (\<lambda>backing_asset.
     bindE (dynamic_data s mia) (\<lambda>mia_dyn.
     let original_mia_supply = current_supply mia_dyn in
     bindE (calls_of mia bitasset s) (\<lambda>calls.
     bindE (foldE (settle_call st_price) (map co_id calls) (s, asset_of 0 (as_id backing_asset)))
       (\<lambda>(s1, collateral_gathered).
     bindE (price_div (asset_of original_mia_supply (as_id mia)) collateral_gathered) (\<lambda>pr.
     Inr (s1\<lparr>bitassets := tmodify bit_id (bit_id bitasset)
               (\<lambda>b. b\<lparr>settlement_price := pr, settlement_fund := amount collateral_gathered\<rparr>) (bitassets s1),
             dyn_data := tmodify dyn_id (dyn_id mia_dyn) (\<lambda>d. d\<lparr>current_supply := original_mia_supply\<rparr>) (dyn_data s1)\<rparr>)))))))"

text \<open>The highest price a bid of the other side reaches, at least the settlement price.\<close>

definition highest_bid :: "price \<Rightarrow> limit_order_object list \<Rightarrow> price" where
  "highest_bid settle_price orders = (case orders of
     [] \<Rightarrow> settle_price
   | l # _ \<Rightarrow> if price_lt (sell_price l) settle_price then settle_price else sell_price l)"

definition check_for_blackswan :: "asset_object \<Rightarrow> bool \<Rightarrow> database \<Rightarrow> (database \<times> bool) result" where
  "check_for_blackswan mia enable_black_swan s =
     (if \<not> is_market_issued mia then Inr (s, False)
      else bindE (bitasset_data s mia) (\<lambda>bitasset.
      let settle_price = pf_settlement_price (current_feed bitasset) in
      if has_settlement bitasset then Inr (s, True)
      else if price_is_null settle_price then Inr (s, False)
      else bindE (price_max (as_id mia) (short_backing_asset (bit_options bitasset))) (\<lambda>highest_possible_bid.
      bindE (price_min (as_id mia) (short_backing_asset (bit_options bitasset))) (\<lambda>lowest_possible_bid.
      bindE (calls_of mia bitasset s) (\<lambda>calls.
      case calls of
        [] \<Rightarrow> Inr (s, False)
      | c # _ \<Rightarrow>
          let highest = highest_bid settle_price (limit_range highest_possible_bid lowest_possible_bid s)
          in bindE (collateralization c) (\<lambda>least_collateral.
             if price_ge (price_inv least_collateral) highest then
               if \<not> enable_black_swan then Inl Assert_exception
               else bindE (globally_settle_asset mia (price_inv least_collateral) s) (\<lambda>s'. Inr (s', True))
             else Inr (s, False)))))))"

section \<open>Margin calls\<close>

text \<open>What one round of the loop pays: call pays, call receives, order pays, order receives, and whether the
  limit order and the call order are filled. \<open>filled_limit\<close> keeps its value from the rounds before when the
  call order is the smaller one.\<close>

definition margin_amounts :: "limit_order_object \<Rightarrow> call_order_object \<Rightarrow> bool \<Rightarrow> (asset \<times> asset \<times> bool \<times> bool) result" where
  "margin_amounts l c filled_limit =
     (let usd_for_sale = amount_for_sale l; usd_to_buy = get_debt c in
      bindE (asset_ge usd_to_buy usd_for_sale) (\<lambda>fill_order.
      if fill_order then
        bindE (asset_times_price usd_for_sale (sell_price l)) (\<lambda>order_receives.
        Inr (order_receives, usd_for_sale, True, usd_to_buy = usd_for_sale))
      else
        bindE (asset_times_price usd_to_buy (sell_price l)) (\<lambda>order_receives.
        Inr (order_receives, usd_to_buy, filled_limit, True))))"

text \<open>One round of the loop on a limit order and a call order: the loop returns before the order is margin
  called, a black swan is settled, or both orders are filled.\<close>

datatype call_round = Round_return database | Round_swan database | Round_filled database bool bool

definition margin_round :: "asset_object \<Rightarrow> bool \<Rightarrow> bool \<Rightarrow> limit_order_object \<Rightarrow> call_order_object \<Rightarrow> database \<Rightarrow> call_round result" where
  "margin_round mia enable_black_swan filled_limit l c s =
     bindE (price_validate (sell_price l)) (\<lambda>_.
     bindE (bitasset_data s mia) (\<lambda>bitasset.
     if price_gt (pf_settlement_price (current_feed bitasset)) (price_inv (co_call_price c)) then Inr (Round_return s)
     else if price_gt (sell_price l) (price_inv (co_call_price c)) then Inr (Round_return s)
     else
       bindE (asset_times_price (get_debt c) (sell_price l)) (\<lambda>needed.
       bindE (asset_gt needed (get_collateral c)) (\<lambda>swan_detected.
       if swan_detected then
         if \<not> enable_black_swan then Inl Assert_exception
         else bindE (globally_settle_asset mia (pf_settlement_price (current_feed bitasset)) s) (\<lambda>s'. Inr (Round_swan s'))
       else
         bindE (margin_amounts l c filled_limit) (\<lambda>(order_receives, order_pays, filled_limit', filled_call).
         if \<not> (filled_call \<or> filled_limit') then Inl Assert_exception
         else
           bindE (fill_call_order c order_receives order_pays s) (\<lambda>(s1, _).
           bindE (fill_limit_order l order_pays order_receives True s1) (\<lambda>(s2, _).
           Inr (Round_filled s2 filled_limit' filled_call))))))))"

lemma margin_round_progress:
  "margin_round mia en fl l c s = Inr (Round_filled s2 fl' fc) \<Longrightarrow> fl' \<or> fc"
  by (auto simp: margin_round_def split: if_splits)

function check_call_loop ::
  "asset_object \<Rightarrow> bool \<Rightarrow> bool \<Rightarrow> bool \<Rightarrow> nat list \<Rightarrow> nat list \<Rightarrow> database \<Rightarrow> (database \<times> bool) result" where
  "check_call_loop mia enable_black_swan filled_limit margin_called limits calls s0 =
     bindE (check_for_blackswan mia enable_black_swan s0) (\<lambda>(s, swan).
     if swan then Inr (s, margin_called)
     else case calls of [] \<Rightarrow> Inr (s, margin_called) | ci # cs \<Rightarrow>
     case limits of [] \<Rightarrow> Inr (s, margin_called) | li # ls \<Rightarrow>
     case tfind lo_id li (limit_orders s) of None \<Rightarrow> Inl Undefined_behaviour | Some l \<Rightarrow>
     case tfind co_id ci (call_orders s) of None \<Rightarrow> Inl Undefined_behaviour | Some c \<Rightarrow>
     bindE (margin_round mia enable_black_swan filled_limit l c s) (\<lambda>r. case r of
       Round_return s' \<Rightarrow> Inr (s', margin_called)
     | Round_swan s' \<Rightarrow> Inr (s', True)
     | Round_filled s' filled_limit' filled_call \<Rightarrow>
         check_call_loop mia enable_black_swan filled_limit' True
           (if filled_limit' then ls else limits) (if filled_call then cs else calls) s'))"
  by pat_completeness auto
termination
  by (relation "measure (\<lambda>(mia, en, fl, mc, limits, calls, s). length limits + length calls)")
    (auto split: if_splits dest: margin_round_progress)

declare check_call_loop.simps [simp del]

definition check_call_orders :: "asset_object \<Rightarrow> bool \<Rightarrow> database \<Rightarrow> (database \<times> bool) result" where
  "check_call_orders mia enable_black_swan s0 =
     (if \<not> is_market_issued mia then Inr (s0, False)
      else bindE (check_for_blackswan mia enable_black_swan s0) (\<lambda>(s, swan).
      if swan then Inr (s, False)
      else bindE (bitasset_data s mia) (\<lambda>bitasset.
      if price_is_null (pf_settlement_price (current_feed bitasset)) then Inr (s, False)
      else bindE (price_max (as_id mia) (short_backing_asset (bit_options bitasset))) (\<lambda>max_price.
      bindE (max_short_squeeze_price (current_feed bitasset)) (\<lambda>min_price.
      case limit_range max_price min_price s of
        [] \<Rightarrow> Inr (s, False)
      | l # ls \<Rightarrow>
          bindE (calls_of mia bitasset s) (\<lambda>calls.
          check_call_loop mia enable_black_swan False False (map lo_id (l # ls)) (map co_id calls) s))))))"

section \<open>New orders\<close>

text \<open>Match the new order with the orders of the other side until it is filled or an old order was not
  filled alone.\<close>

fun match_loop :: "nat \<Rightarrow> nat list \<Rightarrow> database \<Rightarrow> database result" where
  "match_loop order_id [] s = Inr s"
| "match_loop order_id (i # is) s =
     (case tfind lo_id order_id (limit_orders s) of None \<Rightarrow> Inl Undefined_behaviour | Some new_order \<Rightarrow>
      case tfind lo_id i (limit_orders s) of None \<Rightarrow> Inl Undefined_behaviour | Some old_order \<Rightarrow>
      bindE (match_limit_orders new_order old_order (sell_price old_order) s) (\<lambda>(s1, new_filled, old_filled).
      if \<not> new_filled \<and> old_filled then match_loop order_id is s1 else Inr s1))"

definition check_both_sides :: "asset_object \<Rightarrow> asset_object \<Rightarrow> bool \<Rightarrow> database \<Rightarrow> (database \<times> bool) result" where
  "check_both_sides sell_asset receive_asset allow_black_swan s =
     bindE (check_call_orders sell_asset allow_black_swan s) (\<lambda>(s1, called1).
     bindE (check_call_orders receive_asset allow_black_swan s1) (\<lambda>(s2, called2).
     Inr (s2, called1 \<or> called2)))"

definition apply_order :: "nat \<Rightarrow> bool \<Rightarrow> database \<Rightarrow> (database \<times> bool) result" where
  "apply_order order_id allow_black_swan s =
     (case tfind lo_id order_id (limit_orders s) of None \<Rightarrow> Inl Undefined_behaviour | Some new_order \<Rightarrow>
      bindE (get_asset s (asset_id (amount_for_sale new_order))) (\<lambda>sell_asset.
      bindE (amount_to_receive new_order) (\<lambda>receive.
      bindE (get_asset s (asset_id receive)) (\<lambda>receive_asset.
      bindE (check_both_sides sell_asset receive_asset allow_black_swan s) (\<lambda>(s1, called_some).
      if called_some \<and> tfind lo_id order_id (limit_orders s1) = None then Inr (s1, True)
      else
        let max_price = price_inv (sell_price new_order) in
        bindE (price_max (asset_id (base max_price)) (asset_id (quote max_price))) (\<lambda>highest.
        bindE (match_loop order_id (map lo_id (limit_range highest max_price s1)) s1) (\<lambda>s2.
        bindE (check_both_sides sell_asset receive_asset allow_black_swan s2) (\<lambda>(s3, _).
        case tfind lo_id order_id (limit_orders s3) of
          None \<Rightarrow> Inr (s3, True)
        | Some updated_order \<Rightarrow> maybe_cull_small_order updated_order s3))))))))"

section \<open>Bids and revival\<close>

definition cancel_bid :: "collateral_bid_object \<Rightarrow> database \<Rightarrow> database result" where
  "cancel_bid bid s =
     bindE (adjust_balance (bidder bid) (base (inv_swan_price bid)) s) (\<lambda>s'.
     Inr (s'\<lparr>bids := tremove cb_id (cb_id bid) (bids s')\<rparr>))"

definition execute_bid :: "collateral_bid_object \<Rightarrow> share_type \<Rightarrow> share_type \<Rightarrow> price_feed \<Rightarrow> database \<Rightarrow> database result" where
  "execute_bid bid debt_covered collateral_from_fund feed s =
     bindE (safe_add (amount (base (inv_swan_price bid))) collateral_from_fund) (\<lambda>col.
     bindE (call_price (asset_of debt_covered (asset_id (quote (inv_swan_price bid))))
              (asset_of col (asset_id (base (inv_swan_price bid)))) (maintenance_collateral_ratio feed)) (\<lambda>cp.
     let s1 = s\<lparr>call_orders := tcreate (\<lambda>i. \<lparr>co_id = i, borrower = bidder bid, collateral = col, debt = debt_covered,
                co_call_price = cp\<rparr>) (call_orders s)\<rparr> in
     bindE (if asset_id (base (inv_swan_price bid)) = core_asset
            then bindE (get_account s1 (bidder bid)) (\<lambda>ao. add_core_in_orders ao col s1) else Inr s1) (\<lambda>s2.
     Inr (s2\<lparr>bids := tremove cb_id (cb_id bid) (bids s2)\<rparr>))))"

definition bids_of :: "nat \<Rightarrow> price \<Rightarrow> database \<Rightarrow> collateral_bid_object list" where
  "bids_of a highest s =
     takeWhile (\<lambda>r. asset_id (quote (inv_swan_price r)) = a)
       (lower_bound (\<lambda>r. asset_id (quote (inv_swan_price r)) < a \<or>
            asset_id (quote (inv_swan_price r)) = a \<and> price_gt (inv_swan_price r) highest)
         (index_by bid_lt (rows (bids s))))"

definition cancel_bid_id :: "nat \<Rightarrow> database \<Rightarrow> database result" where
  "cancel_bid_id i s = (case tfind cb_id i (bids s) of None \<Rightarrow> Inl Undefined_behaviour | Some b \<Rightarrow> cancel_bid b s)"

definition cancel_bids_and_revive_mpa :: "asset_object \<Rightarrow> asset_bitasset_data_object \<Rightarrow> database \<Rightarrow> database result" where
  "cancel_bids_and_revive_mpa bitasset bad s =
     (if \<not> is_market_issued bitasset then Inl Assert_exception
      else if \<not> has_settlement bad then Inl Assert_exception
      else bindE (price_max (short_backing_asset (bit_options bad)) (as_id bitasset)) (\<lambda>highest.
      bindE (foldE cancel_bid_id (map cb_id (bids_of (as_id bitasset) highest s)) s) (\<lambda>s1.
      Inr (s1\<lparr>bitassets := tmodify bit_id (bit_id bad)
              (\<lambda>b. b\<lparr>settlement_price := null_price, settlement_fund := 0\<rparr>) (bitassets s1)\<rparr>))))"

definition revive_bitasset :: "asset_object \<Rightarrow> database \<Rightarrow> database result" where
  "revive_bitasset bitasset s =
     (if \<not> is_market_issued bitasset then Inl Assert_exception
      else bindE (bitasset_data s bitasset) (\<lambda>bad.
      if \<not> has_settlement bad then Inl Assert_exception
      else bindE (dynamic_data s bitasset) (\<lambda>bdd.
      if \<not> \<not> price_is_null (pf_settlement_price (current_feed bad)) then Inl Assert_exception
      else bindE
        (if current_supply bdd > 0 then
           bindE (price_div (asset_of 0 (short_backing_asset (bit_options bad)))
                    (asset_of (current_supply bdd) (as_id bitasset))) (\<lambda>pr.
           let bid = \<lparr>cb_id = next_id (bids s), bidder = as_issuer bitasset, inv_swan_price = pr\<rparr>;
               s1 = s\<lparr>bids := tcreate (\<lambda>i. bid\<lparr>cb_id := i\<rparr>) (bids s)\<rparr>
           in execute_bid bid (current_supply bdd) (settlement_fund bad) (current_feed bad) s1)
         else if \<not> settlement_fund bad = 0 then Inl Assert_exception else Inr s)
        (cancel_bids_and_revive_mpa bitasset bad))))"

section \<open>Effects of the single operations\<close>

text \<open>\<open>moves dt s s'\<close>: well-formedness is kept, the asset objects are untouched and the imbalances change
  by \<open>dt\<close>.\<close>

definition moves :: "(nat \<Rightarrow> int) \<Rightarrow> database \<Rightarrow> database \<Rightarrow> bool" where
  "moves dt s s' \<longleftrightarrow> assets s' = assets s \<and> (db_wf s \<longrightarrow> db_wf s' \<and> flow dt s s')"

lemma moves_refl: "moves no_flow s s"
  by (simp add: moves_def flow_refl)

lemma moves_trans: "moves d1 s s1 \<Longrightarrow> moves d2 s1 s2 \<Longrightarrow> (\<And>a. d a = d1 a + d2 a) \<Longrightarrow> moves d s s2"
  unfolding moves_def using flow_trans by metis

lemma moves_no_trans: "moves no_flow s s1 \<Longrightarrow> moves no_flow s1 s2 \<Longrightarrow> moves no_flow s s2"
  by (erule (1) moves_trans) (simp add: no_flow_def)

lemma moves_assets: "moves d s s' \<Longrightarrow> assets s' = assets s"
  by (simp add: moves_def)

lemma moves_get_asset: "moves d s s' \<Longrightarrow> get_asset s' i = get_asset s i"
  by (simp add: moves_def get_asset_def)

lemma adjust_balance_shape:
  "adjust_balance_gas g account x s = Inr s' \<Longrightarrow> \<exists>t. s' = s\<lparr>balances := t\<rparr>"
  by (cases "amount x = 0") (auto simp: adjust_balance_gas_def split: option.splits intro: exI [of _ "balances s"])

lemma adjust_shape:
  assumes "adjust_balance account x s = Inr s'"
  obtains t where "s' = s\<lparr>balances := t\<rparr>"
  using assms adjust_balance_shape that unfolding adjust_balance_def by blast

lemma adjust_balance_frame [chain_frame]:
  assumes "adjust_balance account x s = Inr s'"
  shows "limit_orders s' = limit_orders s" "call_orders s' = call_orders s" "settlements s' = settlements s"
    "bids s' = bids s" "assets s' = assets s" "dyn_data s' = dyn_data s" "bitassets s' = bitassets s"
    "accounts s' = accounts s" "statistics s' = statistics s" "head_block_time s' = head_block_time s"
  using adjust_balance_shape assms by (fastforce simp: adjust_balance_def)+

lemma adjust_balance_moves: "adjust_balance account x s = Inr s' \<Longrightarrow> moves (\<lambda>a. amt a x) s s'"
  using adjust_balance_flow [of s False account x s'] adjust_balance_frame [of account x s s']
  by (auto simp: moves_def adjust_balance_def)

lemma core_in_orders_frame [chain_frame]:
  assumes "sub_core_in_orders ao v s = Inr s' \<or> add_core_in_orders ao v s = Inr s'"
  shows "limit_orders s' = limit_orders s" "call_orders s' = call_orders s" "settlements s' = settlements s"
    "bids s' = bids s" "assets s' = assets s" "dyn_data s' = dyn_data s" "bitassets s' = bitassets s"
    "balances s' = balances s"
  using assms by (auto simp: sub_core_in_orders_def add_core_in_orders_def)

lemma statistics_moves:
  "(\<And>r. st_id (f r) = st_id r) \<Longrightarrow> moves no_flow s (s\<lparr>statistics := tmodify st_id i f (statistics s)\<rparr>)"
  by (auto simp: moves_def db_wf_def table_wf_modify chain_frame no_flow_def intro!: flow_eqI)

lemma core_in_orders_moves:
  assumes "sub_core_in_orders ao v s = Inr s' \<or> add_core_in_orders ao v s = Inr s'"
  shows "moves no_flow s s'"
  using assms by (auto simp: sub_core_in_orders_def add_core_in_orders_def intro!: statistics_moves)

lemma dyn_shape:
  assumes "add_fees ao v s = Inr s' \<or> add_supply ao v s = Inr s' \<or> sub_supply ao v s = Inr s'"
  shows "\<exists>t. s' = s\<lparr>dyn_data := t\<rparr>"
  using assms by (auto simp: add_fees_def add_supply_def sub_supply_def)

lemma dyn_frame [chain_frame]:
  assumes "add_fees ao v s = Inr s' \<or> add_supply ao v s = Inr s' \<or> sub_supply ao v s = Inr s'"
  shows "limit_orders s' = limit_orders s" "call_orders s' = call_orders s" "settlements s' = settlements s"
    "bids s' = bids s" "assets s' = assets s" "bitassets s' = bitassets s" "balances s' = balances s"
    "accounts s' = accounts s" "statistics s' = statistics s"
  using dyn_shape [OF assms] by auto

lemma add_fees_moves: "get_asset s i = Inr ao \<Longrightarrow> add_fees ao v s = Inr s' \<Longrightarrow> moves (\<lambda>a. amt a (asset_of v i)) s s'"
  using add_fees_flow [of s i ao v s'] dyn_frame [of ao v s s'] by (auto simp: moves_def)

lemma add_supply_moves: "get_asset s i = Inr ao \<Longrightarrow> add_supply ao v s = Inr s' \<Longrightarrow> moves (\<lambda>a. amt a (asset_of (- v) i)) s s'"
  using add_supply_flow [of s i ao v s'] dyn_frame [of ao v s s'] by (auto simp: moves_def)

lemma sub_supply_moves: "get_asset s i = Inr ao \<Longrightarrow> sub_supply ao v s = Inr s' \<Longrightarrow> moves (\<lambda>a. amt a (asset_of v i)) s s'"
  using sub_supply_flow [of s i ao v s'] dyn_frame [of ao v s s'] by (auto simp: moves_def)

lemma get_asset_id: "get_asset s i = Inr ao \<Longrightarrow> as_id ao = i"
  by (simp add: get_asset_def tfind_id)

lemma calculate_market_fee_id: "calculate_market_fee ao x = Inr f \<Longrightarrow> asset_id f = as_id ao"
  by (auto simp: calculate_market_fee_def split: if_splits)

lemma market_fee_div_range:
  assumes "0 \<le> (x::int)" "0 \<le> p" "p \<le> GRAPHENE_100_PERCENT"
  shows "0 \<le> x * p div GRAPHENE_100_PERCENT" "x * p div GRAPHENE_100_PERCENT \<le> x"
  using linear_share_bounds [of x p GRAPHENE_100_PERCENT] assms by (simp_all add: chain_constants)

text \<open>A market fee is never negative and never more than what it is taken from.\<close>

lemma calculate_market_fee_range:
  assumes "calculate_market_fee ao x = Inr f" "fee_options_ok (as_options ao)" "0 \<le> amount x" "amount x \<le> int64_max"
  shows "0 \<le> amount f" "amount f \<le> amount x"
proof -
  let ?p = "market_fee_percent (as_options ao)"
  have p: "0 \<le> ?p" "?p \<le> GRAPHENE_100_PERCENT" using assms(2) by (simp_all add: fee_options_ok_def)
  have u: "u128 (amount x) = amount x" using assms(3,4) by (intro u128_id) (auto simp: int64_max_def)
  have "amount x * ?p \<le> int64_max * GRAPHENE_100_PERCENT" using assms(3,4) p by (intro mult_mono) (auto simp: int64_max_def)
  then have "u128 (amount x * ?p) = amount x * ?p"
    using assms(3) p by (intro u128_id) (auto simp: int64_max_def chain_constants)
  moreover have r: "0 \<le> amount x * ?p div GRAPHENE_100_PERCENT" "amount x * ?p div GRAPHENE_100_PERCENT \<le> amount x"
    using market_fee_div_range assms(3) p by auto
  then have "to_share (amount x * ?p div GRAPHENE_100_PERCENT) = Inr (amount x * ?p div GRAPHENE_100_PERCENT)"
    using assms(4) by (simp add: to_share_def signed64_def int64_max_def)
  ultimately show "0 \<le> amount f" "amount f \<le> amount x"
    using assms r u by (auto simp: calculate_market_fee_def fee_options_ok_def split: if_splits)
qed

lemma pay_market_fees_moves:
  assumes "get_asset s (asset_id x) = Inr ao" "pay_market_fees ao x s = Inr (s', f)" "0 \<le> amount x" "amount x \<le> int64_max"
  shows "moves (\<lambda>a. amt a f) s s'" "asset_id f = asset_id x" "\<exists>t. s' = s\<lparr>dyn_data := t\<rparr>"
proof -
  have f: "calculate_market_fee ao x = Inr f" using assms(2) by (auto simp: pay_market_fees_def split: if_splits)
  then show id: "asset_id f = asset_id x"
    using calculate_market_fee_id [OF f] get_asset_id [OF assms(1)] by simp
  have ao: "db_wf s \<Longrightarrow> fee_options_ok (as_options ao)"
    using assms(1) by (auto simp: get_asset_def db_wf_def dest: tfind_SomeD)
  show "moves (\<lambda>a. amt a f) s s'"
  proof (cases "amount f > 0")
    case True
    then have "add_fees ao (amount f) s = Inr s'" using assms(2) f by (auto simp: pay_market_fees_def)
    moreover have "asset_of (amount f) (asset_id x) = f" using id by (auto intro: asset_eqI)
    ultimately show ?thesis using add_fees_moves [OF assms(1)] by (metis)
  next
    case False
    then have s': "s' = s" using assms(2) f by (auto simp: pay_market_fees_def)
    have "amount f = 0" if "db_wf s"
      using False calculate_market_fee_range(1) [OF f ao [OF that] assms(3,4)] by simp
    then show ?thesis
      unfolding s' moves_def using flow_refl amt_zero by metis
  qed
  show "\<exists>t. s' = s\<lparr>dyn_data := t\<rparr>"
    using assms(2) f dyn_shape [of ao "amount f" s s'] by (auto simp: pay_market_fees_def split: if_splits intro: exI [of _ "dyn_data s"])
qed

lemma pay_order_moves:
  assumes "pay_order ao x y s = Inr s'"
  shows "moves (\<lambda>a. amt a x) s s'" "\<exists>t u. s' = s\<lparr>statistics := t, balances := u\<rparr>"
proof -
  from assms obtain s1 where s1: "sub_core_in_orders ao (if asset_id y = core_asset then amount y else 0) s = Inr s1"
    "adjust_balance (acc_id ao) x s1 = Inr s'"
    by (auto simp: pay_order_def)
  from core_in_orders_moves [OF disjI1 [OF s1(1)]] adjust_balance_moves [OF s1(2)]
  show "moves (\<lambda>a. amt a x) s s'" by (rule moves_trans) (simp add: no_flow_def)
  from s1 adjust_balance_shape show "\<exists>t u. s' = s\<lparr>statistics := t, balances := u\<rparr>"
    by (fastforce simp: sub_core_in_orders_def adjust_balance_def)
qed

subsection \<open>Limit orders\<close>

lemma limit_remove_effect:
  assumes "db_wf s" "tfind lo_id i (limit_orders s) = Some ord" "s' = s\<lparr>limit_orders := tremove lo_id i (limit_orders s)\<rparr>"
  shows "db_wf s'" "imbalance a s' = imbalance a s - amt a (amount_for_sale ord)"
    "deferred (limit_orders s') = deferred (limit_orders s) - (case deferred_fee ord of None \<Rightarrow> 0 | Some f \<Rightarrow> f)"
proof -
  have wf: "table_wf lo_id (limit_orders s)" using assms(1) by (simp add: db_wf_def limit_wf_def)
  show "db_wf s'" using assms(1,3) by (simp add: db_wf_def limit_wf_remove)
  show "imbalance a s' = imbalance a s - amt a (amount_for_sale ord)"
    unfolding assms(3) using tsum_remove [OF wf assms(2)] by (simp add: chain_frame held_limit_def)
  show "deferred (limit_orders s') = deferred (limit_orders s) - (case deferred_fee ord of None \<Rightarrow> 0 | Some f \<Rightarrow> f)"
    unfolding assms(3) using tsum_remove [OF wf assms(2)] by (simp add: deferred_def)
qed

lemma limit_order_okD: "db_wf s \<Longrightarrow> tfind lo_id i (limit_orders s) = Some ord \<Longrightarrow> limit_order_ok ord"
  by (auto simp: db_wf_def limit_wf_def dest: tfind_SomeD)

lemma limit_remove_moves:
  assumes "tfind lo_id i (limit_orders s) = Some ord"
  shows "moves (\<lambda>a. - amt a (amount_for_sale ord)) s (s\<lparr>limit_orders := tremove lo_id i (limit_orders s)\<rparr>)"
proof -
  have "0 \<le> (case deferred_fee ord of None \<Rightarrow> 0 | Some f \<Rightarrow> f)" if "db_wf s"
    using limit_order_okD [OF that assms] by (auto simp: limit_order_ok_def split: option.splits)
  then show ?thesis
    using limit_remove_effect [OF _ assms refl] by (auto simp: moves_def intro!: flow_eqI)
qed

lemma limit_modify_moves:
  assumes "tfind lo_id i (limit_orders s) = Some ord" "limit_order_ok ord \<Longrightarrow> 0 \<le> v \<and> v \<le> int64_max"
  shows "moves (\<lambda>a. amt a (asset_of (v - for_sale ord) (asset_id (base (sell_price ord))))) s
    (s\<lparr>limit_orders := tmodify lo_id i (\<lambda>r. r\<lparr>for_sale := v\<rparr>) (limit_orders s)\<rparr>)"
proof -
  let ?t = "tmodify lo_id i (\<lambda>r. r\<lparr>for_sale := v\<rparr>) (limit_orders s)"
  have "limit_wf ?t" if "db_wf s"
    using that assms limit_order_okD [OF that assms(1)]
    by (intro limit_wf_modify) (auto simp: db_wf_def limit_order_ok_def)
  moreover have "held_limit a ?t = held_limit a (limit_orders s) +
      amt a (asset_of (v - for_sale ord) (asset_id (base (sell_price ord))))" if "db_wf s" for a
    using that tsum_modify [of lo_id "limit_orders s" i ord] assms(1)
    by (simp add: db_wf_def limit_wf_def held_limit_def amount_for_sale_def)
  moreover have "deferred ?t = deferred (limit_orders s)" if "db_wf s"
    using that tsum_modify [of lo_id "limit_orders s" i ord] assms(1)
    by (simp add: db_wf_def limit_wf_def deferred_def)
  ultimately show ?thesis
    by (auto simp: moves_def db_wf_def chain_frame intro!: flow_eqI simp del: amt_simps)
qed

lemma flow_exact:
  "flow d s s' \<Longrightarrow> deferred (limit_orders s') = deferred (limit_orders s) \<Longrightarrow> imbalance a s' = imbalance a s + d a"
  by (cases "a = core_asset") (auto simp: flow_def)

lemma moves_exact:
  "moves d s s' \<Longrightarrow> db_wf s \<Longrightarrow> limit_orders s' = limit_orders s \<Longrightarrow> db_wf s' \<and> (\<forall>a. imbalance a s' = imbalance a s + d a)"
  by (auto simp: moves_def flow_exact)

definition fee_of :: "limit_order_object \<Rightarrow> int" where
  "fee_of ord = (case deferred_fee ord of None \<Rightarrow> 0 | Some f \<Rightarrow> f)"

lemma cancel_limit_steps:
  assumes "cancel_limit_order ord s = Inr s'"
  obtains seller s1 s2 s3 where "get_account s (lo_seller ord) = Inr seller"
    "sub_core_in_orders seller (if asset_id (amount_for_sale ord) = core_asset then amount (amount_for_sale ord) else 0) s = Inr s1"
    "adjust_balance (lo_seller ord) (amount_for_sale ord) s1 = Inr s2"
    "moves (\<lambda>a. amt a (asset_of (fee_of ord) core_asset)) s2 s3" "limit_orders s3 = limit_orders s"
    "s' = s3\<lparr>limit_orders := tremove lo_id (lo_id ord) (limit_orders s3)\<rparr>"
    "\<exists>t u. s3 = s\<lparr>statistics := t, balances := u\<rparr>"
proof -
  from assms obtain seller s1 s2 s3 where st: "get_account s (lo_seller ord) = Inr seller"
    "sub_core_in_orders seller (if asset_id (amount_for_sale ord) = core_asset then amount (amount_for_sale ord) else 0) s = Inr s1"
    "adjust_balance (lo_seller ord) (amount_for_sale ord) s1 = Inr s2"
    "(case deferred_fee ord of None \<Rightarrow> Inr s2 | Some f \<Rightarrow> adjust_balance (lo_seller ord) (asset_of f core_asset) s2) = Inr s3"
    "s' = s3\<lparr>limit_orders := tremove lo_id (lo_id ord) (limit_orders s3)\<rparr>"
    by (auto simp: cancel_limit_order_def Let_def)
  obtain t where t: "s1 = s\<lparr>statistics := t\<rparr>" using st(2) by (auto simp: sub_core_in_orders_def)
  obtain u where u: "s2 = s1\<lparr>balances := u\<rparr>" using st(3) by (rule adjust_shape)
  have "\<exists>t. s3 = s2\<lparr>balances := t\<rparr>"
    using st(4) adjust_balance_shape [of False] by (cases "deferred_fee ord") (auto simp: adjust_balance_def intro: exI [of _ "balances s2"])
  then obtain v where "s3 = s2\<lparr>balances := v\<rparr>" by blast
  with t u have "s3 = s\<lparr>statistics := t, balances := v\<rparr>" by simp
  then have sh: "\<exists>t u. s3 = s\<lparr>statistics := t, balances := u\<rparr>" by blast
  have "moves (\<lambda>a. amt a (asset_of (fee_of ord) core_asset)) s2 s3"
  proof (cases "deferred_fee ord")
    case None
    then show ?thesis using st(4) amt_zero [of "asset_of 0 core_asset"] by (simp add: fee_of_def moves_refl del: amt_simps)
  next
    case (Some f)
    then show ?thesis using st(4) adjust_balance_moves by (simp add: fee_of_def del: amt_simps)
  qed
  moreover have "limit_orders s3 = limit_orders s" using sh by auto
  ultimately show thesis using that st(1-3,5) sh by blast
qed

text \<open>Cancelling an order pays the deferred fee out a second time: it is not part of any holding.\<close>

lemma cancel_limit_effect:
  assumes "db_wf s" "tfind lo_id (lo_id ord) (limit_orders s) = Some ord" "cancel_limit_order ord s = Inr s'"
  shows "db_wf s'" "imbalance a s' = imbalance a s + (if a = core_asset then fee_of ord else 0)"
    "deferred (limit_orders s') = deferred (limit_orders s) - fee_of ord"
proof -
  from assms(3) obtain seller s1 s2 s3 where st: "get_account s (lo_seller ord) = Inr seller"
    "sub_core_in_orders seller (if asset_id (amount_for_sale ord) = core_asset then amount (amount_for_sale ord) else 0) s = Inr s1"
    "adjust_balance (lo_seller ord) (amount_for_sale ord) s1 = Inr s2"
    "moves (\<lambda>a. amt a (asset_of (fee_of ord) core_asset)) s2 s3" "limit_orders s3 = limit_orders s"
    "s' = s3\<lparr>limit_orders := tremove lo_id (lo_id ord) (limit_orders s3)\<rparr>"
    by (rule cancel_limit_steps)
  have m: "moves (\<lambda>a. amt a (amount_for_sale ord) + amt a (asset_of (fee_of ord) core_asset)) s s3"
    by (rule moves_trans [OF moves_trans [OF core_in_orders_moves [OF disjI1 [OF st(2)]] adjust_balance_moves [OF st(3)] refl]
          st(4)]) (simp add: no_flow_def)
  from moves_exact [OF m assms(1) st(5)] have w3: "db_wf s3" and
    i3: "imbalance a s3 = imbalance a s + (amt a (amount_for_sale ord) + amt a (asset_of (fee_of ord) core_asset))"
    by blast+
  have t: "tfind lo_id (lo_id ord) (limit_orders s3) = Some ord" using assms(2) st(5) by simp
  note r = limit_remove_effect [OF w3 t st(6)]
  show "db_wf s'" by (rule r)
  show "imbalance a s' = imbalance a s + (if a = core_asset then fee_of ord else 0)" using r(2) i3 by auto
  show "deferred (limit_orders s') = deferred (limit_orders s) - fee_of ord" using r(3) st(5) by (simp add: fee_of_def)
qed

lemma cancel_limit_moves:
  assumes "tfind lo_id (lo_id ord) (limit_orders s) = Some ord" "cancel_limit_order ord s = Inr s'"
  shows "moves no_flow s s'"
proof -
  have "assets s' = assets s" using assms(2) by (rule cancel_limit_steps) auto
  moreover have "0 \<le> fee_of ord" if "db_wf s"
    using limit_order_okD [OF that assms(1)] by (auto simp: fee_of_def limit_order_ok_def split: option.splits)
  ultimately show ?thesis
    using cancel_limit_effect [OF _ assms] by (auto simp: moves_def flow_def no_flow_def)
qed

lemma maybe_cull_moves:
  assumes "tfind lo_id (lo_id ord) (limit_orders s) = Some ord" "maybe_cull_small_order ord s = Inr (s', b)"
  shows "moves no_flow s s'"
  using assms cancel_limit_moves by (auto simp: maybe_cull_small_order_def moves_refl split: if_splits)

lemma fill_limit_steps:
  assumes "fill_limit_order ord pays receives cull s = Inr (s', b)"
  obtains seller recv s1 fees net s2 where
    "asset_id pays = asset_id (base (sell_price ord))" "asset_id pays \<noteq> asset_id receives"
    "get_asset s (asset_id receives) = Inr recv" "pay_market_fees recv receives s = Inr (s1, fees)"
    "asset_sub receives fees = Inr net" "pay_order seller net pays s1 = Inr s2"
    "pays = amount_for_sale ord \<and> s' = s2\<lparr>limit_orders := tremove lo_id (lo_id ord) (limit_orders s2)\<rparr> \<and> b \<or>
     pays \<noteq> amount_for_sale ord \<and> safe_sub (for_sale ord) (amount pays) = Inr (for_sale ord - amount pays) \<and>
     (let s3 = s2\<lparr>limit_orders := tmodify lo_id (lo_id ord) (\<lambda>r. r\<lparr>for_sale := for_sale ord - amount pays\<rparr>) (limit_orders s2)\<rparr> in
      if cull then maybe_cull_small_order (ord\<lparr>for_sale := for_sale ord - amount pays\<rparr>) s3 = Inr (s', b) else s' = s3 \<and> \<not> b)"
proof -
  from assms have ids: "asset_id pays = asset_id (base (sell_price ord))" "asset_id pays \<noteq> asset_id receives"
    by (auto simp: fill_limit_order_def amount_for_sale_def split: if_splits)
  with assms obtain seller recv s1 fees net s2 where
    "get_asset s (asset_id receives) = Inr recv" "pay_market_fees recv receives s = Inr (s1, fees)"
    "asset_sub receives fees = Inr net" "pay_order seller net pays s1 = Inr s2"
    "(if pays = amount_for_sale ord
      then Inr (s2\<lparr>limit_orders := tremove lo_id (lo_id ord) (limit_orders s2)\<rparr>, True)
      else
        bindE (safe_sub (for_sale ord) (amount pays)) (\<lambda>left.
        let s3 = s2\<lparr>limit_orders := tmodify lo_id (lo_id ord) (\<lambda>r. r\<lparr>for_sale := left\<rparr>) (limit_orders s2)\<rparr> in
        if cull then maybe_cull_small_order (ord\<lparr>for_sale := left\<rparr>) s3 else Inr (s3, False))) = Inr (s', b)"
    by (auto simp: fill_limit_order_def)
  with ids that show thesis by (auto simp: Let_def split: if_splits)
qed

lemma asset_sub_amt: "asset_sub x y = Inr z \<Longrightarrow> amt a z = amt a x - amt a y"
  by (auto simp: asset_sub_def amt_def split: if_splits)

lemma fill_limit_moves:
  assumes "tfind lo_id (lo_id ord) (limit_orders s) = Some ord" "fill_limit_order ord pays receives cull s = Inr (s', b)"
    "0 \<le> amount receives" "amount receives \<le> int64_max" "limit_order_ok ord \<Longrightarrow> amount pays \<le> for_sale ord"
  shows "moves (asset_flow receives pays) s s'"
  using assms(2)
proof (rule fill_limit_steps)
  fix seller recv s1 fees net s2
  assume st: "asset_id pays = asset_id (base (sell_price ord))" "asset_id pays \<noteq> asset_id receives"
    "get_asset s (asset_id receives) = Inr recv" "pay_market_fees recv receives s = Inr (s1, fees)"
    "asset_sub receives fees = Inr net" "pay_order seller net pays s1 = Inr s2"
  note pm = pay_market_fees_moves [OF st(3,4) assms(3,4)] and po = pay_order_moves [OF st(6)]
  have m2: "moves (\<lambda>a. amt a receives) s s2"
    by (rule moves_trans [OF pm(1) po(1)]) (simp add: asset_sub_amt [OF st(5)])
  have lo: "limit_orders s2 = limit_orders s" using pm(3) po(2) by auto
  have t2: "tfind lo_id (lo_id ord) (limit_orders s2) = Some ord" using assms(1) lo by simp
  let ?left = "for_sale ord - amount pays"
  let ?s3 = "s2\<lparr>limit_orders := tmodify lo_id (lo_id ord) (\<lambda>r. r\<lparr>for_sale := ?left\<rparr>) (limit_orders s2)\<rparr>"
  assume "pays = amount_for_sale ord \<and> s' = s2\<lparr>limit_orders := tremove lo_id (lo_id ord) (limit_orders s2)\<rparr> \<and> b \<or>
    pays \<noteq> amount_for_sale ord \<and> safe_sub (for_sale ord) (amount pays) = Inr ?left \<and>
    (let s3 = ?s3 in if cull then maybe_cull_small_order (ord\<lparr>for_sale := ?left\<rparr>) s3 = Inr (s', b) else s' = s3 \<and> \<not> b)"
  then consider "pays = amount_for_sale ord" "s' = s2\<lparr>limit_orders := tremove lo_id (lo_id ord) (limit_orders s2)\<rparr>"
    | "safe_sub (for_sale ord) (amount pays) = Inr ?left"
      "cull \<and> maybe_cull_small_order (ord\<lparr>for_sale := ?left\<rparr>) ?s3 = Inr (s', b) \<or> s' = ?s3"
    by (auto simp: Let_def split: if_splits)
  then show ?thesis
  proof cases
    case 1
    with moves_trans [OF m2 limit_remove_moves [OF t2]] show ?thesis by (simp add: asset_flow_def)
  next
    case 2
    have "0 \<le> ?left \<and> ?left \<le> int64_max" if "limit_order_ok ord"
      using assms(5) [OF that] that 2(1) by (auto simp: limit_order_ok_def)
    from limit_modify_moves [OF t2 this]
    have m3: "moves (\<lambda>a. amt a (asset_of (?left - for_sale ord) (asset_id (base (sell_price ord))))) s2 ?s3" .
    have m3': "moves (asset_flow receives pays) s ?s3"
      by (rule moves_trans [OF m2 m3]) (use st(1) in \<open>simp add: asset_flow_def amt_def\<close>)
    have "tfind lo_id (lo_id (ord\<lparr>for_sale := ?left\<rparr>)) (limit_orders ?s3) = Some (ord\<lparr>for_sale := ?left\<rparr>)"
      using t2 by (simp add: tfind_modify)
    from maybe_cull_moves [OF this] 2(2) have "moves no_flow ?s3 s'" using moves_refl by blast
    with m3' show ?thesis by (rule moves_trans) (simp add: no_flow_def)
  qed
qed

lemma cancel_limit_shape:
  "cancel_limit_order ord s = Inr s' \<Longrightarrow>
    \<exists>t u. s' = s\<lparr>statistics := t, balances := u, limit_orders := tremove lo_id (lo_id ord) (limit_orders s)\<rparr>"
  by (erule cancel_limit_steps) auto

definition only_limit :: "nat \<Rightarrow> database \<Rightarrow> database \<Rightarrow> bool" where
  "only_limit k s s' \<longleftrightarrow> call_orders s' = call_orders s \<and> settlements s' = settlements s \<and> bitassets s' = bitassets s \<and>
     assets s' = assets s \<and> bids s' = bids s \<and>
     (\<forall>j. j \<noteq> k \<longrightarrow> tfind lo_id j (limit_orders s') = tfind lo_id j (limit_orders s))"

lemma only_limit_trans: "only_limit k s s1 \<Longrightarrow> only_limit k s1 s2 \<Longrightarrow> only_limit k s s2"
  by (simp add: only_limit_def)

lemma pay_market_fees_shape:
  assumes "pay_market_fees recv x s = Inr (s1, f)"
  obtains t where "s1 = s\<lparr>dyn_data := t\<rparr>"
proof (cases "amount f > 0")
  case True
  with assms have "add_fees recv (amount f) s = Inr s1" by (auto simp: pay_market_fees_def split: if_splits)
  with dyn_shape that show ?thesis by blast
next
  case False
  with assms have "s1 = s" by (auto simp: pay_market_fees_def split: if_splits)
  with that [of "dyn_data s"] show ?thesis by simp
qed

lemma maybe_cull_only:
  "maybe_cull_small_order ord s = Inr (s', b) \<Longrightarrow> only_limit (lo_id ord) s s'"
  by (auto simp: maybe_cull_small_order_def only_limit_def tfind_remove split: if_splits dest!: cancel_limit_shape)

lemma fill_limit_only:
  assumes "fill_limit_order ord pays receives cull s = Inr (s', b)"
  shows "only_limit (lo_id ord) s s'"
  using assms
proof (rule fill_limit_steps)
  fix seller recv s1 fees net s2
  assume pm: "pay_market_fees recv receives s = Inr (s1, fees)" and po: "pay_order seller net pays s1 = Inr s2"
  from pm obtain t where "s1 = s\<lparr>dyn_data := t\<rparr>" by (rule pay_market_fees_shape)
  with pay_order_moves(2) [OF po] have m: "only_limit (lo_id ord) s s2" by (auto simp: only_limit_def)
  let ?left = "for_sale ord - amount pays"
  let ?s3 = "s2\<lparr>limit_orders := tmodify lo_id (lo_id ord) (\<lambda>r. r\<lparr>for_sale := ?left\<rparr>) (limit_orders s2)\<rparr>"
  have r: "only_limit (lo_id ord) s2 (s2\<lparr>limit_orders := tremove lo_id (lo_id ord) (limit_orders s2)\<rparr>)"
    and u: "only_limit (lo_id ord) s2 ?s3"
    by (simp_all add: only_limit_def tfind_remove tfind_modify)
  assume "pays = amount_for_sale ord \<and> s' = s2\<lparr>limit_orders := tremove lo_id (lo_id ord) (limit_orders s2)\<rparr> \<and> b \<or>
    pays \<noteq> amount_for_sale ord \<and> safe_sub (for_sale ord) (amount pays) = Inr ?left \<and>
    (let s3 = ?s3 in if cull then maybe_cull_small_order (ord\<lparr>for_sale := ?left\<rparr>) s3 = Inr (s', b) else s' = s3 \<and> \<not> b)"
  then consider "s' = s2\<lparr>limit_orders := tremove lo_id (lo_id ord) (limit_orders s2)\<rparr>" | "s' = ?s3"
    | "maybe_cull_small_order (ord\<lparr>for_sale := ?left\<rparr>) ?s3 = Inr (s', b)"
    by (auto simp: Let_def split: if_splits)
  then have "only_limit (lo_id ord) s2 s'"
  proof cases
    case 3
    from maybe_cull_only [OF 3] u show ?thesis by (auto intro: only_limit_trans)
  qed (use r u in simp_all)
  with m show ?thesis by (rule only_limit_trans)
qed

subsection \<open>Call orders\<close>

lemma core_shape:
  assumes "(if c then sub_core_in_orders ao v s else Inr s) = Inr s'"
  shows "moves no_flow s s'" "\<exists>t. s' = s\<lparr>statistics := t\<rparr>"
proof -
  show "moves no_flow s s'" using assms core_in_orders_moves moves_refl by (auto split: if_splits)
  show "\<exists>t. s' = s\<lparr>statistics := t\<rparr>"
    using assms by (auto simp: sub_core_in_orders_def split: if_splits intro: exI [of _ "statistics s"])
qed

lemma release_collateral_moves:
  assumes "release_collateral ao freed x pays s = Inr s'"
  shows "moves (\<lambda>a. if freed then amt a x else 0) s s'" "\<exists>t u. s' = s\<lparr>statistics := t, balances := u\<rparr>"
proof -
  have "moves (\<lambda>a. if freed then amt a x else 0) s s' \<and> (\<exists>t u. s' = s\<lparr>statistics := t, balances := u\<rparr>)"
  proof (cases "freed \<or> asset_id pays = core_asset")
    case False
    with assms have "s' = s" by (simp add: release_collateral_def)
    moreover have "(\<lambda>a. if freed then amt a x else 0) = no_flow" using False by (auto simp: no_flow_def)
    moreover have "s = s\<lparr>statistics := statistics s, balances := balances s\<rparr>" by simp
    ultimately show ?thesis using moves_refl [of s] by metis
  next
    case True
    with assms obtain s3 s4 where
      s3: "(if freed then adjust_balance (acc_id ao) x s else Inr s) = Inr s3" and
      s4: "(if freed \<and> amount x > 0 then sub_core_in_orders ao (amount x) s3 else Inr s3) = Inr s4" and
      s5: "(if asset_id pays = core_asset then sub_core_in_orders ao (amount pays) s4 else Inr s4) = Inr s'"
      by (auto simp: release_collateral_def)
    have m3: "moves (\<lambda>a. if freed then amt a x else 0) s s3"
      using s3 adjust_balance_moves moves_refl [of s, unfolded no_flow_def [abs_def]] by (cases freed) simp_all
    have "\<exists>t. s3 = s\<lparr>balances := t\<rparr>"
      using s3 by (auto split: if_splits elim: adjust_shape intro: exI [of _ "balances s"])
    then obtain t where t: "s3 = s\<lparr>balances := t\<rparr>" by blast
    from core_shape(2) [OF s4] obtain u where u: "s4 = s3\<lparr>statistics := u\<rparr>" by blast
    from core_shape(2) [OF s5] obtain v where v: "s' = s4\<lparr>statistics := v\<rparr>" by blast
    have "s' = s\<lparr>statistics := v, balances := t\<rparr>" using t u v by simp
    moreover have "moves (\<lambda>a. if freed then amt a x else 0) s s'"
      by (rule moves_trans [OF m3 moves_no_trans [OF core_shape(1) [OF s4] core_shape(1) [OF s5]]]) (simp add: no_flow_def)
    ultimately show ?thesis by blast
  qed
  then show "moves (\<lambda>a. if freed then amt a x else 0) s s'" "\<exists>t u. s' = s\<lparr>statistics := t, balances := u\<rparr>" by blast+
qed

end
