(* ===== verification/Market_Conservation.thy ===== *)
theory Market_Conservation
  imports Market
begin

text \<open>The supply of every asset through the matching engine: filling call orders and settlements, matching,
  global settlement, margin calls, new orders and the revival of a settled asset keep the imbalance of
  every asset, up to the deferred fees that cancelled limit orders refund.\<close>

section \<open>Call orders\<close>

lemma call_modify_moves:
  assumes "tfind co_id i (call_orders s) = Some c"
  shows "moves (\<lambda>a. amt a (asset_of (v - collateral c) (asset_id (base (co_call_price c))))) s
    (s\<lparr>call_orders := tmodify co_id i (\<lambda>r. r\<lparr>debt := d, collateral := v\<rparr>) (call_orders s)\<rparr>)"
proof -
  have "held_call a (tmodify co_id i (\<lambda>r. r\<lparr>debt := d, collateral := v\<rparr>) (call_orders s)) = held_call a (call_orders s) +
      amt a (asset_of (v - collateral c) (asset_id (base (co_call_price c))))" if "db_wf s" for a
    using that tsum_modify [of co_id "call_orders s" i c] assms by (simp add: db_wf_def held_call_def get_collateral_def)
  then show ?thesis
    by (auto simp: moves_def db_wf_def chain_frame table_wf_modify intro!: flow_eqI simp del: amt_simps)
qed

lemma call_remove_moves:
  assumes "tfind co_id i (call_orders s) = Some c"
  shows "moves (\<lambda>a. - amt a (get_collateral c)) s (s\<lparr>call_orders := tremove co_id i (call_orders s)\<rparr>)"
proof -
  have "held_call a (tremove co_id i (call_orders s)) = held_call a (call_orders s) - amt a (get_collateral c)"
    if "db_wf s" for a
    using that tsum_remove [of co_id "call_orders s" i c] assms by (simp add: db_wf_def held_call_def)
  then show ?thesis
    by (auto simp: moves_def db_wf_def chain_frame table_wf_remove intro!: flow_eqI)
qed

text \<open>The recorded supply of an asset.\<close>

definition supply_of :: "nat \<Rightarrow> database \<Rightarrow> int" where
  "supply_of a s = (case dyn_of a (assets s) (dyn_data s) of None \<Rightarrow> 0 | Some d \<Rightarrow> current_supply d)"

lemma sub_supply_supply_of:
  assumes "dyn_wf (assets s) (dyn_data s)" "get_asset s i = Inr ao" "sub_supply ao v s = Inr s'"
  shows "supply_of a s' = supply_of a s - amt a (asset_of v i)"
proof -
  from assms(3) obtain d where d: "dynamic_data s ao = Inr d"
    "s' = s\<lparr>dyn_data := tmodify dyn_id (dyn_id d) (\<lambda>r. r\<lparr>current_supply := current_supply d - v\<rparr>) (dyn_data s)\<rparr>"
    by (auto simp: sub_supply_def)
  have ao: "tfind as_id i (assets s) = Some ao" using assms(2) by (simp add: get_asset_def)
  have f: "tfind dyn_id (dynamic_asset_data_id ao) (dyn_data s) = Some d" using d(1) by (simp add: dynamic_data_simp)
  then have id: "dyn_id d = dynamic_asset_data_id ao" by (rule tfind_id)
  show ?thesis
    using dyn_of_modify [OF assms(1) ao f, of "\<lambda>r. r\<lparr>current_supply := current_supply d - v\<rparr>" a] ao f
    by (auto simp: supply_of_def d(2) id dyn_of_def split: option.splits)
qed

text \<open>What filling a call order leaves alone.\<close>

definition only_call :: "nat \<Rightarrow> database \<Rightarrow> database \<Rightarrow> bool" where
  "only_call k s s' \<longleftrightarrow> limit_orders s' = limit_orders s \<and> settlements s' = settlements s \<and> bitassets s' = bitassets s \<and>
     assets s' = assets s \<and> bids s' = bids s \<and>
     (\<forall>j. j \<noteq> k \<longrightarrow> tfind co_id j (call_orders s') = tfind co_id j (call_orders s))"

lemma fill_call_steps:
  assumes "fill_call_order ord pays receives s = Inr (s', b)"
  obtains v mia s1 s2 ao s5 where
    "asset_id (get_debt ord) = asset_id receives" "asset_id (get_collateral ord) = asset_id pays"
    "v = (if b then 0 else collateral ord - amount pays)" "b = (debt ord - amount receives = 0)"
    "s1 = s\<lparr>call_orders := tmodify co_id (co_id ord) (\<lambda>r. r\<lparr>debt := debt ord - amount receives, collateral := v\<rparr>) (call_orders s)\<rparr>"
    "get_asset s1 (asset_id receives) = Inr mia" "sub_supply mia (amount receives) s1 = Inr s2"
    "release_collateral ao b (asset_of (collateral ord - amount pays) (asset_id (get_collateral ord))) pays s2 = Inr s5"
    "s' = (if b then s5\<lparr>call_orders := tremove co_id (co_id ord) (call_orders s5)\<rparr> else s5)"
  using assms that unfolding fill_call_order_def Let_def
  by (auto split: if_splits)

lemma fill_call_moves:
  assumes ord: "tfind co_id (co_id ord) (call_orders s) = Some ord"
    and "fill_call_order ord pays receives s = Inr (s', b)"
  shows "moves (asset_flow receives pays) s s'"
  using assms(2)
proof (rule fill_call_steps)
  fix v mia s1 s2 ao s5
  let ?x = "asset_of (collateral ord - amount pays) (asset_id (get_collateral ord))"
  assume st: "asset_id (get_debt ord) = asset_id receives" "asset_id (get_collateral ord) = asset_id pays"
    "v = (if b then 0 else collateral ord - amount pays)" "b = (debt ord - amount receives = 0)"
    "s1 = s\<lparr>call_orders := tmodify co_id (co_id ord) (\<lambda>r. r\<lparr>debt := debt ord - amount receives, collateral := v\<rparr>) (call_orders s)\<rparr>"
    "get_asset s1 (asset_id receives) = Inr mia" "sub_supply mia (amount receives) s1 = Inr s2"
    "release_collateral ao b ?x pays s2 = Inr s5"
    "s' = (if b then s5\<lparr>call_orders := tremove co_id (co_id ord) (call_orders s5)\<rparr> else s5)"
  have m1: "moves (\<lambda>a. amt a (asset_of (v - collateral ord) (asset_id pays))) s s1"
    using call_modify_moves [OF ord] st(2,5) by (simp add: get_collateral_def)
  have m2: "moves (\<lambda>a. amt a receives) s1 s2"
    using sub_supply_moves [OF st(6,7)] by (simp add: amt_def)
  have m5: "moves (\<lambda>a. if b then amt a ?x else 0) s2 s5" by (rule release_collateral_moves(1) [OF st(8)])
  from release_collateral_moves(2) [OF st(8)] dyn_frame(2) st(7) have "call_orders s5 = call_orders s1" by fastforce
  then have f: "tfind co_id (co_id ord) (call_orders s5) = Some (ord\<lparr>debt := debt ord - amount receives, collateral := v\<rparr>)"
    using ord st(5) by (simp add: tfind_modify)
  have m6: "moves no_flow s5 s'"
  proof (cases b)
    case True
    with call_remove_moves [OF f] st(3,9) show ?thesis by (simp add: get_collateral_def no_flow_def [abs_def])
  qed (use st(9) moves_refl in simp)
  from m1 m2 have "moves (\<lambda>a. amt a (asset_of (v - collateral ord) (asset_id pays)) + amt a receives) s s2"
    by (rule moves_trans) simp
  from this m5 have "moves (asset_flow receives pays) s s5"
    by (rule moves_trans) (use st(2,3) in \<open>auto simp: asset_flow_def amt_def\<close>)
  from this m6 show ?thesis by (rule moves_trans) (simp add: no_flow_def)
qed

lemma fill_call_only:
  assumes "fill_call_order ord pays receives s = Inr (s', b)"
  shows "only_call (co_id ord) s s'"
  using assms
proof (rule fill_call_steps)
  fix v mia s1 s2 ao s5
  let ?x = "asset_of (collateral ord - amount pays) (asset_id (get_collateral ord))"
  assume st: "s1 = s\<lparr>call_orders := tmodify co_id (co_id ord) (\<lambda>r. r\<lparr>debt := debt ord - amount receives, collateral := v\<rparr>) (call_orders s)\<rparr>"
    "sub_supply mia (amount receives) s1 = Inr s2" "release_collateral ao b ?x pays s2 = Inr s5"
    "s' = (if b then s5\<lparr>call_orders := tremove co_id (co_id ord) (call_orders s5)\<rparr> else s5)"
  from release_collateral_moves(2) [OF st(3)] obtain t u where "s5 = s2\<lparr>statistics := t, balances := u\<rparr>" by blast
  moreover from dyn_shape st(2) obtain w where "s2 = s1\<lparr>dyn_data := w\<rparr>" by blast
  ultimately show ?thesis using st(1,4) by (simp add: only_call_def tfind_modify tfind_remove)
qed

lemma fill_call_supply:
  assumes "dyn_wf (assets s) (dyn_data s)" "fill_call_order ord pays receives s = Inr (s', b)"
  shows "supply_of a s' = supply_of a s - amt a receives"
  using assms(2)
proof (rule fill_call_steps)
  fix v mia s1 s2 ao s5
  let ?x = "asset_of (collateral ord - amount pays) (asset_id (get_collateral ord))"
  assume st: "s1 = s\<lparr>call_orders := tmodify co_id (co_id ord) (\<lambda>r. r\<lparr>debt := debt ord - amount receives, collateral := v\<rparr>) (call_orders s)\<rparr>"
    "get_asset s1 (asset_id receives) = Inr mia" "sub_supply mia (amount receives) s1 = Inr s2"
    "release_collateral ao b ?x pays s2 = Inr s5"
    "s' = (if b then s5\<lparr>call_orders := tremove co_id (co_id ord) (call_orders s5)\<rparr> else s5)"
  from release_collateral_moves(2) [OF st(4)] obtain t u where "s5 = s2\<lparr>statistics := t, balances := u\<rparr>" by blast
  then have "supply_of a s' = supply_of a s2" using st(5) by (simp add: supply_of_def)
  moreover have "supply_of a s2 = supply_of a s1 - amt a (asset_of (amount receives) (asset_id receives))"
    by (rule sub_supply_supply_of [OF _ st(2,3)]) (use assms(1) st(1) in simp)
  ultimately show ?thesis using st(1) by (simp add: supply_of_def amt_def)
qed

section \<open>Settlements\<close>

lemma settlement_modify_moves:
  assumes "tfind fs_id i (settlements s) = Some c" "asset_id x = asset_id (fs_balance c)"
  shows "moves (\<lambda>a. amt a x - amt a (fs_balance c)) s
    (s\<lparr>settlements := tmodify fs_id i (\<lambda>r. r\<lparr>fs_balance := x\<rparr>) (settlements s)\<rparr>)"
proof -
  have "held_settle a (tmodify fs_id i (\<lambda>r. r\<lparr>fs_balance := x\<rparr>) (settlements s)) = held_settle a (settlements s) +
      (amt a x - amt a (fs_balance c))" if "db_wf s" for a
    using that tsum_modify [of fs_id "settlements s" i c] assms by (simp add: db_wf_def held_settle_def)
  then show ?thesis
    by (auto simp: moves_def db_wf_def chain_frame table_wf_modify intro!: flow_eqI simp del: amt_simps)
qed

lemma settlement_remove_moves:
  assumes "tfind fs_id i (settlements s) = Some c"
  shows "moves (\<lambda>a. - amt a (fs_balance c)) s (s\<lparr>settlements := tremove fs_id i (settlements s)\<rparr>)"
proof -
  have "held_settle a (tremove fs_id i (settlements s)) = held_settle a (settlements s) - amt a (fs_balance c)"
    if "db_wf s" for a
    using that tsum_remove [of fs_id "settlements s" i c] assms by (simp add: db_wf_def held_settle_def)
  then show ?thesis
    by (auto simp: moves_def db_wf_def chain_frame table_wf_remove intro!: flow_eqI)
qed

lemma fill_settle_moves:
  assumes ord: "tfind fs_id (fs_id settle) (settlements s) = Some settle"
    and fill: "fill_settle_order settle pays receives s = Inr (s', b)"
    and r: "0 \<le> amount receives" "amount receives \<le> int64_max" and p: "amount pays \<le> amount (fs_balance settle)"
  shows "moves (asset_flow receives pays) s s'"
proof -
  from fill obtain recv s1 fees part s2 net s3 where
    raw: "get_asset s (asset_id receives) = Inr recv" "pay_market_fees recv receives s = Inr (s1, fees)"
      "asset_lt pays (fs_balance settle) = Inr part"
      "(if part then bindE (asset_sub (fs_balance settle) pays) (\<lambda>left.
          Inr (s1\<lparr>settlements := tmodify fs_id (fs_id settle) (\<lambda>r. r\<lparr>fs_balance := left\<rparr>) (settlements s1)\<rparr>))
        else Inr s1) = Inr s2"
      "asset_sub receives fees = Inr net" "adjust_balance (fs_owner settle) net s2 = Inr s3"
      "(if part then Inr (s3, False)
        else Inr (s3\<lparr>settlements := tremove fs_id (fs_id settle) (settlements s3)\<rparr>, True) :: (database \<times> bool) result) = Inr (s', b)"
    unfolding fill_settle_order_def by (clarsimp simp del: if_throw_Inr)
  note fees = pay_market_fees_moves [OF raw(1,2) r]
  have id: "asset_id pays = asset_id (fs_balance settle)" using raw(3) by (simp add: asset_lt_def split: if_splits)
  have f1: "tfind fs_id (fs_id settle) (settlements s1) = Some settle" using ord fees(3) by auto
  have n: "amt a net = amt a receives - amt a fees" for a using asset_sub_amt [OF raw(5)] .
  have m3: "moves (\<lambda>a. amt a net) s2 s3" by (rule adjust_balance_moves [OF raw(6)])
  show ?thesis
  proof (cases part)
    case True
    with raw(4) obtain left where l: "asset_sub (fs_balance settle) pays = Inr left"
      and s2: "s2 = s1\<lparr>settlements := tmodify fs_id (fs_id settle) (\<lambda>r. r\<lparr>fs_balance := left\<rparr>) (settlements s1)\<rparr>" by auto
    from l have li: "asset_id left = asset_id (fs_balance settle)" by (auto simp: asset_sub_def split: if_splits)
    have "moves (\<lambda>a. amt a fees - amt a pays) s s2"
      by (rule moves_trans [OF fees(1) settlement_modify_moves [OF f1 li, folded s2]]) (simp add: asset_sub_amt [OF l])
    from this m3 have "moves (asset_flow receives pays) s s3" by (rule moves_trans) (simp add: n asset_flow_def)
    then show ?thesis using raw(7) True by simp
  next
    case False
    have "amount pays = amount (fs_balance settle)" using raw(3) False p by (auto simp: asset_lt_def split: if_splits)
    with id have eq: "amt a (fs_balance settle) = amt a pays" for a by (simp add: amt_def)
    from fees(1) m3 False raw(4) have m: "moves (\<lambda>a. amt a receives) s s3" by (auto elim: moves_trans simp: n)
    have "tfind fs_id (fs_id settle) (settlements s3) = Some settle"
      using False raw(4) f1 adjust_balance_frame [OF raw(6)] by simp
    from m settlement_remove_moves [OF this] have
      "moves (asset_flow receives pays) s (s3\<lparr>settlements := tremove fs_id (fs_id settle) (settlements s3)\<rparr>)"
      by (rule moves_trans) (simp add: asset_flow_def eq)
    then show ?thesis using raw(7) False by simp
  qed
qed

section \<open>Matching\<close>

text \<open>Converting an amount and converting back at most that much never gives more.\<close>

lemma asset_times_price_back:
  assumes "asset_times_price x p = Inr y" "asset_times_price u p = Inr z" "asset_id u = asset_id y"
    and "asset_id (base p) \<noteq> asset_id (quote p)" "in_int64 (amount (base p))" "in_int64 (amount (quote p))"
    and "0 \<le> amount x" "amount x \<le> int64_max" "0 \<le> amount u" "amount u \<le> amount y"
  shows "asset_id z = asset_id x" "amount z \<le> amount x"
proof -
  have y: "amount y \<le> int64_max" using asset_times_price_bound [OF assms(1)] max_supply_int64 by linarith
  have pos: "0 < amount (base p)" "0 < amount (quote p)"
    using assms(1-4) by (auto simp: asset_times_price_def Let_def split: if_splits)
  then have ok: "price_ok p" using assms(5,6) by (simp add: price_ok_def pos64_def in_int64_def)
  from asset_times_price_side [OF assms(1)] asset_times_price_side [OF assms(2)] assms(3,4)
  show "asset_id z = asset_id x" by auto
  from asset_times_price_side [OF assms(1)] show "amount z \<le> amount x"
  proof
    assume s: "asset_id x = asset_id (base p) \<and> asset_id y = asset_id (quote p)"
    with assms(1) asset_times_price_base [OF assms(7,8) ok] have "amount y = amount x * amount (quote p) div amount (base p)"
      by (auto simp: Let_def split: if_splits)
    moreover have "amount z = amount u * amount (base p) div amount (quote p)"
      using assms(2,3,4,9,10) y s asset_times_price_quote [OF _ _ ok, of u] by (auto simp: Let_def split: if_splits)
    moreover have "amount u * amount (base p) div amount (quote p) \<le> amount y * amount (base p) div amount (quote p)"
      using assms(10) pos by (intro zdiv_mono1 mult_right_mono) auto
    ultimately show ?thesis using floor_back_le [OF pos(2,1), of "amount x"] by simp
  next
    assume s: "asset_id x = asset_id (quote p) \<and> asset_id y = asset_id (base p)"
    with assms(1,4) asset_times_price_quote [OF assms(7,8) ok] have "amount y = amount x * amount (base p) div amount (quote p)"
      by (auto simp: Let_def split: if_splits)
    moreover have "amount z = amount u * amount (quote p) div amount (base p)"
      using assms(2,3,9,10) y s asset_times_price_base [OF _ _ ok, of u] by (auto simp: Let_def split: if_splits)
    moreover have "amount u * amount (quote p) div amount (base p) \<le> amount y * amount (quote p) div amount (base p)"
      using assms(10) pos by (intro zdiv_mono1 mult_right_mono) auto
    ultimately show ?thesis using floor_back_le [OF pos(1,2), of "amount x"] by simp
  qed
qed

lemma match_limit_steps:
  assumes "match_limit_orders usd core p s = Inr (s', fu, fc)"
  obtains core_value usd_receives core_receives s1 where
    "asset_times_price (amount_for_sale core) p = Inr core_value"
    "asset_id (amount_for_sale usd) = asset_id core_value"
    "amount (amount_for_sale usd) \<le> amount core_value \<and> core_receives = amount_for_sale usd \<and>
       asset_times_price (amount_for_sale usd) p = Inr usd_receives \<or>
     amount core_value < amount (amount_for_sale usd) \<and> core_receives = core_value \<and> usd_receives = amount_for_sale core"
    "fill_limit_order usd core_receives usd_receives False s = Inr (s1, fu)"
    "fill_limit_order core usd_receives core_receives True s1 = Inr (s', fc)"
proof -
  from assms obtain v c ur cr s1 where raw: "asset_times_price (amount_for_sale core) p = Inr v"
    "asset_le (amount_for_sale usd) v = Inr c"
    "(if c then bindE (asset_times_price (amount_for_sale usd) p) (\<lambda>r. Inr (r, amount_for_sale usd))
      else bindE (asset_times_price (amount_for_sale core) p) (\<lambda>r. Inr (amount_for_sale core, r))) = Inr (ur, cr)"
    "fill_limit_order usd cr ur False s = Inr (s1, fu)" "fill_limit_order core ur cr True s1 = Inr (s', fc)"
    unfolding match_limit_orders_def Let_def by (clarsimp simp del: if_throw_Inr asset_le_Inr)
  show ?thesis
    by (rule that [OF raw(1) _ _ raw(4,5)]) (use raw(1-3) in \<open>cases c; auto\<close>)+
qed

lemma match_limit_moves:
  assumes usd: "tfind lo_id (lo_id usd) (limit_orders s) = Some usd"
    and core: "tfind lo_id (lo_id core) (limit_orders s) = Some core"
    and m: "match_limit_orders usd core (sell_price core) s = Inr (s', fu, fc)"
  shows "moves no_flow s s'"
  using m
proof (rule match_limit_steps)
  fix v ur cr s1
  assume v: "asset_times_price (amount_for_sale core) (sell_price core) = Inr v"
    and vid: "asset_id (amount_for_sale usd) = asset_id v"
    and c: "amount (amount_for_sale usd) \<le> amount v \<and> cr = amount_for_sale usd \<and>
       asset_times_price (amount_for_sale usd) (sell_price core) = Inr ur \<or>
     amount v < amount (amount_for_sale usd) \<and> cr = v \<and> ur = amount_for_sale core"
    and f1: "fill_limit_order usd cr ur False s = Inr (s1, fu)" and f2: "fill_limit_order core ur cr True s1 = Inr (s', fc)"
  obtain st1: "asset_id cr = asset_id (base (sell_price usd))" "asset_id cr \<noteq> asset_id ur"
    by (rule fill_limit_steps [OF f1]) blast
  obtain st2: "asset_id ur = asset_id (base (sell_price core))" by (rule fill_limit_steps [OF f2]) blast
  have ne: "lo_id core \<noteq> lo_id usd" using usd core st1 st2 by auto
  have core1: "tfind lo_id (lo_id core) (limit_orders s1) = Some core"
    using fill_limit_only [OF f1] core ne by (simp add: only_limit_def)
  have ass: "assets s' = assets s"
    using fill_limit_only [OF f1] fill_limit_only [OF f2] by (simp add: only_limit_def)
  show ?thesis
  proof (cases "db_wf s")
    case True
    note uok = limit_order_okD [OF True usd, unfolded limit_order_ok_def]
      and cok = limit_order_okD [OF True core, unfolded limit_order_ok_def]
    have ids: "asset_id (base (sell_price core)) \<noteq> asset_id (quote (sell_price core))"
      using v c st1 st2 vid by (auto dest!: asset_times_price_side simp: amount_for_sale_def)
    have vr: "0 \<le> amount v" "amount v \<le> int64_max"
      using asset_times_price_nonneg [OF v] asset_times_price_bound [OF v] max_supply_int64 by auto
    from c have "amount ur \<le> for_sale core \<and> 0 \<le> amount ur \<and> amount cr \<le> for_sale usd \<and> 0 \<le> amount cr"
    proof
      assume a: "amount (amount_for_sale usd) \<le> amount v \<and> cr = amount_for_sale usd \<and>
        asset_times_price (amount_for_sale usd) (sell_price core) = Inr ur"
      with asset_times_price_back(2) [OF v _ vid ids, of ur] uok cok asset_times_price_nonneg [of _ _ ur]
      show ?thesis by (auto simp: amount_for_sale_def)
    next
      assume "amount v < amount (amount_for_sale usd) \<and> cr = v \<and> ur = amount_for_sale core"
      with vr cok show ?thesis by (auto simp: amount_for_sale_def)
    qed
    then have b: "amount ur \<le> for_sale core" "0 \<le> amount ur" "amount cr \<le> for_sale usd" "0 \<le> amount cr" by blast+
    have i: "amount ur \<le> int64_max" "amount cr \<le> int64_max" using b uok cok by linarith+
    have "moves (asset_flow ur cr) s s1" by (rule fill_limit_moves [OF usd f1 b(2) i(1)]) (rule b)
    moreover have "moves (asset_flow cr ur) s1 s'" by (rule fill_limit_moves [OF core1 f2 b(4) i(2)]) (rule b)
    ultimately show ?thesis by (rule moves_trans) (simp add: no_flow_def asset_flow_def)
  qed (use ass in \<open>simp add: moves_def\<close>)
qed

lemma asset_min_Inr: "asset_min a b = Inr c \<Longrightarrow> asset_id a = asset_id b \<and> asset_id c = asset_id a \<and> amount c = min (amount a) (amount b)"
  by (auto simp: asset_min_def min_def)

lemma match_settlement_moves:
  assumes call: "tfind co_id (co_id call) (call_orders s) = Some call"
    and settle: "tfind fs_id (fs_id settle) (settlements s) = Some settle"
    and m: "match_settlement call settle p mx s = Inr (s', x)"
  shows "moves no_flow s s'"
proof -
  from m obtain y v s1 b1 b2 where st: "asset_min (fs_balance settle) mx = Inr y" "asset_min y (get_debt call) = Inr x"
    "asset_times_price x p = Inr v" "fill_call_order call v x s = Inr (s1, b1)"
    "fill_settle_order settle x v s1 = Inr (s', b2)"
    unfolding match_settlement_def by (auto split: if_splits simp: case_prod_unfold)
  have set1: "tfind fs_id (fs_id settle) (settlements s1) = Some settle"
    using fill_call_only [OF st(4)] settle by (simp add: only_call_def)
  have "amount v \<le> int64_max" using asset_times_price_bound [OF st(3)] max_supply_int64 by linarith
  moreover have "amount x \<le> amount (fs_balance settle)" using asset_min_Inr [OF st(1)] asset_min_Inr [OF st(2)] by simp
  ultimately have "moves (asset_flow v x) s1 s'"
    using fill_settle_moves [OF set1 st(5) asset_times_price_nonneg [OF st(3)]] by blast
  from fill_call_moves [OF call st(4)] this show ?thesis by (rule moves_trans) (simp add: no_flow_def asset_flow_def)
qed

section \<open>Global settlement\<close>

text \<open>While the call orders of an asset \<open>m\<close> are closed, its supply shrinks by their debt and the collateral
  taken is in the accumulator.\<close>

definition settling :: "nat \<Rightarrow> nat \<Rightarrow> database \<Rightarrow> database \<times> asset \<Rightarrow> bool" where
  "settling m backing s0 = (\<lambda>(s, g). db_wf s \<and> assets s = assets s0 \<and> bitassets s = bitassets s0 \<and>
     limit_orders s = limit_orders s0 \<and> asset_id g = backing \<and>
     (\<forall>a. imbalance a s = imbalance a s0 + (if a = m then supply_of m s0 - supply_of m s else 0) - amt a g))"

lemma settle_call_settling:
  assumes "asset_id (base p) = m" "m \<noteq> backing" "settling m backing s0 (s, g)" "settle_call p i (s, g) = Inr (s', g')"
  shows "settling m backing s0 (s', g')"
proof -
  from assms(4) obtain c where c0: "tfind co_id i (call_orders s) = Some c"
    by (auto simp: settle_call_def split: option.splits)
  from assms(4) c0 obtain worth b where st: "asset_times_price (get_debt c) p = Inr worth"
    "asset_gt worth (get_collateral c) = Inr b"
    "asset_add g (if b then get_collateral c else worth) = Inr g'"
    "fill_call_order c (if b then get_collateral c else worth) (get_debt c) s = Inr (s', True)"
    unfolding settle_call_def Let_def by (auto simp del: asset_gt_Inr asset_add_Inr if_split split: prod.splits)
  let ?pays = "if b then get_collateral c else worth"
  have c: "tfind co_id (co_id c) (call_orders s) = Some c" using c0 tfind_id [OF c0] by simp
  have g: "asset_id g = backing" and wf: "db_wf s" and lim: "limit_orders s = limit_orders s0"
    and bal: "imbalance a s = imbalance a s0 + (if a = m then supply_of m s0 - supply_of m s else 0) - amt a g" for a
    using assms(3) by (auto simp: settling_def)
  have id: "asset_id ?pays = backing" "asset_id worth = backing" using st(2,3) g by (auto split: if_splits)
  with asset_times_price_side [OF st(1)] assms(1,2) have debt: "asset_id (get_debt c) = m" by auto
  note only = fill_call_only [OF st(4), unfolded only_call_def]
  from moves_exact [OF fill_call_moves [OF c st(4)] wf] only have wf': "db_wf s'"
    and i: "imbalance a s' = imbalance a s + asset_flow (get_debt c) ?pays a" for a by auto
  have sup: "supply_of m s' = supply_of m s - amount (get_debt c)"
    using fill_call_supply [OF _ st(4), of m] wf debt by (simp add: db_wf_def amt_def)
  have "amt a g' = amt a g + amt a ?pays" for a
    using st(3) id(1) g by (auto simp: amt_def simp del: if_split)
  with i bal sup debt have "imbalance a s' = imbalance a s0 + (if a = m then supply_of m s0 - supply_of m s' else 0) - amt a g'" for a
    by (auto simp: asset_flow_def amt_def)
  moreover have "asset_id g' = backing" using st(3) g by auto
  ultimately show ?thesis using wf' only assms(3) by (simp add: settling_def)
qed

lemma settled_not_null: "asset_id b \<noteq> asset_id q \<Longrightarrow> \<not> price_is_null \<lparr>base = b, quote = q\<rparr>"
  by (auto simp: price_is_null_def price_eq_def null_price_def)

lemma bitasset_settle_effect:
  assumes "db_wf s" "tfind bit_id i (bitassets s) = Some b" "\<not> has_settlement b" "\<not> price_is_null pr"
    and mia: "get_asset s k = Inr mia" "bitasset_data_id mia = Some i"
      "asset_id (base pr) = k" "asset_id (quote pr) = short_backing_asset (bit_options b)"
    and s': "s' = s\<lparr>bitassets := tmodify bit_id i (\<lambda>b. b\<lparr>settlement_price := pr, settlement_fund := v\<rparr>) (bitassets s)\<rparr>"
  shows "db_wf s'" "imbalance a s' = imbalance a s + amt a (asset_of v (short_backing_asset (bit_options b)))"
proof -
  have wf: "bit_wf (bitassets s)" using assms(1) by (simp add: db_wf_def)
  then have fund: "settlement_fund b = 0" using assms(2,3) tfind_SomeD [OF assms(2)] by (auto simp: bit_wf_def)
  have "bit_wf (tmodify bit_id i (\<lambda>b. b\<lparr>settlement_price := pr, settlement_fund := v\<rparr>) (bitassets s))"
    unfolding bit_wf_def
  proof
    show "table_wf bit_id (tmodify bit_id i (\<lambda>b. b\<lparr>settlement_price := pr, settlement_fund := v\<rparr>) (bitassets s))"
      using wf by (intro table_wf_modify) (simp_all add: bit_wf_def)
  qed (use wf assms(4) in \<open>auto simp: bit_wf_def has_settlement_def tmodify_def\<close>)
  moreover have "feed_wf (assets s) (tmodify bit_id i (\<lambda>b. b\<lparr>settlement_price := pr, settlement_fund := v\<rparr>) (bitassets s))"
  proof (rule feed_wf_modify_at [OF _ _ mia(2) assms(2)])
    show "feed_wf (assets s) (bitassets s)" using assms(1) by (simp add: db_wf_def)
    show k: "tfind as_id k (assets s) = Some mia" using mia(1) by (simp add: get_asset_def)
    obtain b' where "tfind bit_id i (bitassets s) = Some b'" "bitasset_ok k b'"
      using feed_wfD [OF _ k mia(2)] assms(1) unfolding db_wf_def by blast
    then show "bitasset_ok k (b\<lparr>settlement_price := pr, settlement_fund := v\<rparr>)"
      using assms(2) mia(3,4) by (simp add: bitasset_ok_def)
  qed simp
  ultimately show "db_wf s'" using assms(1) by (simp add: s' db_wf_def)
  have "held_funds a (tmodify bit_id i (\<lambda>b. b\<lparr>settlement_price := pr, settlement_fund := v\<rparr>) (bitassets s)) =
      held_funds a (bitassets s) + amt a (asset_of v (short_backing_asset (bit_options b)))"
    using wf tsum_modify [of bit_id "bitassets s" i b] assms(2) fund by (simp add: bit_wf_def held_funds_def)
  then show "imbalance a s' = imbalance a s + amt a (asset_of v (short_backing_asset (bit_options b)))"
    by (simp add: s' chain_frame del: amt_simps)
qed

lemma settle_call_frame:
  assumes "settle_call p i (s, g) = Inr (s', g')"
  shows "assets s' = assets s \<and> limit_orders s' = limit_orders s \<and> bitassets s' = bitassets s \<and> asset_id g' = asset_id g"
proof -
  from assms obtain c x y where "fill_call_order c x y s = Inr (s', True)" "asset_id g' = asset_id g"
    by (auto simp: settle_call_def Let_def split: option.splits if_splits)
  with fill_call_only [OF this(1)] show ?thesis by (simp add: only_call_def)
qed

lemma globally_settle_steps:
  assumes "globally_settle_asset mia p s = Inr s'"
  obtains b ba d calls s1 g where
    "bitasset_data s mia = Inr b" "\<not> has_settlement b"
    "get_asset s (short_backing_asset (bit_options b)) = Inr ba" "dynamic_data s mia = Inr d"
    "foldE (settle_call p) calls (s, asset_of 0 (as_id ba)) = Inr (s1, g)" "as_id mia \<noteq> asset_id g"
    "s' = s1\<lparr>bitassets := tmodify bit_id (bit_id b)
        (\<lambda>b. b\<lparr>settlement_price := \<lparr>base = asset_of (current_supply d) (as_id mia), quote = g\<rparr>, settlement_fund := amount g\<rparr>) (bitassets s1),
       dyn_data := tmodify dyn_id (dyn_id d) (\<lambda>r. r\<lparr>current_supply := current_supply d\<rparr>) (dyn_data s1)\<rparr>"
    "assets s1 = assets s" "limit_orders s1 = limit_orders s" "bitassets s1 = bitassets s" "asset_id g = as_id ba"
proof -
  from assms obtain b ba d calls s1 g where st:
    "bitasset_data s mia = Inr b" "\<not> has_settlement b"
    "get_asset s (short_backing_asset (bit_options b)) = Inr ba" "dynamic_data s mia = Inr d"
    "foldE (settle_call p) calls (s, asset_of 0 (as_id ba)) = Inr (s1, g)" "as_id mia \<noteq> asset_id g"
    "s' = s1\<lparr>bitassets := tmodify bit_id (bit_id b)
        (\<lambda>b. b\<lparr>settlement_price := \<lparr>base = asset_of (current_supply d) (as_id mia), quote = g\<rparr>, settlement_fund := amount g\<rparr>) (bitassets s1),
       dyn_data := tmodify dyn_id (dyn_id d) (\<lambda>r. r\<lparr>current_supply := current_supply d\<rparr>) (dyn_data s1)\<rparr>"
    unfolding globally_settle_asset_def Let_def by (auto split: if_splits)
  from st(5) have "(\<lambda>(s1, g). assets s1 = assets s \<and> limit_orders s1 = limit_orders s \<and> bitassets s1 = bitassets s \<and>
    asset_id g = as_id ba) (s1, g)"
    by (rule foldE_invariant) (use settle_call_frame in \<open>auto simp del: foldE.simps\<close>)
  with that st show ?thesis by auto
qed

lemma bitasset_data_tfind: "bitasset_data s mia = Inr b \<Longrightarrow> tfind bit_id (bit_id b) (bitassets s) = Some b"
  by (auto simp: bitasset_data_def tfind_id split: option.splits)

lemma bitasset_data_id_of: "bitasset_data s mia = Inr b \<Longrightarrow> bitasset_data_id mia = Some (bit_id b)"
  by (auto simp: bitasset_data_def dest: tfind_id split: option.splits)

lemma supply_of_data: "get_asset s i = Inr ao \<Longrightarrow> dynamic_data s ao = Inr d \<Longrightarrow> supply_of i s = current_supply d"
  by (simp add: supply_of_def dyn_of_def get_asset_def dynamic_data_simp)

lemma globally_settle_effect:
  assumes "db_wf s" "get_asset s (as_id mia) = Inr mia" "asset_id (base p) = as_id mia"
    and "globally_settle_asset mia p s = Inr s'"
  shows "db_wf s' \<and> (\<forall>a. imbalance a s' = imbalance a s)"
  using assms(4)
proof (rule globally_settle_steps)
  fix b :: asset_bitasset_data_object and d :: asset_dynamic_data_object and ba calls s1 and g :: asset
  let ?m = "as_id mia" and ?B = "short_backing_asset (bit_options b)"
  let ?pr = "\<lparr>base = asset_of (current_supply d) ?m, quote = g\<rparr>"
  assume st: "bitasset_data s mia = Inr b" "\<not> has_settlement b"
    "get_asset s ?B = Inr ba" "dynamic_data s mia = Inr d"
    "foldE (settle_call p) calls (s, asset_of 0 (as_id ba)) = Inr (s1, g)" "?m \<noteq> asset_id g"
    "s' = s1\<lparr>bitassets := tmodify bit_id (bit_id b)
        (\<lambda>b. b\<lparr>settlement_price := ?pr, settlement_fund := amount g\<rparr>) (bitassets s1),
       dyn_data := tmodify dyn_id (dyn_id d) (\<lambda>r. r\<lparr>current_supply := current_supply d\<rparr>) (dyn_data s1)\<rparr>"
    "assets s1 = assets s" "limit_orders s1 = limit_orders s" "bitassets s1 = bitassets s" "asset_id g = as_id ba"
  have ba: "as_id ba = ?B" using get_asset_id [OF st(3)] .
  have "asset_id g = ?B" using st(11) ba by simp
  have "settling ?m ?B s (s1, g)"
  proof (rule foldE_invariant [OF st(5)])
    show "settling ?m ?B s (s, asset_of 0 (as_id ba))" using assms(1) ba by (simp add: settling_def)
    show "settling ?m ?B s y" if "settling ?m ?B s x" "settle_call p i x = Inr y" for i x y
      using settle_call_settling [OF assms(3), of ?B s "fst x" "snd x" i "fst y" "snd y"] that st(6) \<open>asset_id g = ?B\<close> by simp
  qed
  then have wf: "db_wf s1"
    and im: "imbalance a s1 = imbalance a s + (if a = ?m then supply_of ?m s - supply_of ?m s1 else 0) - amt a g" for a
    by (auto simp: settling_def)
  let ?s2 = "s1\<lparr>bitassets := tmodify bit_id (bit_id b) (\<lambda>b. b\<lparr>settlement_price := ?pr, settlement_fund := amount g\<rparr>) (bitassets s1)\<rparr>"
  have b1: "tfind bit_id (bit_id b) (bitassets s1) = Some b" using bitasset_data_tfind [OF st(1)] st(10) by simp
  have mia: "get_asset s1 ?m = Inr mia" "bitasset_data_id mia = Some (bit_id b)"
    using assms(2) st(8) bitasset_data_id_of [OF st(1)] by (simp_all add: get_asset_def)
  have g: "asset_id (quote ?pr) = ?B" "asset_id (base ?pr) = ?m" using \<open>asset_id g = ?B\<close> by simp_all
  note e = bitasset_settle_effect [OF wf b1 st(2) settled_not_null [of "asset_of (current_supply d) ?m" g] mia g(2,1) refl, where v = "amount g"]
  have wf2: "db_wf ?s2" and im2: "imbalance a ?s2 = imbalance a s1 + amt a g" for a
    using e st(6) \<open>asset_id g = ?B\<close> by (auto simp: amt_def)
  have ao: "get_asset ?s2 ?m = Inr mia" using assms(2) st(8) by (simp add: get_asset_def)
  have did: "dyn_id d = dynamic_asset_data_id mia" using st(4) by (simp add: dynamic_data_simp tfind_id)
  have "dyn_wf (assets s1) (dyn_data s1)" using wf by (simp add: db_wf_def)
  moreover have "mia \<in> set (rows (assets s1))" using ao by (auto simp: get_asset_def dest: tfind_SomeD)
  ultimately have "tfind dyn_id (dynamic_asset_data_id mia) (dyn_data s1) \<noteq> None" unfolding dyn_wf_def by blast
  then obtain d1 where d1: "dynamic_data ?s2 mia = Inr d1" by (auto simp: dynamic_data_simp)
  have dd: "dyn_id d1 = dyn_id d" using d1 did by (simp add: dynamic_data_simp tfind_id)
  have s1: "supply_of ?m s1 = current_supply d1" and s0: "supply_of ?m s = current_supply d"
    using supply_of_data [OF ao d1] supply_of_data [OF assms(2) st(4)] by (simp_all add: supply_of_def)
  have "db_wf s' \<and> flow (\<lambda>a. amt a (asset_of (current_supply d1 - current_supply d) ?m)) ?s2 s'"
    by (rule dyn_modify_effect [OF wf2 ao d1, of "\<lambda>r. r\<lparr>current_supply := current_supply d\<rparr>"])
      (use dd st(7) in simp_all)
  moreover have "deferred (limit_orders s') = deferred (limit_orders ?s2)" using st(7) by simp
  ultimately have "db_wf s'" and
    e2: "imbalance a s' = imbalance a ?s2 + amt a (asset_of (current_supply d1 - current_supply d) ?m)" for a
    using flow_exact by blast+
  moreover have "imbalance a s' = imbalance a s" for a using e2 [of a] im2 [of a] im [of a] s1 s0 by (cases "a = ?m") simp_all
  ultimately show ?thesis by blast
qed

section \<open>Black swans\<close>

lemma price_between_ids:
  assumes "\<not> price_lt x lo" "\<not> price_lt hi x" "asset_id (base lo) = asset_id (base hi)" "asset_id (quote lo) = asset_id (quote hi)"
  shows "asset_id (base x) = asset_id (base hi)" "asset_id (quote x) = asset_id (quote hi)"
  using assms by (auto simp: price_lt_def split: if_splits)

lemma calls_of_head:
  assumes "calls_of mia b s = Inr (c # cs)"
  shows "debt_type c = as_id mia" "asset_id (base (co_call_price c)) = short_backing_asset (bit_options b)"
    "c \<in> set (rows (call_orders s))"
proof -
  from assms obtain lo hi where lo: "price_min (short_backing_asset (bit_options b)) (as_id mia) = Inr lo"
    and hi: "price_max (short_backing_asset (bit_options b)) (as_id mia) = Inr hi" and r: "call_range lo hi s = c # cs"
    by (auto simp: calls_of_def)
  have ids: "asset_id (base lo) = asset_id (base hi)" "asset_id (quote lo) = asset_id (quote hi)"
    "asset_id (base hi) = short_backing_asset (bit_options b)" "asset_id (quote hi) = as_id mia"
    using lo hi by (auto simp: price_min_def price_max_def)
  note h = index_range_head [OF r [unfolded call_range_def]]
  from h(3) show "c \<in> set (rows (call_orders s))" by simp
  from h(1,2)  have "asset_id (base (co_call_price c)) = asset_id (base hi)" "asset_id (quote (co_call_price c)) = asset_id (quote hi)"
    using price_between_ids ids by blast+
  then show "debt_type c = as_id mia" "asset_id (base (co_call_price c)) = short_backing_asset (bit_options b)"
    using ids by (simp_all add: debt_type_def)
qed

lemma globally_settle_moves:
  assumes "get_asset s (as_id mia) = Inr mia" "asset_id (base p) = as_id mia" "globally_settle_asset mia p s = Inr s'"
  shows "moves no_flow s s'" "limit_orders s' = limit_orders s"
proof -
  have f: "assets s' = assets s \<and> limit_orders s' = limit_orders s"
    by (rule globally_settle_steps [OF assms(3)]) simp
  then show "limit_orders s' = limit_orders s" by blast
  show "moves no_flow s s'"
    using f globally_settle_effect [OF _ assms] by (auto simp: moves_def no_flow_def intro!: flow_eqI)
qed

lemma check_for_blackswan_steps:
  assumes "check_for_blackswan mia e s = Inr (s', r)"
  shows "s' = s \<or> r \<and> (\<exists>b c cs p. calls_of mia b s = Inr (c # cs) \<and> collateralization c = Inr p \<and>
    globally_settle_asset mia (price_inv p) s = Inr s')"
  using assms unfolding check_for_blackswan_def Let_def by (auto simp: case_list_Inr split: if_splits)

lemma check_for_blackswan_moves:
  assumes "get_asset s (as_id mia) = Inr mia" "check_for_blackswan mia e s = Inr (s', r)"
  shows "moves no_flow s s'" "limit_orders s' = limit_orders s" "\<not> r \<Longrightarrow> s' = s"
proof -
  have "moves no_flow s s' \<and> limit_orders s' = limit_orders s \<and> (\<not> r \<longrightarrow> s' = s)"
    using check_for_blackswan_steps [OF assms(2)]
  proof
    assume "r \<and> (\<exists>b c cs p. calls_of mia b s = Inr (c # cs) \<and> collateralization c = Inr p \<and>
      globally_settle_asset mia (price_inv p) s = Inr s')"
    then obtain b c cs p where r: r and c: "calls_of mia b s = Inr (c # cs)" and p: "collateralization c = Inr p"
      and g: "globally_settle_asset mia (price_inv p) s = Inr s'" by blast
    have "asset_id (base (price_inv p)) = as_id mia"
      using calls_of_head(1) [OF c] p by (auto simp: collateralization_def get_debt_def)
    from globally_settle_moves [OF assms(1) this g] r show ?thesis by simp
  qed (simp add: moves_refl)
  then show "moves no_flow s s'" "limit_orders s' = limit_orders s" "\<not> r \<Longrightarrow> s' = s" by blast+
qed

section \<open>Margin calls\<close>

lemma margin_amounts_bounds:
  assumes "margin_amounts l c fl = Inr (order_receives, order_pays, fl', fc)"
  shows "0 \<le> amount order_receives" "amount order_receives \<le> int64_max" "amount order_pays \<le> for_sale l"
proof -
  from assms obtain x where x: "asset_times_price x (sell_price l) = Inr order_receives" "amount order_pays \<le> for_sale l"
    unfolding margin_amounts_def Let_def amount_for_sale_def by (auto split: if_splits)
  then show "0 \<le> amount order_receives" "amount order_receives \<le> int64_max" "amount order_pays \<le> for_sale l"
    using asset_times_price_nonneg asset_times_price_bound max_supply_int64 by force+
qed

text \<open>One margin call: the call order and the limit order exchange the same two amounts.\<close>

lemma margin_fill_moves:
  assumes "tfind lo_id li (limit_orders s) = Some l" "tfind co_id ci (call_orders s) = Some c"
    and "margin_amounts l c fl = Inr (order_receives, order_pays, fl', fc)"
    and "fill_call_order c order_receives order_pays s = Inr (s1, b1)"
    and "fill_limit_order l order_pays order_receives True s1 = Inr (s2, b2)"
  shows "moves no_flow s s2" "bitassets s2 = bitassets s" "assets s2 = assets s"
proof -
  have l: "tfind lo_id (lo_id l) (limit_orders s1) = Some l"
    using fill_call_only [OF assms(4)] assms(1) tfind_id [OF assms(1)] by (simp add: only_call_def)
  have c: "tfind co_id (co_id c) (call_orders s) = Some c" using assms(2) tfind_id [OF assms(2)] by simp
  show "moves no_flow s s2"
    by (rule moves_trans [OF fill_call_moves [OF c assms(4)] fill_limit_moves [OF l assms(5) margin_amounts_bounds [OF assms(3)]]])
      (simp add: no_flow_def asset_flow_def)
  show "bitassets s2 = bitassets s" "assets s2 = assets s"
    using fill_call_only [OF assms(4)] fill_limit_only [OF assms(5)] by (simp_all add: only_call_def only_limit_def)
qed

text \<open>The feed an asset is settled at is a price of that asset.\<close>

definition feed_live :: "asset_object \<Rightarrow> database \<Rightarrow> bool" where
  "feed_live mia s \<longleftrightarrow> (\<forall>b. bitasset_data s mia = Inr b \<longrightarrow>
     asset_id (base (pf_settlement_price (current_feed b))) = as_id mia)"

lemma margin_round_moves:
  assumes "get_asset s (as_id mia) = Inr mia" "feed_live mia s" "margin_round mia e fl l c s = Inr r"
    and "tfind lo_id li (limit_orders s) = Some l" "tfind co_id ci (call_orders s) = Some c"
  shows "case r of Round_return s' \<Rightarrow> s' = s | Round_swan s' \<Rightarrow> moves no_flow s s'
    | Round_filled s' fl' fc \<Rightarrow> moves no_flow s s' \<and> bitassets s' = bitassets s \<and> assets s' = assets s"
proof (cases r)
  case (Round_return s')
  with assms(3) show ?thesis by (auto simp: margin_round_def split: if_splits)
next
  case (Round_swan s')
  with assms(3) obtain b where b: "bitasset_data s mia = Inr b"
    and g: "globally_settle_asset mia (pf_settlement_price (current_feed b)) s = Inr s'"
    by (auto simp: margin_round_def split: if_splits)
  from b assms(2) have "asset_id (base (pf_settlement_price (current_feed b))) = as_id mia" by (simp add: feed_live_def)
  from globally_settle_moves(1) [OF assms(1) this g] Round_swan show ?thesis by simp
next
  case (Round_filled s' fl' fc)
  with assms(3) obtain x y s1 b1 b2 where "margin_amounts l c fl = Inr (x, y, fl', fc)"
    "fill_call_order c x y s = Inr (s1, b1)" "fill_limit_order l y x True s1 = Inr (s', b2)"
    by (auto simp: margin_round_def split: if_splits)
  from margin_fill_moves [OF assms(4,5) this] Round_filled show ?thesis by simp
qed

lemma feed_live_frame: "bitassets s' = bitassets s \<Longrightarrow> feed_live mia s' = feed_live mia s"
  by (simp add: feed_live_def bitasset_data_def split: option.splits)

lemma check_call_loop_moves:
  assumes "get_asset s (as_id mia) = Inr mia" "feed_live mia s"
    and "check_call_loop mia e fl mc limits calls s = Inr (s', r)"
  shows "moves no_flow s s'"
  using assms
proof (induction "length limits + length calls" arbitrary: fl mc limits calls s rule: less_induct)
  case less
  note loop = less.prems(3) [unfolded check_call_loop.simps [of mia e fl mc limits calls s]]
  from loop obtain s1 sw where bs: "check_for_blackswan mia e s = Inr (s1, sw)"
    by auto
  note bm = check_for_blackswan_moves [OF less.prems(1) bs]
  show ?case
  proof (cases "sw \<or> calls = [] \<or> limits = []")
    case True
    then have "s' = s1" using loop bs by (auto split: list.splits)
    with bm show ?thesis by simp
  next
    case False
    then obtain ci cs li ls where cl: "calls = ci # cs" "limits = li # ls" and s1: "s1 = s"
      using bm(3) by (cases calls; cases limits) auto
    from loop bs cl s1 False obtain l c rr where l: "tfind lo_id li (limit_orders s) = Some l"
      and c: "tfind co_id ci (call_orders s) = Some c" and m: "margin_round mia e fl l c s = Inr rr"
      by (auto split: option.splits)
    note mm = margin_round_moves [OF less.prems(1,2) m l c]
    show ?thesis
    proof (cases rr)
      case (Round_filled s2 fl' fc)
      let ?ls = "if fl' then ls else limits" and ?cs = "if fc then cs else calls"
      from Round_filled mm have m2: "moves no_flow s s2" "bitassets s2 = bitassets s" "assets s2 = assets s" by auto
      have "check_call_loop mia e fl' True ?ls ?cs s2 = Inr (s', r)"
        using loop bs s1 False l c m Round_filled cl by simp
      moreover have "length ?ls + length ?cs < length limits + length calls"
        using margin_round_progress [of mia e fl l c s s2 fl' fc] m Round_filled cl by auto
      ultimately have "moves no_flow s2 s'"
        using less.hyps [of ?ls ?cs s2 fl' True] less.prems(1,2) m2(2,3) feed_live_frame [OF m2(2)]
        by (simp add: get_asset_def)
      with m2(1) show ?thesis by (rule moves_no_trans)
    qed (use loop bs s1 False l c m cl mm moves_refl in auto)
  qed
qed

lemma db_wf_bitasset:
  assumes "db_wf s" "get_asset s i = Inr mia" "bitasset_data s mia = Inr b"
  shows "bitasset_ok i b"
proof -
  from assms(3) obtain j where j: "bitasset_data_id mia = Some j" "tfind bit_id j (bitassets s) = Some b"
    by (auto simp: bitasset_data_def split: option.splits)
  have "feed_wf (assets s) (bitassets s)" "tfind as_id i (assets s) = Some mia" using assms(1,2) by (simp_all add: db_wf_def get_asset_def)
  from feed_wfD [OF this j(1)] j(2) show ?thesis by auto
qed

lemma db_wf_feed:
  assumes "db_wf s" "get_asset s i = Inr mia" "bitasset_data s mia = Inr b"
  shows "price_feed_is_for (current_feed b) i"
proof -
  from db_wf_bitasset [OF assms] show ?thesis by (simp add: bitasset_ok_def)
qed

lemma check_call_orders_moves:
  assumes "get_asset s (as_id mia) = Inr mia" "db_wf s" "check_call_orders mia e s = Inr (s', r)"
  shows "moves no_flow s s'"
proof (cases "is_market_issued mia")
  case False
  with assms(3) show ?thesis by (simp add: check_call_orders_def moves_refl)
next
  case True
  with assms(3) obtain s1 sw where bs: "check_for_blackswan mia e s = Inr (s1, sw)" by (auto simp: check_call_orders_def)
  note bm = check_for_blackswan_moves [OF assms(1) bs]
  show ?thesis
  proof (cases "s' = s1")
    case False
    with assms(3) bs True obtain b limits calls where b: "bitasset_data s1 mia = Inr b" "\<not> sw"
      "\<not> price_is_null (pf_settlement_price (current_feed b))"
      and loop: "check_call_loop mia e False False limits calls s1 = Inr (s', r)"
      by (auto simp: check_call_orders_def case_list_Inr split: if_splits)
    with bm(3) have s1: "s1 = s" by simp
    have "feed_live mia s"
      using db_wf_feed [OF assms(2,1)] b s1 by (auto simp: feed_live_def price_feed_is_for_def)
    with check_call_loop_moves [OF assms(1)] loop s1 show ?thesis by blast
  qed (use bm in simp)
qed
section \<open>New orders\<close>

lemma match_loop_moves:
  assumes "match_loop k js s = Inr s'"
  shows "moves no_flow s s'"
  using assms
proof (induction js arbitrary: s)
  case (Cons j js)
  then obtain new old s1 fu fc where new: "tfind lo_id k (limit_orders s) = Some new"
    and old: "tfind lo_id j (limit_orders s) = Some old"
    and m: "match_limit_orders new old (sell_price old) s = Inr (s1, fu, fc)"
    by (auto split: option.splits)
  have m1: "moves no_flow s s1"
    by (rule match_limit_moves [OF _ _ m]) (use new old tfind_id [OF new] tfind_id [OF old] in simp_all)
  show ?case
  proof (cases "\<not> fu \<and> fc")
    case True
    then have "match_loop k js s1 = Inr s'" using Cons.prems new old m by simp
    from m1 Cons.IH [OF this] show ?thesis by (rule moves_no_trans)
  next
    case False
    then have "s' = s1" using Cons.prems new old m by auto
    with m1 show ?thesis by simp
  qed
qed (simp add: moves_refl)

lemma moves_wf: "moves d s s' \<Longrightarrow> db_wf s \<Longrightarrow> db_wf s'"
  by (simp add: moves_def)

lemma check_both_sides_moves:
  assumes "db_wf s" "get_asset s i = Inr x" "get_asset s j = Inr y" "check_both_sides x y e s = Inr (s', r)"
  shows "moves no_flow s s'"
proof -
  from assms(4) obtain s1 r1 r2 where c: "check_call_orders x e s = Inr (s1, r1)" "check_call_orders y e s1 = Inr (s', r2)"
    by (auto simp: check_both_sides_def)
  have m1: "moves no_flow s s1"
    by (rule check_call_orders_moves [OF _ assms(1) c(1)]) (use assms(2) get_asset_id [OF assms(2)] in simp)
  have "moves no_flow s1 s'"
    by (rule check_call_orders_moves [OF _ moves_wf [OF m1 assms(1)] c(2)])
      (use assms(3) get_asset_id [OF assms(3)] moves_get_asset [OF m1] in simp)
  with m1 show ?thesis by (rule moves_no_trans)
qed

lemma apply_order_moves:
  assumes "db_wf s" "apply_order k e s = Inr (s', r)"
  shows "moves no_flow s s'"
proof -
  from assms(2) obtain ord x y i j s1 c where ord: "tfind lo_id k (limit_orders s) = Some ord"
    and xy: "get_asset s i = Inr x" "get_asset s j = Inr y" and s1: "check_both_sides x y e s = Inr (s1, c)"
    and rest: "s' = s1 \<or> (\<exists>js s2 s3 d. match_loop k js s1 = Inr s2 \<and> check_both_sides x y e s2 = Inr (s3, d) \<and>
      (s' = s3 \<or> (\<exists>u. tfind lo_id k (limit_orders s3) = Some u \<and> maybe_cull_small_order u s3 = Inr (s', r))))"
    unfolding apply_order_def by (auto split: option.splits if_splits simp: Let_def) blast+
  have m1: "moves no_flow s s1" by (rule check_both_sides_moves [OF assms(1) xy s1])
  from rest show ?thesis
  proof
    assume "\<exists>js s2 s3 d. match_loop k js s1 = Inr s2 \<and> check_both_sides x y e s2 = Inr (s3, d) \<and>
      (s' = s3 \<or> (\<exists>u. tfind lo_id k (limit_orders s3) = Some u \<and> maybe_cull_small_order u s3 = Inr (s', r)))"
    then obtain js s2 s3 d where s2: "match_loop k js s1 = Inr s2" and s3: "check_both_sides x y e s2 = Inr (s3, d)"
      and s': "s' = s3 \<or> (\<exists>u. tfind lo_id k (limit_orders s3) = Some u \<and> maybe_cull_small_order u s3 = Inr (s', r))"
      by blast
    have m2: "moves no_flow s s2" by (rule moves_no_trans [OF m1 match_loop_moves [OF s2]])
    have "moves no_flow s2 s3"
      by (rule check_both_sides_moves [OF moves_wf [OF m2 assms(1)], where i = i and j = j, OF _ _ s3]) (simp_all add: moves_get_asset [OF m2] xy)
    with m2 have m3: "moves no_flow s s3" by (rule moves_no_trans)
    from s' show ?thesis
    proof
      assume "\<exists>u. tfind lo_id k (limit_orders s3) = Some u \<and> maybe_cull_small_order u s3 = Inr (s', r)"
      then obtain u where "tfind lo_id (lo_id u) (limit_orders s3) = Some u" "maybe_cull_small_order u s3 = Inr (s', r)"
        using tfind_id by metis
      with m3 maybe_cull_moves show ?thesis by (blast intro: moves_no_trans)
    qed (use m3 in simp)
  qed (use m1 in simp)
qed

section \<open>Bids and revival\<close>

lemma bid_create_moves:
  assumes "\<And>i. cb_id (mk i) = i"
  shows "moves (\<lambda>a. amt a (base (inv_swan_price (mk (next_id (bids s)))))) s (s\<lparr>bids := tcreate mk (bids s)\<rparr>)"
proof -
  have "held_bids a (tcreate mk (bids s)) = held_bids a (bids s) + amt a (base (inv_swan_price (mk (next_id (bids s)))))" for a
    by (simp add: held_bids_def tsum_create)
  then show ?thesis
    using assms by (auto simp: moves_def db_wf_def chain_frame table_wf_create intro!: flow_eqI)
qed

lemma bid_remove_moves:
  assumes "tfind cb_id i (bids s) = Some b"
  shows "moves (\<lambda>a. - amt a (base (inv_swan_price b))) s (s\<lparr>bids := tremove cb_id i (bids s)\<rparr>)"
proof -
  have "held_bids a (tremove cb_id i (bids s)) = held_bids a (bids s) - amt a (base (inv_swan_price b))" if "db_wf s" for a
    using that tsum_remove [of cb_id "bids s" i b] assms by (simp add: db_wf_def held_bids_def)
  then show ?thesis
    by (auto simp: moves_def db_wf_def chain_frame table_wf_remove intro!: flow_eqI)
qed

lemma call_create_moves:
  assumes "\<And>i. co_id (mk i) = i"
  shows "moves (\<lambda>a. amt a (get_collateral (mk (next_id (call_orders s))))) s (s\<lparr>call_orders := tcreate mk (call_orders s)\<rparr>)"
proof -
  have "held_call a (tcreate mk (call_orders s)) = held_call a (call_orders s) + amt a (get_collateral (mk (next_id (call_orders s))))" for a
    by (simp add: held_call_def tsum_create)
  then show ?thesis
    using assms by (auto simp: moves_def db_wf_def chain_frame table_wf_create intro!: flow_eqI)
qed

lemma cancel_bid_moves:
  assumes "tfind cb_id (cb_id bid) (bids s) = Some bid" "cancel_bid bid s = Inr s'"
  shows "moves no_flow s s'" "bitassets s' = bitassets s"
proof -
  from assms(2) obtain s1 where s1: "adjust_balance (bidder bid) (base (inv_swan_price bid)) s = Inr s1"
    "s' = s1\<lparr>bids := tremove cb_id (cb_id bid) (bids s1)\<rparr>" by (auto simp: cancel_bid_def)
  note fr = adjust_balance_frame [OF s1(1)]
  have "tfind cb_id (cb_id bid) (bids s1) = Some bid" using assms(1) fr by simp
  from adjust_balance_moves [OF s1(1)] bid_remove_moves [OF this, folded s1(2)]
  show "moves no_flow s s'" by (rule moves_trans) (simp add: no_flow_def)
  show "bitassets s' = bitassets s" using s1(2) fr by simp
qed

lemma cancel_bids_moves:
  assumes "foldE cancel_bid_id ids s = Inr s'"
  shows "moves no_flow s s' \<and> bitassets s' = bitassets s"
proof (rule foldE_invariant [OF assms, of "\<lambda>t. moves no_flow s t \<and> bitassets t = bitassets s"])
  fix i t t' assume t: "moves no_flow s t \<and> bitassets t = bitassets s" and c: "cancel_bid_id i t = Inr t'"
  from c obtain b where b: "tfind cb_id i (bids t) = Some b" "cancel_bid b t = Inr t'" by (auto simp: cancel_bid_id_def)
  from cancel_bid_moves [of b t t'] b tfind_id [OF b(1)] have "moves no_flow t t'" "bitassets t' = bitassets t" by auto
  with t show "moves no_flow s t' \<and> bitassets t' = bitassets s" using moves_no_trans by auto
qed (simp add: moves_refl)

lemma bitasset_release_moves:
  assumes "tfind bit_id i (bitassets s) = Some b"
  shows "moves (\<lambda>a. - amt a (asset_of (settlement_fund b) (short_backing_asset (bit_options b)))) s
    (s\<lparr>bitassets := tmodify bit_id i (\<lambda>b. b\<lparr>settlement_price := null_price, settlement_fund := 0\<rparr>) (bitassets s)\<rparr>)"
proof -
  let ?f = "\<lambda>b. b\<lparr>settlement_price := null_price, settlement_fund := 0\<rparr>"
  have "bit_wf (tmodify bit_id i ?f (bitassets s))" if "bit_wf (bitassets s)"
    using that table_wf_modify [of bit_id "bitassets s" ?f i] by (auto simp: bit_wf_def tmodify_def)
  moreover have "feed_wf (assets s) (tmodify bit_id i ?f (bitassets s))" if "feed_wf (assets s) (bitassets s)"
    using that by (rule feed_wf_modify) (simp_all add: bitasset_ok_def has_settlement_def price_is_null_def price_eq_def)
  moreover have "held_funds a (tmodify bit_id i ?f (bitassets s)) =
      held_funds a (bitassets s) - amt a (asset_of (settlement_fund b) (short_backing_asset (bit_options b)))"
    if "bit_wf (bitassets s)" for a
    using that tsum_modify [of bit_id "bitassets s" i b] assms by (simp add: bit_wf_def held_funds_def)
  ultimately show ?thesis
    by (auto simp: moves_def db_wf_def chain_frame intro!: flow_eqI simp del: amt_simps)
qed

lemma cancel_bids_and_revive_moves:
  assumes "tfind bit_id (bit_id bad) (bitassets s) = Some bad" "cancel_bids_and_revive_mpa mia bad s = Inr s'"
  shows "moves (\<lambda>a. - amt a (asset_of (settlement_fund bad) (short_backing_asset (bit_options bad)))) s s'"
proof -
  from assms(2) obtain ids s1 where s1: "foldE cancel_bid_id ids s = Inr s1"
    "s' = s1\<lparr>bitassets := tmodify bit_id (bit_id bad) (\<lambda>b. b\<lparr>settlement_price := null_price, settlement_fund := 0\<rparr>) (bitassets s1)\<rparr>"
    by (auto simp: cancel_bids_and_revive_mpa_def split: if_splits)
  from cancel_bids_moves [OF s1(1)] have m: "moves no_flow s s1" and b: "bitassets s1 = bitassets s" by auto
  have "tfind bit_id (bit_id bad) (bitassets s1) = Some bad" using assms(1) b by simp
  from m bitasset_release_moves [OF this, folded s1(2)] show ?thesis by (rule moves_trans) (simp add: no_flow_def)
qed

lemma execute_bid_moves:
  assumes "tfind cb_id (cb_id bid) (bids s) = Some bid" "execute_bid bid covered fund feed s = Inr s'"
  shows "moves (\<lambda>a. amt a (asset_of fund (asset_id (base (inv_swan_price bid))))) s s'" "bitassets s' = bitassets s"
proof -
  let ?b = "base (inv_swan_price bid)"
  let ?mk = "\<lambda>cp i. \<lparr>co_id = i, borrower = bidder bid, collateral = amount ?b + fund, debt = covered, co_call_price = cp\<rparr>"
  from assms(2) obtain cp s2 where cp: "call_price (asset_of covered (asset_id (quote (inv_swan_price bid))))
      (asset_of (amount ?b + fund) (asset_id ?b)) (maintenance_collateral_ratio feed) = Inr cp"
    and s2: "(if asset_id ?b = core_asset then bindE (get_account (s\<lparr>call_orders := tcreate (?mk cp) (call_orders s)\<rparr>) (bidder bid))
        (\<lambda>ao. add_core_in_orders ao (amount ?b + fund) (s\<lparr>call_orders := tcreate (?mk cp) (call_orders s)\<rparr>))
      else Inr (s\<lparr>call_orders := tcreate (?mk cp) (call_orders s)\<rparr>)) = Inr s2"
    and s': "s' = s2\<lparr>bids := tremove cb_id (cb_id bid) (bids s2)\<rparr>"
    unfolding execute_bid_def Let_def by (auto simp del: if_throw_Inr)
  let ?s1 = "s\<lparr>call_orders := tcreate (?mk cp) (call_orders s)\<rparr>"
  have id: "asset_id (base cp) = asset_id ?b"
    using cp by (auto simp: call_price_def Let_def split: if_splits)
  have m1: "moves (\<lambda>a. amt a (asset_of (amount ?b + fund) (asset_id ?b))) s ?s1"
    using call_create_moves [of "?mk cp" s] id by (simp add: get_collateral_def)
  have m2: "moves no_flow ?s1 s2"
    using s2 core_in_orders_moves moves_refl [of ?s1] by (auto split: if_splits simp del: amt_simps)
  have t: "\<exists>t. s2 = ?s1\<lparr>statistics := t\<rparr>"
  proof (cases "asset_id ?b = core_asset")
    case False
    then have "s2 = ?s1\<lparr>statistics := statistics ?s1\<rparr>" using s2 by simp
    then show ?thesis by blast
  qed (use s2 in \<open>auto simp: add_core_in_orders_def\<close>)
  from m1 m2 have "moves (\<lambda>a. amt a (asset_of (amount ?b + fund) (asset_id ?b))) s s2" by (rule moves_trans) (simp add: no_flow_def)
  moreover have "tfind cb_id (cb_id bid) (bids s2) = Some bid" using t assms(1) by auto
  from bid_remove_moves [OF this, folded s'] have "moves (\<lambda>a. - amt a ?b) s2 s'" .
  ultimately show "moves (\<lambda>a. amt a (asset_of fund (asset_id ?b))) s s'" by (rule moves_trans) (simp add: amt_def)
  show "bitassets s' = bitassets s" using t s' by auto
qed

lemma revive_bitasset_moves:
  assumes "db_wf s" "revive_bitasset mia s = Inr s'"
  shows "moves no_flow s s'"
proof -
  from assms(2) obtain bad bdd where bad: "bitasset_data s mia = Inr bad" and bdd: "dynamic_data s mia = Inr bdd"
    by (auto simp: revive_bitasset_def split: if_splits)
  let ?B = "short_backing_asset (bit_options bad)"
  have t: "tfind bit_id (bit_id bad) (bitassets s) = Some bad" by (rule bitasset_data_tfind [OF bad])
  show ?thesis
  proof (cases "current_supply bdd > 0")
    case True
    let ?pr = "\<lparr>base = asset_of 0 ?B, quote = asset_of (current_supply bdd) (as_id mia)\<rparr>"
    let ?bid = "\<lparr>cb_id = next_id (bids s), bidder = as_issuer mia, inv_swan_price = ?pr\<rparr>"
    let ?s1 = "s\<lparr>bids := tcreate (\<lambda>i. ?bid\<lparr>cb_id := i\<rparr>) (bids s)\<rparr>"
    from assms(2) bad bdd True obtain s2 where e: "execute_bid ?bid (current_supply bdd) (settlement_fund bad) (current_feed bad) ?s1 = Inr s2"
      and c: "cancel_bids_and_revive_mpa mia bad s2 = Inr s'"
      by (auto simp: revive_bitasset_def Let_def split: if_splits)
    have m1: "moves no_flow s ?s1"
      using bid_create_moves [of "\<lambda>i. ?bid\<lparr>cb_id := i\<rparr>" s] by (simp add: no_flow_def [abs_def])
    have "tfind cb_id (cb_id ?bid) (bids ?s1) = Some ?bid" using assms(1) by (simp add: db_wf_def tfind_create)
    note m2 = execute_bid_moves [OF this e]
    have "tfind bit_id (bit_id bad) (bitassets s2) = Some bad" using t m2(2) by simp
    note m3 = cancel_bids_and_revive_moves [OF this c]
    show ?thesis by (rule moves_trans [OF moves_trans [OF m1 m2(1) refl] m3]) (simp add: no_flow_def)
  next
    case False
    with assms(2) bad bdd have "settlement_fund bad = 0" "cancel_bids_and_revive_mpa mia bad s = Inr s'"
      by (auto simp: revive_bitasset_def split: if_splits)
    with cancel_bids_and_revive_moves [OF t] show ?thesis by (simp add: no_flow_def [abs_def])
  qed
qed

end
