(* ===== verification/Market_Properties.thy ===== *)
theory Market_Properties
  imports Market_Conservation
begin

text \<open>The properties of the matching engine: conservation of every asset through new orders, global settlement and
  revival, the core that a cancellation creates, and the exact market fee; with a small concrete market on which
  they are evaluated.\<close>

section \<open>Fees and settled assets\<close>

lemma calculate_market_fee_to_share:
  assumes "fee_options_ok (as_options ao)" "0 \<le> amount x" "amount x \<le> int64_max"
  shows "to_share (u128 (u128 (amount x) * market_fee_percent (as_options ao)) div GRAPHENE_100_PERCENT) =
    Inr (amount x * market_fee_percent (as_options ao) div GRAPHENE_100_PERCENT)"
proof -
  let ?p = "market_fee_percent (as_options ao)"
  have p: "0 \<le> ?p" "?p \<le> GRAPHENE_100_PERCENT" using assms(1) by (simp_all add: fee_options_ok_def)
  have u: "u128 (amount x) = amount x" using assms(2,3) by (intro u128_id) (auto simp: int64_max_def)
  have "amount x * ?p \<le> int64_max * GRAPHENE_100_PERCENT" using assms(2,3) p by (intro mult_mono) (auto simp: int64_max_def)
  then have "u128 (amount x * ?p) = amount x * ?p"
    using assms(2) p by (intro u128_id) (auto simp: int64_max_def chain_constants)
  moreover have "0 \<le> amount x * ?p div GRAPHENE_100_PERCENT" "amount x * ?p div GRAPHENE_100_PERCENT \<le> amount x"
    using market_fee_div_range assms(2) p by auto
  ultimately show ?thesis using u assms(3) by (simp add: to_share_def signed64_def int64_max_def)
qed

text \<open>The settled asset: supply and settlement price.\<close>

lemma globally_settled:
  assumes "db_wf s'" "get_asset s (as_id mia) = Inr mia" "globally_settle_asset mia p s = Inr s'"
  shows "supply_of (as_id mia) s' = supply_of (as_id mia) s \<and> (\<exists>b. bitasset_data s' mia = Inr b \<and> has_settlement b \<and>
    settlement_price b = \<lparr>base = asset_of (supply_of (as_id mia) s) (as_id mia),
      quote = asset_of (settlement_fund b) (short_backing_asset (bit_options b))\<rparr>)"
  using assms(3)
proof (rule globally_settle_steps)
  fix b :: asset_bitasset_data_object and d :: asset_dynamic_data_object and ba calls s1 and g :: asset
  let ?m = "as_id mia"
  let ?pr = "\<lparr>base = asset_of (current_supply d) ?m, quote = g\<rparr>"
  assume st: "bitasset_data s mia = Inr b" "get_asset s (short_backing_asset (bit_options b)) = Inr ba"
    "dynamic_data s mia = Inr d" "?m \<noteq> asset_id g"
    "s' = s1\<lparr>bitassets := tmodify bit_id (bit_id b)
        (\<lambda>b. b\<lparr>settlement_price := ?pr, settlement_fund := amount g\<rparr>) (bitassets s1),
       dyn_data := tmodify dyn_id (dyn_id d) (\<lambda>r. r\<lparr>current_supply := current_supply d\<rparr>) (dyn_data s1)\<rparr>"
    "assets s1 = assets s" "bitassets s1 = bitassets s" "asset_id g = as_id ba"
  have s0: "supply_of ?m s = current_supply d" by (rule supply_of_data [OF assms(2) st(3)])
  have d: "dyn_id d = dynamic_asset_data_id mia" using st(3) by (simp add: dynamic_data_simp tfind_id)
  have "mia \<in> set (rows (assets s'))" using assms(2) st(5,6) by (auto simp: get_asset_def dest: tfind_SomeD)
  then have "tfind dyn_id (dynamic_asset_data_id mia) (dyn_data s') \<noteq> None"
    using assms(1) unfolding db_wf_def dyn_wf_def by blast
  then have "supply_of ?m s' = current_supply d"
    using st(5,6) assms(2) d by (auto simp: supply_of_def dyn_of_def get_asset_def tfind_modify)
  moreover have "bitasset_data s' mia = Inr (b\<lparr>settlement_price := ?pr, settlement_fund := amount g\<rparr>)"
    using st(1,5,7) by (auto simp: bitasset_data_def tfind_modify tfind_id split: option.splits)
  moreover have "g = asset_of (amount g) (short_backing_asset (bit_options b))"
    using st(8) get_asset_id [OF st(2)] by (simp add: asset_eq_iff)
  ultimately show ?thesis using s0 settled_not_null [OF _ , of "asset_of (current_supply d) ?m" g] st(4)
    by (simp add: has_settlement_def)
qed

section \<open>Revival of a settled asset\<close>

lemma cancel_bids_frame:
  assumes "foldE cancel_bid_id ids s = Inr s'"
  shows "limit_orders s' = limit_orders s \<and> call_orders s' = call_orders s \<and> bitassets s' = bitassets s"
  using assms
proof (rule foldE_invariant)
  fix i t t'
  assume t: "limit_orders t = limit_orders s \<and> call_orders t = call_orders s \<and> bitassets t = bitassets s" and c: "cancel_bid_id i t = Inr t'"
  from c obtain b where "cancel_bid b t = Inr t'" by (auto simp: cancel_bid_id_def split: option.splits)
  then obtain t1 where "adjust_balance (bidder b) (base (inv_swan_price b)) t = Inr t1" "t' = t1\<lparr>bids := tremove cb_id (cb_id b) (bids t1)\<rparr>"
    by (auto simp: cancel_bid_def)
  with adjust_balance_frame(1,2,7) t
  show "limit_orders t' = limit_orders s \<and> call_orders t' = call_orders s \<and> bitassets t' = bitassets s" by auto
qed simp

lemma cancel_bids_and_revive_frame:
  assumes "cancel_bids_and_revive_mpa mia bad s = Inr s'"
  shows "limit_orders s' = limit_orders s" "call_orders s' = call_orders s"
    "bitassets s' = tmodify bit_id (bit_id bad) (\<lambda>b. b\<lparr>settlement_price := null_price, settlement_fund := 0\<rparr>) (bitassets s)"
proof -
  from assms obtain ids s1 where s1: "foldE cancel_bid_id ids s = Inr s1"
    "s' = s1\<lparr>bitassets := tmodify bit_id (bit_id bad) (\<lambda>b. b\<lparr>settlement_price := null_price, settlement_fund := 0\<rparr>) (bitassets s1)\<rparr>"
    by (auto simp: cancel_bids_and_revive_mpa_def split: if_splits)
  with cancel_bids_frame [OF s1(1)] show "limit_orders s' = limit_orders s" "call_orders s' = call_orders s"
    "bitassets s' = tmodify bit_id (bit_id bad) (\<lambda>b. b\<lparr>settlement_price := null_price, settlement_fund := 0\<rparr>) (bitassets s)"
    by simp_all
qed

lemma execute_bid_frame:
  assumes "execute_bid bid covered fund feed s = Inr s'"
  shows "limit_orders s' = limit_orders s \<and> bitassets s' = bitassets s \<and> (\<exists>cp. call_orders s' = tcreate (\<lambda>i. \<lparr>co_id = i, borrower = bidder bid,
      collateral = amount (base (inv_swan_price bid)) + fund, debt = covered, co_call_price = cp\<rparr>) (call_orders s))"
proof -
  let ?b = "base (inv_swan_price bid)"
  let ?s1 = "\<lambda>cp. s\<lparr>call_orders := tcreate (\<lambda>i. \<lparr>co_id = i, borrower = bidder bid, collateral = amount ?b + fund, debt = covered,
    co_call_price = cp\<rparr>) (call_orders s)\<rparr>"
  from assms obtain cp s2 where s2: "(if asset_id ?b = core_asset then bindE (get_account (?s1 cp) (bidder bid))
        (\<lambda>ao. add_core_in_orders ao (amount ?b + fund) (?s1 cp)) else Inr (?s1 cp)) = Inr s2"
    and s': "s' = s2\<lparr>bids := tremove cb_id (cb_id bid) (bids s2)\<rparr>"
    unfolding execute_bid_def Let_def by (auto simp del: if_throw_Inr)
  have "limit_orders s2 = limit_orders (?s1 cp) \<and> bitassets s2 = bitassets (?s1 cp) \<and> call_orders s2 = call_orders (?s1 cp)"
  proof (cases "asset_id ?b = core_asset")
    case True
    with s2 obtain ao where "add_core_in_orders ao (amount ?b + fund) (?s1 cp) = Inr s2" by auto
    then show ?thesis by (simp only: core_in_orders_frame [OF disjI2])
  qed (use s2 in auto)
  with s' show ?thesis by auto
qed

text \<open>The position that takes over the debt of a revived asset: of the issuer, with the whole supply as its debt and the settlement fund
  as its collateral. An asset without supply leaves no position.\<close>

definition position_taken_over :: "asset_object \<Rightarrow> asset_dynamic_data_object \<Rightarrow> asset_bitasset_data_object \<Rightarrow> database \<Rightarrow> database \<Rightarrow> bool" where
  "position_taken_over mia bdd bad s s' \<longleftrightarrow>
     (if 0 < current_supply bdd
      then (\<exists>c. tfind co_id (next_id (call_orders s)) (call_orders s') = Some c \<and> borrower c = as_issuer mia \<and>
              debt c = current_supply bdd \<and> collateral c = settlement_fund bad) \<and>
           (\<forall>i. i \<noteq> next_id (call_orders s) \<longrightarrow> tfind co_id i (call_orders s') = tfind co_id i (call_orders s))
      else settlement_fund bad = 0 \<and> call_orders s' = call_orders s)"

lemma revive_bitasset_effect:
  assumes "db_wf s" "revive_bitasset mia s = Inr s'"
  shows "limit_orders s' = limit_orders s \<and> (\<exists>bad bdd bad'. bitasset_data s mia = Inr bad \<and> dynamic_data s mia = Inr bdd \<and>
    position_taken_over mia bdd bad s s' \<and> bitasset_data s' mia = Inr bad' \<and> settlement_fund bad' = 0 \<and> \<not> has_settlement bad')"
proof -
  from assms(2) obtain bad bdd where bad: "bitasset_data s mia = Inr bad" and bdd: "dynamic_data s mia = Inr bdd"
    by (auto simp: revive_bitasset_def split: if_splits)
  have wf: "table_wf co_id (call_orders s)" using assms(1) by (simp add: db_wf_def)
  obtain s1 where c: "cancel_bids_and_revive_mpa mia bad s1 = Inr s'" and
    s1: "limit_orders s1 = limit_orders s" "bitassets s1 = bitassets s" "position_taken_over mia bdd bad s s1"
  proof (cases "current_supply bdd > 0")
    case True
    let ?pr = "\<lparr>base = asset_of 0 (short_backing_asset (bit_options bad)), quote = asset_of (current_supply bdd) (as_id mia)\<rparr>"
    let ?bid = "\<lparr>cb_id = next_id (bids s), bidder = as_issuer mia, inv_swan_price = ?pr\<rparr>"
    from assms(2) bad bdd True obtain s2 where e: "execute_bid ?bid (current_supply bdd) (settlement_fund bad) (current_feed bad)
        (s\<lparr>bids := tcreate (\<lambda>i. ?bid\<lparr>cb_id := i\<rparr>) (bids s)\<rparr>) = Inr s2" and c: "cancel_bids_and_revive_mpa mia bad s2 = Inr s'"
      by (auto simp: revive_bitasset_def Let_def split: if_splits)
    show thesis by (rule that [OF c]) (use execute_bid_frame [OF e] True in \<open>auto simp: position_taken_over_def tfind_create [OF wf]\<close>)
  next
    case False
    with assms(2) bad bdd have "settlement_fund bad = 0" "cancel_bids_and_revive_mpa mia bad s = Inr s'"
      by (auto simp: revive_bitasset_def split: if_splits)
    with False that [of s] show thesis by (simp add: position_taken_over_def)
  qed
  note f = cancel_bids_and_revive_frame [OF c]
  obtain i where i: "bitasset_data_id mia = Some i" "tfind bit_id i (bitassets s) = Some bad"
    using bad by (auto simp: bitasset_data_def split: option.splits)
  then have "bitasset_data s' mia = Inr (bad\<lparr>settlement_price := null_price, settlement_fund := 0\<rparr>)"
    using f(3) s1(2) tfind_id [OF i(2)] by (simp add: bitasset_data_def tfind_modify)
  moreover have "\<not> has_settlement (bad\<lparr>settlement_price := null_price, settlement_fund := 0\<rparr>)"
    by (simp add: has_settlement_def price_is_null_def price_eq_def)
  ultimately show ?thesis using bad bdd f(1,2) s1 by (auto simp: position_taken_over_def)
qed

section \<open>Properties\<close>


text \<open>A small market: core (asset 0), a dollar (asset 2) backed by core with a feed of two core per dollar, one
  call order below the maintenance ratio, two orders that sell dollars and one that buys them.\<close>

definition demo_orders :: database where
  "demo_orders = demo_db\<lparr>
     assets := \<lparr>next_id = 3, rows = [
       \<lparr>as_id = 0, as_symbol = ''COCOS'', as_precision = 5, as_issuer = 9, as_options = plain_options,
        dynamic_asset_data_id = 0, bitasset_data_id = None\<rparr>,
       \<lparr>as_id = 2, as_symbol = ''USD'', as_precision = 4, as_issuer = 3, as_options = plain_options,
        dynamic_asset_data_id = 2, bitasset_data_id = Some 2\<rparr>]\<rparr>,
     dyn_data := \<lparr>next_id = 3, rows = [\<lparr>dyn_id = 0, current_supply = 311, accumulated_fees = 1\<rparr>,
       \<lparr>dyn_id = 2, current_supply = 30, accumulated_fees = 0\<rparr>]\<rparr>,
     bitassets := \<lparr>next_id = 3, rows = [
       \<lparr>bit_id = 2, bit_options = \<lparr>feed_lifetime_sec = 3, minimum_feeds = 1, force_settlement_delay_sec = 6,
          force_settlement_offset_percent = 0, maximum_force_settlement_volume = 2000, short_backing_asset = 0\<rparr>,
        feeds = [], current_feed = \<lparr>pf_settlement_price = \<lparr>base = asset_of 10 2, quote = asset_of 20 0\<rparr>,
          maintenance_collateral_ratio = 1750, maximum_short_squeeze_ratio = 1500\<rparr>,
        current_feed_publication_time = 1, force_settled_volume = 0, settlement_price = null_price,
        settlement_fund = 0\<rparr>]\<rparr>,
     call_orders := \<lparr>next_id = 3, rows = [
       \<lparr>co_id = 2, borrower = 2, collateral = 100, debt = 30, co_call_price = \<lparr>base = asset_of 40 0, quote = asset_of 21 2\<rparr>\<rparr>]\<rparr>,
     limit_orders := \<lparr>next_id = 5, rows = [
       \<lparr>lo_id = 2, lo_expiration = 5, lo_seller = 3, for_sale = 10,
        sell_price = \<lparr>base = asset_of 10 2, quote = asset_of 30 0\<rparr>, deferred_fee = Some 1\<rparr>,
       \<lparr>lo_id = 3, lo_expiration = 5, lo_seller = 2, for_sale = 60,
        sell_price = \<lparr>base = asset_of 60 0, quote = asset_of 15 2\<rparr>, deferred_fee = Some 1\<rparr>,
       \<lparr>lo_id = 4, lo_expiration = 5, lo_seller = 3, for_sale = 5,
        sell_price = \<lparr>base = asset_of 5 2, quote = asset_of 18 0\<rparr>, deferred_fee = None\<rparr>]\<rparr>,
     statistics := \<lparr>next_id = 4, rows = [\<lparr>st_id = 2, st_owner = 2, total_core_in_orders = 160\<rparr>,
       \<lparr>st_id = 3, st_owner = 3, total_core_in_orders = 0\<rparr>]\<rparr>,
     parameters := \<lparr>block_interval = 2, cashback_gas_period_seconds = 3, cashback_vb_period_seconds = 3,
       maximum_asset_feed_publishers = 4\<rparr>, head_block_time := 2\<rparr>"

lemma demo_orders_wf: "db_wf demo_orders"
  by (simp add: demo_orders_def demo_defs table_wf_def db_wf_def dyn_wf_def limit_wf_def limit_order_ok_def feed_wf_def map_filter_simps bitasset_ok_def
      bit_wf_def fee_options_ok_def has_settlement_def price_is_null_def price_eq_def null_price_def price_feed_is_for_def
      tfind_def chain_constants in_int64_def int64_max_def int64_min_def u128_def)


lemma moves_conserve:
  assumes "moves no_flow s s'" "db_wf s"
  shows "db_wf s'" "a \<noteq> core_asset \<Longrightarrow> imbalance a s' = imbalance a s"
    "imbalance core_asset s \<le> imbalance core_asset s'"
    "imbalance core_asset s' \<le> imbalance core_asset s + (deferred (limit_orders s) - deferred (limit_orders s'))"
  using assms by (auto simp: moves_def flow_def no_flow_def)

text \<open>C3: applying a new order conserves every asset. However the order is matched, whatever margin calls and black
  swans it triggers, afterwards the database is well-formed again and for every asset but core the sum of all
  holdings minus the recorded supply is what it was; for core that difference never shrinks and grows at most by
  the deferred fees of the limit orders that are gone.\<close>

theorem apply_order_conserves:
  assumes "db_wf s" "apply_order k allow_black_swan s = Inr (s', filled)"
  shows "db_wf s' \<and> (\<forall>a. a \<noteq> core_asset \<longrightarrow> imbalance a s' = imbalance a s) \<and>
    imbalance core_asset s \<le> imbalance core_asset s' \<and>
    imbalance core_asset s' \<le> imbalance core_asset s + (deferred (limit_orders s) - deferred (limit_orders s'))"
  using moves_conserve [OF apply_order_moves [OF assms] assms(1)] by blast

lemma demo_apply: "\<exists>s' r. apply_order 3 True demo_orders = Inr (s', r) \<and> map lo_id (rows (limit_orders s')) = [3] \<and>
    map collateral (rows (call_orders s')) = [70]"
proof -
  have "(case apply_order 3 True demo_orders of Inl _ \<Rightarrow> False | Inr (s', r) \<Rightarrow>
      map lo_id (rows (limit_orders s')) = [3] \<and> map collateral (rows (call_orders s')) = [70])" by code_simp
  then show ?thesis by (auto split: sum.splits)
qed

theorem apply_order_conserves_witness:
  "\<exists>s' r. apply_order 3 True demo_orders = Inr (s', r) \<and> map lo_id (rows (limit_orders s')) = [3] \<and>
    db_wf s' \<and> imbalance 2 s' = imbalance 2 demo_orders"
  using demo_apply apply_order_conserves [OF demo_orders_wf, of 3 True]
  by (metis core_asset_def numeral_eq_iff rel_simps(76))

text \<open>C4: global settlement of a market-issued asset at a price of that asset neither creates nor destroys anything. For
  every asset the sum of all holdings, the new settlement fund included, minus the supply is unchanged, the supply
  of the settled asset is what it was, and the asset now has a settlement price that divides exactly this supply by
  the settlement fund.\<close>

theorem globally_settle_conserves:
  assumes "db_wf s" "get_asset s (as_id mia) = Inr mia" "asset_id (base p) = as_id mia"
    and "globally_settle_asset mia p s = Inr s'"
  shows "db_wf s' \<and> (\<forall>a. imbalance a s' = imbalance a s) \<and> supply_of (as_id mia) s' = supply_of (as_id mia) s \<and>
    (\<exists>b. bitasset_data s' mia = Inr b \<and> has_settlement b \<and>
      settlement_price b = \<lparr>base = asset_of (supply_of (as_id mia) s) (as_id mia),
        quote = asset_of (settlement_fund b) (short_backing_asset (bit_options b))\<rparr>)"
proof -
  have "supply_of (as_id mia) s' = supply_of (as_id mia) s \<and> (\<exists>b. bitasset_data s' mia = Inr b \<and> has_settlement b \<and>
      settlement_price b = \<lparr>base = asset_of (supply_of (as_id mia) s) (as_id mia),
        quote = asset_of (settlement_fund b) (short_backing_asset (bit_options b))\<rparr>)"
    using globally_settle_effect [OF assms] by (intro globally_settled [OF _ assms(2,4)]) blast
  with globally_settle_effect [OF assms] show ?thesis by blast
qed

theorem globally_settle_conserves_witness:
  "\<exists>s' mia. get_asset demo_orders 2 = Inr mia \<and>
    globally_settle_asset mia \<lparr>base = asset_of 1 2, quote = asset_of 3 0\<rparr> demo_orders = Inr s' \<and>
    imbalance 0 s' = imbalance 0 demo_orders \<and> supply_of 2 s' = 30"
proof -
  have "case get_asset demo_orders 2 of Inl _ \<Rightarrow> False | Inr mia \<Rightarrow> as_id mia = 2 \<and>
      (case globally_settle_asset mia \<lparr>base = asset_of 1 2, quote = asset_of 3 0\<rparr> demo_orders of
        Inl _ \<Rightarrow> False | Inr _ \<Rightarrow> supply_of 2 demo_orders = 30)" by code_simp
  then obtain mia s' where m: "get_asset demo_orders 2 = Inr mia" "as_id mia = 2" "supply_of 2 demo_orders = 30"
    and g: "globally_settle_asset mia \<lparr>base = asset_of 1 2, quote = asset_of 3 0\<rparr> demo_orders = Inr s'"
    by (auto split: sum.splits)
  from globally_settle_conserves [OF demo_orders_wf _ _ g] m g show ?thesis by auto
qed

text \<open>C25: reviving a settled asset conserves every asset exactly, core included, and leaves nothing settled behind. With a positive supply
  one new position of the issuer takes over the whole supply as its debt and the settlement fund as its collateral, and no other position
  changes; without supply the fund was empty and no position changes. Afterwards the asset has no settlement fund and no
  settlement price.\<close>

theorem revive_bitasset_conserves:
  assumes "db_wf s" "revive_bitasset mia s = Inr s'"
  shows "db_wf s' \<and> (\<forall>a. imbalance a s' = imbalance a s) \<and>
    (\<exists>bad bdd bad'. bitasset_data s mia = Inr bad \<and> dynamic_data s mia = Inr bdd \<and> position_taken_over mia bdd bad s s' \<and>
      bitasset_data s' mia = Inr bad' \<and> settlement_fund bad' = 0 \<and> \<not> has_settlement bad')"
  using moves_exact [OF revive_bitasset_moves [OF assms] assms(1)] revive_bitasset_effect [OF assms] by (simp add: no_flow_def)

theorem revive_bitasset_conserves_witness:
  "\<exists>mia s s'. get_asset demo_orders 2 = Inr mia \<and>
    globally_settle_asset mia \<lparr>base = asset_of 1 2, quote = asset_of 3 0\<rparr> demo_orders = Inr s \<and>
    revive_bitasset mia s = Inr s' \<and> map collateral (rows (call_orders s')) = [90] \<and>
    imbalance 2 s' = imbalance 2 s \<and> imbalance 0 s' = imbalance 0 s"
proof -
  have "case get_asset demo_orders 2 of Inl _ \<Rightarrow> False | Inr mia \<Rightarrow> as_id mia = 2 \<and>
      (case globally_settle_asset mia \<lparr>base = asset_of 1 2, quote = asset_of 3 0\<rparr> demo_orders of
        Inl _ \<Rightarrow> False | Inr s \<Rightarrow> (case revive_bitasset mia s of Inl _ \<Rightarrow> False | Inr s' \<Rightarrow>
          map collateral (rows (call_orders s')) = [90]))" by code_simp
  then obtain mia s s' where m: "get_asset demo_orders 2 = Inr mia" "as_id mia = 2"
    and g: "globally_settle_asset mia \<lparr>base = asset_of 1 2, quote = asset_of 3 0\<rparr> demo_orders = Inr s"
    and r: "revive_bitasset mia s = Inr s'" "map collateral (rows (call_orders s')) = [90]"
    by (auto split: sum.splits)
  have "db_wf s" using globally_settle_effect [OF demo_orders_wf _ _ g] m by simp
  from revive_bitasset_conserves [OF this r(1)] have "imbalance 2 s' = imbalance 2 s" "imbalance 0 s' = imbalance 0 s" by simp_all
  with m g r show ?thesis by auto
qed

text \<open>C26: cancelling a limit order creates core. The order's deferred fee was already paid into the accumulated fees when
  the order was created, and the refund on cancellation takes it from nowhere: for core the sum of all holdings minus
  the supply grows by exactly the deferred fee, for every other asset it is unchanged.\<close>

theorem cancel_limit_order_mints:
  assumes "db_wf s" "tfind lo_id (lo_id ord) (limit_orders s) = Some ord" "cancel_limit_order ord s = Inr s'"
  shows "imbalance a s' = imbalance a s + (if a = core_asset then fee_of ord else 0) \<and> db_wf s'"
  using cancel_limit_effect [OF assms] by blast

theorem cancel_limit_order_mints_witness:
  "\<exists>ord s'. tfind lo_id 2 (limit_orders demo_orders) = Some ord \<and> cancel_limit_order ord demo_orders = Inr s' \<and>
    imbalance 0 s' = imbalance 0 demo_orders + 1"
proof -
  have "case tfind lo_id 2 (limit_orders demo_orders) of None \<Rightarrow> False | Some ord \<Rightarrow> lo_id ord = 2 \<and> fee_of ord = 1 \<and>
      (case cancel_limit_order ord demo_orders of Inl _ \<Rightarrow> False | Inr _ \<Rightarrow> True)" by code_simp
  then obtain ord s' where o: "tfind lo_id 2 (limit_orders demo_orders) = Some ord" "lo_id ord = 2" "fee_of ord = 1"
    and c: "cancel_limit_order ord demo_orders = Inr s'" by (auto split: option.splits sum.splits)
  from cancel_limit_order_mints [OF demo_orders_wf _ c, of 0] o c show ?thesis by (auto simp: core_asset_def)
qed

text \<open>C27: the market fee is exact and never exceeds the trade. With options that passed validation, the fee of a trade
  of an asset that charges market fees is the floor of the percentage of the amount, capped by the asset's maximal
  fee, and otherwise zero; no 128-bit product wraps, and the fee is at most the traded amount.\<close>

theorem market_fee_exact:
  assumes "fee_options_ok (as_options ao)" "0 \<le> amount x" "amount x \<le> int64_max"
  shows "\<exists>f. calculate_market_fee ao x = Inr (asset_of f (as_id ao)) \<and> 0 \<le> f \<and> f \<le> amount x \<and>
    f = (if charges_market_fees ao then min (amount x * market_fee_percent (as_options ao) div 10000)
           (max_market_fee (as_options ao)) else 0)"
proof -
  have "\<exists>f. calculate_market_fee ao x = Inr f"
    unfolding calculate_market_fee_def calculate_market_fee_to_share [OF assms] by simp
  then obtain f where f: "calculate_market_fee ao x = Inr f" ..
  have "amount f = (if charges_market_fees ao then min (amount x * market_fee_percent (as_options ao) div 10000)
           (max_market_fee (as_options ao)) else 0)"
    using f calculate_market_fee_to_share [OF assms] assms(1)
    by (auto simp: calculate_market_fee_def fee_options_ok_def GRAPHENE_100_PERCENT_def min_def split: if_splits)
  moreover have "f = asset_of (amount f) (as_id ao)" using calculate_market_fee_id [OF f] by (simp add: asset_eq_iff)
  ultimately show ?thesis using calculate_market_fee_range [OF f assms] f by metis
qed

theorem market_fee_exact_witness:
  "\<exists>f. calculate_market_fee \<lparr>as_id = 2, as_symbol = ''USD'', as_precision = 4, as_issuer = 9,
      as_options = plain_options\<lparr>market_fee_percent := 100, max_market_fee := 7, flags := 1\<rparr>,
      dynamic_asset_data_id = 2, bitasset_data_id = None\<rparr> (asset_of 550 2) = Inr (asset_of f 2) \<and> f = 5"
  using market_fee_exact [of "\<lparr>as_id = 2, as_symbol = ''USD'', as_precision = 4, as_issuer = 9,
      as_options = plain_options\<lparr>market_fee_percent := 100, max_market_fee := 7, flags := 1\<rparr>,
      dynamic_asset_data_id = 2, bitasset_data_id = None\<rparr>" "asset_of 550 2"]
  by (simp add: plain_options_def fee_options_ok_def chain_constants int64_max_def charges_market_fees_def has_flag_def
      charge_market_fee_def)
end
