(* ===== verification/Market_Eval.thy ===== *)
theory Market_Eval
  imports Market_Properties
begin

text \<open>The market operations and their evaluators (\<open>market_evaluator.cpp\<close>, \<open>protocol/market.cpp\<close>): limit orders are
  created and cancelled, margin positions are opened, changed and closed, bids are placed on the collateral of
  settled assets. \<open>do_evaluate\<close> reads the objects the evaluator keeps pointers to; as it changes nothing,
  \<open>do_apply\<close> looks them up again in the same state.\<close>

section \<open>Operations\<close>

record limit_order_create_operation =
  oc_seller :: nat
  amount_to_sell :: asset
  min_to_receive :: asset
  oc_expiration :: nat
  fill_or_kill :: bool

record limit_order_cancel_operation =
  cancel_order :: nat
  cancel_fee_paying_account :: nat

record call_order_update_operation =
  funding_account :: nat
  delta_collateral :: asset
  delta_debt :: asset

record bid_collateral_operation =
  bc_bidder :: nat
  additional_collateral :: asset
  debt_covered :: asset

definition limit_order_create_validate :: "limit_order_create_operation \<Rightarrow> unit result" where
  "limit_order_create_validate op =
     (if \<not> asset_id (amount_to_sell op) \<noteq> asset_id (min_to_receive op) then Inl Assert_exception
      else if \<not> amount (amount_to_sell op) > 0 then Inl Assert_exception
      else if \<not> amount (min_to_receive op) > 0 then Inl Assert_exception
      else Inr ())"

definition call_order_update_validate :: "call_order_update_operation \<Rightarrow> unit result" where
  "call_order_update_validate op =
     (if \<not> asset_id (delta_collateral op) \<noteq> asset_id (delta_debt op) then Inl Assert_exception
      else if \<not> (amount (delta_collateral op) \<noteq> 0 \<or> amount (delta_debt op) \<noteq> 0) then Inl Assert_exception
      else Inr ())"

definition bid_collateral_validate :: "bid_collateral_operation \<Rightarrow> unit result" where
  "bid_collateral_validate op =
     (if \<not> (amount (debt_covered op) = 0 \<or> amount (debt_covered op) > 0 \<and> amount (additional_collateral op) > 0)
      then Inl Assert_exception else Inr ())"

section \<open>Limit orders\<close>

definition limit_order_create_evaluate :: "limit_order_create_operation \<Rightarrow> database \<Rightarrow> unit result" where
  "limit_order_create_evaluate op s =
     (if \<not> oc_expiration op \<ge> head_block_time s then Inl Assert_exception
      else bindE (get_account s (oc_seller op)) (\<lambda>seller.
      bindE (get_asset s (asset_id (amount_to_sell op))) (\<lambda>sell_asset.
      bindE (get_asset s (asset_id (min_to_receive op))) (\<lambda>receive_asset.
      if \<not> asset_id (amount_to_sell op) \<noteq> GRAPHENE_ASSET_GAS then Inl Assert_exception
      else if has_restricted s (as_id sell_asset) Whitelist_markets \<and>
           find_restricted s (as_id sell_asset) Whitelist_markets (Asset_ref (as_id receive_asset)) = None
        then Inl Assert_exception
      else if \<not> find_restricted s (as_id sell_asset) Blacklist_markets (Asset_ref (as_id receive_asset)) = None
        then Inl Assert_exception
      else if acc_id seller \<noteq> as_issuer sell_asset \<and> \<not> is_authorized_asset s seller sell_asset
        then Inl Assert_exception
      else if \<not> amount (get_balance s (acc_id seller) (as_id sell_asset)) \<ge> amount (amount_to_sell op)
        then Inl Assert_exception
      else Inr ()))))"

text \<open>The result holds the id of the new order while the order exists: \<open>do_apply\<close> returns \<open>new_order_object.id\<close>,
  and when the order has been filled that object is gone and its id is not determined. The last component is
  the evaluator's \<open>filled\<close>.\<close>

definition limit_order_create_apply ::
  "limit_order_create_operation \<Rightarrow> database \<Rightarrow> (database \<times> nat option \<times> bool) result" where
  "limit_order_create_apply op s =
     bindE (get_account s (oc_seller op)) (\<lambda>seller.
     bindE (add_core_in_orders seller
              (if asset_id (amount_to_sell op) = core_asset then amount (amount_to_sell op) else 0) s) (\<lambda>s1.
     bindE (debit_balance (oc_seller op) (amount_to_sell op) s1) (\<lambda>s2.
     bindE (price_div (amount_to_sell op) (min_to_receive op)) (\<lambda>pr.
     let order_id = next_id (limit_orders s2);
         s3 = s2\<lparr>limit_orders := tcreate (\<lambda>i. \<lparr>lo_id = i, lo_expiration = oc_expiration op, lo_seller = acc_id seller,
                for_sale = amount (amount_to_sell op), sell_price = pr, deferred_fee = None\<rparr>) (limit_orders s2)\<rparr>
     in
     bindE (apply_order order_id True s3) (\<lambda>(s4, filled).
     if \<not> (\<not> fill_or_kill op \<or> filled) then Inl Assert_exception
     else Inr (s4, if tfind lo_id order_id (limit_orders s4) = None then None else Some order_id, filled))))))"

text \<open>\<open>pay_fee\<close> records the core part of the fee just paid as the deferred fee of an order that is not filled.\<close>

definition limit_order_create_pay_fee ::
  "(share_type \<Rightarrow> price \<Rightarrow> share_type) \<Rightarrow> nat \<Rightarrow> share_type \<Rightarrow> nat option \<Rightarrow> bool \<Rightarrow> database \<Rightarrow> database result" where
  "limit_order_create_pay_fee real_gas payer core_fee_paid result_id filled s =
     bindE (generic_pay_fee real_gas payer core_fee_paid s) (\<lambda>(s1, fees).
     if filled then Inr s1
     else case result_id of None \<Rightarrow> Inl Undefined_behaviour | Some order_id \<Rightarrow>
       bindE (tget lo_id order_id (limit_orders s1)) (\<lambda>_.
       Inr (s1\<lparr>limit_orders := tmodify lo_id order_id
              (\<lambda>obj. fold (\<lambda>fee obj. if asset_id fee = core_asset then obj\<lparr>deferred_fee := Some (amount fee)\<rparr> else obj) fees obj)
              (limit_orders s1)\<rparr>)))"

definition limit_order_cancel_evaluate :: "limit_order_cancel_operation \<Rightarrow> database \<Rightarrow> unit result" where
  "limit_order_cancel_evaluate op s =
     bindE (tget lo_id (cancel_order op) (limit_orders s)) (\<lambda>ord.
     if \<not> lo_seller ord = cancel_fee_paying_account op then Inl Assert_exception else Inr ())"

definition limit_order_cancel_apply :: "limit_order_cancel_operation \<Rightarrow> database \<Rightarrow> (database \<times> asset) result" where
  "limit_order_cancel_apply op s =
     bindE (tget lo_id (cancel_order op) (limit_orders s)) (\<lambda>ord.
     let base_asset = asset_id (base (sell_price ord));
         quote_asset = asset_id (quote (sell_price ord));
         refunded = amount_for_sale ord
     in bindE (cancel_limit_order ord s) (\<lambda>s1.
        bindE (get_asset s1 base_asset) (\<lambda>ba.
        bindE (check_call_orders ba True s1) (\<lambda>(s2, _).
        bindE (get_asset s2 quote_asset) (\<lambda>qa.
        bindE (check_call_orders qa True s2) (\<lambda>(s3, _). Inr (s3, refunded)))))))"

section \<open>Margin positions\<close>

definition find_call :: "database \<Rightarrow> nat \<Rightarrow> nat \<Rightarrow> call_order_object option" where
  "find_call s account a = List.find (\<lambda>c. borrower c = account \<and> debt_type c = a) (rows (call_orders s))"

definition call_order_update_evaluate :: "call_order_update_operation \<Rightarrow> database \<Rightarrow> unit result" where
  "call_order_update_evaluate op s =
     bindE (get_account s (funding_account op)) (\<lambda>paying_account.
     bindE (get_asset s (asset_id (delta_debt op))) (\<lambda>debt_asset.
     if \<not> is_market_issued debt_asset then Inl Assert_exception
     else bindE (bitasset_data s debt_asset) (\<lambda>bitasset.
     if \<not> \<not> has_settlement bitasset then Inl Assert_exception
     else if \<not> asset_id (delta_collateral op) = short_backing_asset (bit_options bitasset) then Inl Assert_exception
     else if price_is_null (pf_settlement_price (current_feed bitasset)) then Inl Insufficient_feeds
     else if amount (delta_debt op) < 0 \<and>
          \<not> amount (get_balance s (acc_id paying_account) (as_id debt_asset)) \<ge> amount (delta_debt op)
       then Inl Assert_exception
     else if amount (delta_collateral op) > 0 then
       bindE (get_asset s (short_backing_asset (bit_options bitasset))) (\<lambda>backing.
       if \<not> amount (get_balance s (acc_id paying_account) (as_id backing)) \<ge> amount (delta_collateral op)
       then Inl Assert_exception else Inr ())
     else Inr ())))"

text \<open>The four stages of \<open>do_apply\<close>: move debt and collateral, write the position, check for margin calls.\<close>

definition move_debt :: "call_order_update_operation \<Rightarrow> asset_object \<Rightarrow> database \<Rightarrow> database result" where
  "move_debt op debt_asset s =
     (if amount (delta_debt op) \<noteq> 0 then
        bindE (adjust_balance (funding_account op) (delta_debt op) s) (add_supply debt_asset (amount (delta_debt op)))
      else Inr s)"

definition move_collateral :: "call_order_update_operation \<Rightarrow> account_object \<Rightarrow> database \<Rightarrow> database result" where
  "move_collateral op paying_account s =
     (if amount (delta_collateral op) \<noteq> 0 then
        bindE (debit_balance (funding_account op) (delta_collateral op) s) (\<lambda>s1.
        if asset_id (delta_collateral op) = core_asset
        then add_core_in_orders paying_account (amount (delta_collateral op)) s1 else Inr s1)
      else Inr s)"

definition update_position :: "call_order_update_operation \<Rightarrow> price_feed \<Rightarrow> database \<Rightarrow> (database \<times> nat) result" where
  "update_position op feed s =
     (case find_call s (funding_account op) (asset_id (delta_debt op)) of
        None \<Rightarrow>
          if \<not> amount (delta_collateral op) > 0 then Inl Assert_exception
          else if \<not> amount (delta_debt op) > 0 then Inl Assert_exception
          else bindE (call_price (delta_debt op) (delta_collateral op) (maintenance_collateral_ratio feed)) (\<lambda>cp.
            Inr (s\<lparr>call_orders := tcreate (\<lambda>i. \<lparr>co_id = i, borrower = funding_account op,
                   collateral = amount (delta_collateral op), debt = amount (delta_debt op), co_call_price = cp\<rparr>)
                   (call_orders s)\<rparr>, next_id (call_orders s)))
      | Some c \<Rightarrow>
          bindE (safe_add (collateral c) (amount (delta_collateral op))) (\<lambda>col.
          bindE (safe_add (debt c) (amount (delta_debt op))) (\<lambda>d.
          bindE (if d > 0 then call_price (asset_of d (debt_type c)) (asset_of col (asset_id (base (co_call_price c))))
                               (maintenance_collateral_ratio feed)
                 else Inr (co_call_price c)) (\<lambda>cp.
          Inr (s\<lparr>call_orders := tmodify co_id (co_id c)
                 (\<lambda>r. r\<lparr>debt := d, collateral := col, co_call_price := cp\<rparr>) (call_orders s)\<rparr>, co_id c)))))"

definition check_position :: "asset_object \<Rightarrow> price_feed \<Rightarrow> nat \<Rightarrow> database \<Rightarrow> database result" where
  "check_position debt_asset feed call_order_id s =
     bindE (tget co_id call_order_id (call_orders s)) (\<lambda>call_obj.
     if debt call_obj = 0 then
       if \<not> collateral call_obj = 0 then Inl Assert_exception
       else Inr (s\<lparr>call_orders := tremove co_id call_order_id (call_orders s)\<rparr>)
     else if \<not> (collateral call_obj > 0 \<and> debt call_obj > 0) then Inl Assert_exception
     else bindE (check_call_orders debt_asset False s) (\<lambda>(s', called).
       if called then
         if \<not> tfind co_id call_order_id (call_orders s') = None then Inl Call_order_update_unfilled_margin_call
         else Inr s'
       else case tfind co_id call_order_id (call_orders s') of
         None \<Rightarrow> Inl Assert_exception
       | Some c \<Rightarrow>
           if \<not> price_lt (price_inv (co_call_price c)) (pf_settlement_price feed)
           then Inl Call_order_update_unfilled_margin_call else Inr s'))"

definition call_order_update_apply :: "call_order_update_operation \<Rightarrow> database \<Rightarrow> database result" where
  "call_order_update_apply op s =
     bindE (get_account s (funding_account op)) (\<lambda>paying_account.
     bindE (get_asset s (asset_id (delta_debt op))) (\<lambda>debt_asset.
     bindE (bitasset_data s debt_asset) (\<lambda>bitasset.
     bindE (move_debt op debt_asset s) (\<lambda>s1.
     bindE (move_collateral op paying_account s1) (\<lambda>s2.
     bindE (update_position op (current_feed bitasset) s2) (\<lambda>(s3, call_order_id).
     check_position debt_asset (current_feed bitasset) call_order_id s3))))))"

section \<open>Bids\<close>

definition find_bid :: "database \<Rightarrow> nat \<Rightarrow> nat \<Rightarrow> collateral_bid_object option" where
  "find_bid s a account =
     List.find (\<lambda>b. asset_id (quote (inv_swan_price b)) = a \<and> bidder b = account) (rows (bids s))"

definition bid_collateral_evaluate :: "bid_collateral_operation \<Rightarrow> database \<Rightarrow> unit result" where
  "bid_collateral_evaluate op s =
     bindE (get_account s (bc_bidder op)) (\<lambda>paying_account.
     bindE (get_asset s (asset_id (debt_covered op))) (\<lambda>debt_asset.
     if \<not> is_market_issued debt_asset then Inl Assert_exception
     else bindE (bitasset_data s debt_asset) (\<lambda>bitasset.
     if \<not> has_settlement bitasset then Inl Assert_exception
     else if \<not> asset_id (additional_collateral op) = short_backing_asset (bit_options bitasset) then Inl Assert_exception
     else bindE (if amount (additional_collateral op) > 0 then
         bindE (get_asset s (short_backing_asset (bit_options bitasset))) (\<lambda>backing.
         if \<not> amount (get_balance s (acc_id paying_account) (as_id backing)) \<ge> amount (additional_collateral op)
         then Inl Assert_exception else Inr ())
       else Inr ()) (\<lambda>_.
     if find_bid s (asset_id (debt_covered op)) (bc_bidder op) = None \<and> \<not> amount (debt_covered op) > 0
       then Inl Assert_exception
     else Inr ()))))"

text \<open>The id of the new bid; when the old bid was only cancelled, \<open>_bid->id\<close> is read from the removed object
  and is not determined.\<close>

definition bid_collateral_apply :: "bid_collateral_operation \<Rightarrow> database \<Rightarrow> (database \<times> nat option) result" where
  "bid_collateral_apply op s =
     (let old = find_bid s (asset_id (debt_covered op)) (bc_bidder op) in
      bindE (case old of None \<Rightarrow> Inr s | Some b \<Rightarrow> cancel_bid b s) (\<lambda>s1.
      if old \<noteq> None \<and> amount (debt_covered op) = 0 then Inr (s1, None)
      else if \<not> amount (debt_covered op) \<noteq> 0 then Inl Assert_exception
      else bindE (debit_balance (bc_bidder op) (additional_collateral op) s1) (\<lambda>s2.
      bindE (price_div (additional_collateral op) (debt_covered op)) (\<lambda>pr.
      Inr (s2\<lparr>bids := tcreate (\<lambda>i. \<lparr>cb_id = i, bidder = bc_bidder op, inv_swan_price = pr\<rparr>) (bids s2)\<rparr>,
           Some (next_id (bids s2)))))))"

section \<open>Conservation\<close>

lemma debit_balance_moves:
  assumes "debit_balance account x s = Inr s'"
  shows "moves (\<lambda>a. - amt a x) s s'" "\<exists>t. s' = s\<lparr>balances := t\<rparr>"
proof -
  from assms obtain y where y: "asset_neg x = Inr y" "adjust_balance account y s = Inr s'" by (auto simp: debit_balance_def)
  from y(1) have "amt a y = - amt a x" for a by (auto simp: amt_def)
  with adjust_balance_moves [OF y(2)] show "moves (\<lambda>a. - amt a x) s s'" by simp
  from y(2) show "\<exists>t. s' = s\<lparr>balances := t\<rparr>" by (rule adjust_shape) blast
qed

lemma limit_create_moves:
  assumes "\<And>i. lo_id (mk i) = i" "\<And>i. limit_order_ok (mk i)" "\<And>i. deferred_fee (mk i) = None"
  shows "moves (\<lambda>a. amt a (amount_for_sale (mk (next_id (limit_orders s))))) s
    (s\<lparr>limit_orders := tcreate mk (limit_orders s)\<rparr>)"
proof -
  have "held_limit a (tcreate mk (limit_orders s)) = held_limit a (limit_orders s) +
      amt a (amount_for_sale (mk (next_id (limit_orders s))))" for a
    by (simp add: held_limit_def tsum_create)
  moreover have "deferred (tcreate mk (limit_orders s)) = deferred (limit_orders s)"
    using assms(3) by (simp add: deferred_def tsum_create)
  moreover have "limit_wf (tcreate mk (limit_orders s))" if "limit_wf (limit_orders s)"
    using that assms(1,2) by (intro limit_wf_create) auto
  ultimately show ?thesis by (auto simp: moves_def db_wf_def chain_frame intro!: flow_eqI)
qed

lemma limit_order_create_moves:
  assumes "db_wf s" "limit_order_create_validate op = Inr ()" "amount (amount_to_sell op) \<le> int64_max"
    "amount (min_to_receive op) \<le> int64_max" "limit_order_create_apply op s = Inr (s', r)"
  shows "moves no_flow s s'"
proof -
  let ?x = "amount_to_sell op"
  from assms(5) obtain seller s1 s2 where
    st: "add_core_in_orders seller (if asset_id ?x = core_asset then amount ?x else 0) s = Inr s1"
      "debit_balance (oc_seller op) ?x s1 = Inr s2" "asset_id ?x \<noteq> asset_id (min_to_receive op)"
    and ap: "\<exists>f. apply_order (next_id (limit_orders s2)) True (s2\<lparr>limit_orders := tcreate (\<lambda>i. \<lparr>lo_id = i, lo_expiration = oc_expiration op,
        lo_seller = acc_id seller, for_sale = amount ?x, sell_price = \<lparr>base = ?x, quote = min_to_receive op\<rparr>,
        deferred_fee = None\<rparr>) (limit_orders s2)\<rparr>) = Inr (s', f)"
    unfolding limit_order_create_apply_def Let_def by (auto split: if_splits)
  let ?mk = "\<lambda>i. \<lparr>lo_id = i, lo_expiration = oc_expiration op, lo_seller = acc_id seller, for_sale = amount ?x,
    sell_price = \<lparr>base = ?x, quote = min_to_receive op\<rparr>, deferred_fee = None\<rparr>"
  let ?s3 = "s2\<lparr>limit_orders := tcreate ?mk (limit_orders s2)\<rparr>"
  have ok: "limit_order_ok (?mk i)" for i
    using assms(2-4) by (auto simp: limit_order_create_validate_def limit_order_ok_def in_int64_def int64_min_def split: if_splits)
  have m3: "moves (\<lambda>a. amt a ?x) s2 ?s3"
    using limit_create_moves [of ?mk s2] ok by (simp add: amount_for_sale_def)
  have "moves (\<lambda>a. - amt a ?x) s s2"
    by (rule moves_trans [OF core_in_orders_moves [OF disjI2 [OF st(1)]] debit_balance_moves(1) [OF st(2)]]) (simp add: no_flow_def)
  from this m3 have m: "moves no_flow s ?s3" by (rule moves_trans) (simp add: no_flow_def)
  from ap obtain f where "apply_order (next_id (limit_orders s2)) True ?s3 = Inr (s', f)" ..
  from apply_order_moves [OF moves_wf [OF m assms(1)] this] m show ?thesis by (blast intro: moves_no_trans)
qed

lemma limit_order_cancel_moves:
  assumes "db_wf s" "limit_order_cancel_apply op s = Inr (s', x)"
  shows "moves no_flow s s'"
proof -
  from assms(2) obtain ord s1 ba s2 b1 qa b2 where st: "tfind lo_id (cancel_order op) (limit_orders s) = Some ord"
    "cancel_limit_order ord s = Inr s1" "get_asset s1 (asset_id (base (sell_price ord))) = Inr ba"
    "check_call_orders ba True s1 = Inr (s2, b1)" "get_asset s2 (asset_id (quote (sell_price ord))) = Inr qa"
    "check_call_orders qa True s2 = Inr (s', b2)"
    unfolding limit_order_cancel_apply_def Let_def by auto
  have ord: "tfind lo_id (lo_id ord) (limit_orders s) = Some ord" using st(1) tfind_id [OF st(1)] by simp
  have m1: "moves no_flow s s1" by (rule cancel_limit_moves [OF ord st(2)])
  have "moves no_flow s1 s2"
    by (rule check_call_orders_moves [OF _ moves_wf [OF m1 assms(1)] st(4)]) (use st(3) get_asset_id [OF st(3)] in simp)
  with m1 have m2: "moves no_flow s s2" by (rule moves_no_trans)
  have "moves no_flow s2 s'"
    by (rule check_call_orders_moves [OF _ moves_wf [OF m2 assms(1)] st(6)]) (use st(5) get_asset_id [OF st(5)] in simp)
  with m2 show ?thesis by (rule moves_no_trans)
qed

lemma move_debt_moves:
  assumes "get_asset s (asset_id (delta_debt op)) = Inr ao" "move_debt op ao s = Inr s'"
  shows "moves no_flow s s'" "call_orders s' = call_orders s \<and> bitassets s' = bitassets s"
proof -
  have "moves no_flow s s' \<and> call_orders s' = call_orders s \<and> bitassets s' = bitassets s"
  proof (cases "amount (delta_debt op) = 0")
    case True
    with assms(2) show ?thesis by (simp add: move_debt_def moves_refl)
  next
    case False
    with assms(2) obtain s1 where s1: "adjust_balance (funding_account op) (delta_debt op) s = Inr s1"
      "add_supply ao (amount (delta_debt op)) s1 = Inr s'" by (auto simp: move_debt_def)
    have m1: "moves (\<lambda>a. amt a (delta_debt op)) s s1" by (rule adjust_balance_moves [OF s1(1)])
    have "get_asset s1 (asset_id (delta_debt op)) = Inr ao" using assms(1) moves_get_asset [OF m1] by simp
    from m1 add_supply_moves [OF this s1(2)] have "moves no_flow s s'"
      by (rule moves_trans) (simp add: no_flow_def amt_def)
    moreover have "call_orders s' = call_orders s" "bitassets s' = bitassets s"
      using adjust_balance_frame [OF s1(1)] dyn_frame [of ao "amount (delta_debt op)" s1 s'] s1(2) by auto
    ultimately show ?thesis by blast
  qed
  then show "moves no_flow s s'" "call_orders s' = call_orders s \<and> bitassets s' = bitassets s" by blast+
qed

lemma move_collateral_moves:
  assumes "move_collateral op ao s = Inr s'"
  shows "moves (\<lambda>a. - amt a (delta_collateral op)) s s'" "call_orders s' = call_orders s \<and> bitassets s' = bitassets s"
proof -
  let ?x = "delta_collateral op"
  have "moves (\<lambda>a. - amt a ?x) s s' \<and> call_orders s' = call_orders s \<and> bitassets s' = bitassets s"
  proof (cases "amount ?x = 0")
    case True
    then have "(\<lambda>a. - amt a ?x) = no_flow" by (auto simp: amt_def no_flow_def)
    with True assms show ?thesis by (simp add: move_collateral_def moves_refl)
  next
    case False
    with assms obtain s1 where s1: "debit_balance (funding_account op) ?x s = Inr s1"
      "(if asset_id ?x = core_asset then add_core_in_orders ao (amount ?x) s1 else Inr s1) = Inr s'"
      by (auto simp: move_collateral_def simp del: if_throw_Inr)
    have "moves no_flow s1 s'" using s1(2) core_in_orders_moves moves_refl [of s1] by (auto split: if_splits)
    with debit_balance_moves(1) [OF s1(1)] have "moves (\<lambda>a. - amt a ?x) s s'" by (rule moves_trans) (simp add: no_flow_def)
    moreover have "call_orders s' = call_orders s1 \<and> bitassets s' = bitassets s1"
      using s1(2) by (auto simp: add_core_in_orders_def split: if_splits)
    ultimately show ?thesis using debit_balance_moves(2) [OF s1(1)] by auto
  qed
  then show "moves (\<lambda>a. - amt a ?x) s s'" "call_orders s' = call_orders s \<and> bitassets s' = bitassets s" by blast+
qed

lemma call_price_ids:
  "call_price d c r = Inr p \<Longrightarrow> asset_id (base p) = asset_id c \<and> asset_id (quote p) = asset_id d"
  by (auto simp: call_price_def Let_def split: if_splits)

lemma call_replace_moves:
  assumes "tfind co_id i (call_orders s) = Some c"
  shows "moves (\<lambda>a. amt a (asset_of v (asset_id (base cp))) - amt a (get_collateral c)) s
    (s\<lparr>call_orders := tmodify co_id i (\<lambda>r. r\<lparr>debt := d, collateral := v, co_call_price := cp\<rparr>) (call_orders s)\<rparr>)"
proof -
  have "held_call a (tmodify co_id i (\<lambda>r. r\<lparr>debt := d, collateral := v, co_call_price := cp\<rparr>) (call_orders s)) =
      held_call a (call_orders s) + (amt a (asset_of v (asset_id (base cp))) - amt a (get_collateral c))" if "db_wf s" for a
    using that tsum_modify [of co_id "call_orders s" i c] assms by (simp add: db_wf_def held_call_def get_collateral_def)
  then show ?thesis
    by (auto simp: moves_def db_wf_def chain_frame table_wf_modify intro!: flow_eqI simp del: amt_simps)
qed

lemma find_call_tfind:
  "table_wf co_id (call_orders s) \<Longrightarrow> find_call s account a = Some c \<Longrightarrow>
     tfind co_id (co_id c) (call_orders s) = Some c \<and> debt_type c = a \<and> borrower c = account"
  by (auto simp: find_call_def tfind_Some_iff table_wf_def find_Some_iff)

lemma update_position_moves:
  assumes "db_wf s" "update_position op feed s = Inr (s', k)"
    and "\<And>c. find_call s (funding_account op) (asset_id (delta_debt op)) = Some c \<Longrightarrow>
      asset_id (base (co_call_price c)) = asset_id (delta_collateral op)"
  shows "moves (\<lambda>a. amt a (delta_collateral op)) s s'" "bitassets s' = bitassets s"
proof -
  let ?x = "delta_collateral op"
  have "moves (\<lambda>a. amt a ?x) s s' \<and> bitassets s' = bitassets s"
  proof (cases "find_call s (funding_account op) (asset_id (delta_debt op))")
    case None
    with assms(2) obtain cp where cp: "call_price (delta_debt op) ?x (maintenance_collateral_ratio feed) = Inr cp"
      and s': "s' = s\<lparr>call_orders := tcreate (\<lambda>i. \<lparr>co_id = i, borrower = funding_account op,
          collateral = amount ?x, debt = amount (delta_debt op), co_call_price = cp\<rparr>) (call_orders s)\<rparr>"
      by (auto simp: update_position_def split: if_splits)
    from call_create_moves [of "\<lambda>i. \<lparr>co_id = i, borrower = funding_account op, collateral = amount ?x,
        debt = amount (delta_debt op), co_call_price = cp\<rparr>" s] call_price_ids [OF cp] s'
    show ?thesis by (simp add: get_collateral_def)
  next
    case (Some c)
    with assms(2) obtain d cp where cp: "(if d > 0 then call_price (asset_of d (debt_type c))
        (asset_of (collateral c + amount ?x) (asset_id (base (co_call_price c)))) (maintenance_collateral_ratio feed)
        else Inr (co_call_price c)) = Inr cp"
      and s': "s' = s\<lparr>call_orders := tmodify co_id (co_id c)
          (\<lambda>r. r\<lparr>debt := d, collateral := collateral c + amount ?x, co_call_price := cp\<rparr>) (call_orders s)\<rparr>"
      unfolding update_position_def by (auto simp del: if_throw_Inr)
    have id: "asset_id (base cp) = asset_id ?x"
      using cp call_price_ids assms(3) [OF Some] by (auto split: if_splits)
    have "tfind co_id (co_id c) (call_orders s) = Some c"
      using find_call_tfind [OF _ Some] assms(1) by (simp add: db_wf_def)
    from call_replace_moves [OF this, of "collateral c + amount ?x" cp d, folded s']
    have "moves (\<lambda>a. amt a (asset_of (collateral c + amount ?x) (asset_id ?x)) - amt a (get_collateral c)) s s'"
      by (simp add: id)
    moreover have "amt a (asset_of (collateral c + amount ?x) (asset_id ?x)) - amt a (get_collateral c) = amt a ?x" for a
      by (simp add: get_collateral_def assms(3) [OF Some] amt_def)
    ultimately show ?thesis using s' by simp
  qed
  then show "moves (\<lambda>a. amt a ?x) s s'" "bitassets s' = bitassets s" by blast+
qed

text \<open>Every margin position is in the asset that backs its debt.\<close>

definition calls_backed :: "database \<Rightarrow> bool" where
  "calls_backed s \<longleftrightarrow> (\<forall>c \<in> set (rows (call_orders s)). case get_asset s (debt_type c) of Inl _ \<Rightarrow> True | Inr ao \<Rightarrow>
     (case bitasset_data s ao of Inl _ \<Rightarrow> True | Inr b \<Rightarrow>
        asset_id (base (co_call_price c)) = short_backing_asset (bit_options b)))"

lemma calls_backed_find:
  assumes "calls_backed s" "table_wf co_id (call_orders s)" "find_call s account a = Some c"
    "get_asset s a = Inr ao" "bitasset_data s ao = Inr b"
  shows "asset_id (base (co_call_price c)) = short_backing_asset (bit_options b)"
proof -
  note f = find_call_tfind [OF assms(2,3)]
  then have "c \<in> set (rows (call_orders s))" by (auto dest: tfind_SomeD)
  from bspec [OF assms(1) [unfolded calls_backed_def] this] f assms(4,5) show ?thesis by simp
qed

section \<open>Updates without black swans\<close>

text \<open>With black swans disabled, the margin call check either executes a margin call or changes nothing.\<close>

lemma check_for_blackswan_off:
  "check_for_blackswan mia False s = Inr (s', r) \<Longrightarrow> s' = s"
  unfolding check_for_blackswan_def Let_def by (auto simp: case_list_Inr split: if_splits)

lemma check_call_loop_called:
  assumes "check_call_loop mia e fl True limits calls s = Inr (s', r)"
  shows r
  using assms
proof (induction "length limits + length calls" arbitrary: fl limits calls s rule: less_induct)
  case less
  note loop = less.prems [unfolded check_call_loop.simps [of mia e fl True limits calls s]]
  then obtain s1 sw where bs: "check_for_blackswan mia e s = Inr (s1, sw)" by auto
  show ?case
  proof (cases "sw \<or> calls = [] \<or> limits = []")
    case True
    with loop bs show ?thesis by (auto split: list.splits)
  next
    case False
    then obtain ci cs li ls where cl: "calls = ci # cs" "limits = li # ls" by (cases calls; cases limits) auto
    from loop bs cl False obtain l c rr where f: "tfind lo_id li (limit_orders s1) = Some l"
      "tfind co_id ci (call_orders s1) = Some c" and m: "margin_round mia e fl l c s1 = Inr rr"
      by (auto split: option.splits)
    show ?thesis
    proof (cases rr)
      case (Round_filled s2 fl' fc)
      let ?ls = "if fl' then ls else limits" and ?cs = "if fc then cs else calls"
      have "check_call_loop mia e fl' True ?ls ?cs s2 = Inr (s', r)"
        using loop bs False f m Round_filled cl by simp
      moreover have "length ?ls + length ?cs < length limits + length calls"
        using margin_round_progress [of mia e fl l c s1 s2 fl' fc] m Round_filled cl by auto
      ultimately show ?thesis using less.hyps by blast
    qed (use loop bs False f m cl in auto)
  qed
qed

lemma check_call_loop_off:
  assumes "check_call_loop mia False fl mc limits calls s = Inr (s', False)"
  shows "s' = s"
proof -
  note loop = assms [unfolded check_call_loop.simps [of mia False fl mc limits calls s]]
  then obtain s1 sw where bs: "check_for_blackswan mia False s = Inr (s1, sw)" by auto
  note s1 = check_for_blackswan_off [OF bs]
  show ?thesis
  proof (cases "sw \<or> calls = [] \<or> limits = []")
    case True
    with loop bs s1 show ?thesis by (auto split: list.splits)
  next
    case False
    then obtain ci cs li ls where cl: "calls = ci # cs" "limits = li # ls" by (cases calls; cases limits) auto
    from loop bs cl False obtain l c rr where f: "tfind lo_id li (limit_orders s1) = Some l"
      "tfind co_id ci (call_orders s1) = Some c" and m: "margin_round mia False fl l c s1 = Inr rr"
      by (auto split: option.splits)
    show ?thesis
    proof (cases rr)
      case (Round_return s2)
      with m have "s2 = s1" by (auto simp: margin_round_def split: if_splits)
      with loop bs False f m cl Round_return s1 show ?thesis by simp
    next
      case (Round_filled s2 fl' fc)
      let ?ls = "if fl' then ls else limits" and ?cs = "if fc then cs else calls"
      have "check_call_loop mia False fl' True ?ls ?cs s2 = Inr (s', False)"
        using loop bs False f m Round_filled cl by simp
      from check_call_loop_called [OF this] show ?thesis ..
    qed (use loop bs False f m cl in auto)
  qed
qed

lemma check_call_orders_off:
  assumes "check_call_orders mia False s = Inr (s', False)"
  shows "s' = s"
proof (cases "is_market_issued mia")
  case True
  with assms obtain s1 sw where bs: "check_for_blackswan mia False s = Inr (s1, sw)" by (auto simp: check_call_orders_def)
  note s1 = check_for_blackswan_off [OF bs]
  from assms bs True have "s' = s1 \<or> (\<exists>limits calls. check_call_loop mia False False False limits calls s1 = Inr (s', False))"
    by (auto simp: check_call_orders_def case_list_Inr split: if_splits)
  with check_call_loop_off s1 show ?thesis by blast
qed (use assms in \<open>simp add: check_call_orders_def\<close>)

section \<open>Updating a margin position\<close>

lemma call_order_update_steps:
  assumes "call_order_update_apply op s = Inr s'"
  obtains ao da b s1 s2 s3 k where
    "get_account s (funding_account op) = Inr ao" "get_asset s (asset_id (delta_debt op)) = Inr da"
    "bitasset_data s da = Inr b" "move_debt op da s = Inr s1" "move_collateral op ao s1 = Inr s2"
    "update_position op (current_feed b) s2 = Inr (s3, k)" "check_position da (current_feed b) k s3 = Inr s'"
  using assms that unfolding call_order_update_apply_def by auto

lemma check_position_cases:
  assumes "check_position da feed k s = Inr s'"
  obtains (closed) c where "tfind co_id k (call_orders s) = Some c" "debt c = 0" "collateral c = 0"
      "s' = s\<lparr>call_orders := tremove co_id k (call_orders s)\<rparr>"
  | (called) "check_call_orders da False s = Inr (s', True)" "tfind co_id k (call_orders s') = None"
  | (safe) c where "check_call_orders da False s = Inr (s', False)" "tfind co_id k (call_orders s') = Some c"
      "0 < debt c" "0 < collateral c" "price_lt (price_inv (co_call_price c)) (pf_settlement_price feed)"
proof -
  from assms obtain c where c: "tfind co_id k (call_orders s) = Some c" by (auto simp: check_position_def)
  show ?thesis
  proof (cases "debt c = 0")
    case True
    with assms c closed show ?thesis by (auto simp: check_position_def split: if_splits)
  next
    case False
    with assms c obtain r where r: "check_call_orders da False s = Inr (s', r)" "0 < debt c" "0 < collateral c"
      and e: "if r then tfind co_id k (call_orders s') = None else \<exists>c. tfind co_id k (call_orders s') = Some c \<and>
        price_lt (price_inv (co_call_price c)) (pf_settlement_price feed)"
      by (auto simp: check_position_def split: if_splits option.splits)
    show ?thesis
    proof (cases r)
      case True
      with r e called show ?thesis by simp
    next
      case False
      with r(1) have "s' = s" using check_call_orders_off by simp
      with r e c False safe show ?thesis by auto
    qed
  qed
qed

lemma check_position_moves:
  assumes "db_wf s" "get_asset s (as_id da) = Inr da" "check_position da feed k s = Inr s'"
  shows "moves no_flow s s'"
  using assms(3)
proof (cases rule: check_position_cases)
  case (closed c)
  with call_remove_moves [OF closed(1)] show ?thesis by (simp add: get_collateral_def no_flow_def [abs_def])
qed (use check_call_orders_moves [OF assms(2,1)] in blast)+

lemma call_order_update_moves:
  assumes "db_wf s" "calls_backed s" "call_order_update_evaluate op s = Inr ()" "call_order_update_apply op s = Inr s'"
  shows "moves no_flow s s'"
  using assms(4)
proof (rule call_order_update_steps)
  fix ao da and b :: asset_bitasset_data_object and s1 s2 s3 k
  assume st: "get_account s (funding_account op) = Inr ao" "get_asset s (asset_id (delta_debt op)) = Inr da"
    "bitasset_data s da = Inr b" "move_debt op da s = Inr s1" "move_collateral op ao s1 = Inr s2"
    "update_position op (current_feed b) s2 = Inr (s3, k)" "check_position da (current_feed b) k s3 = Inr s'"
  note d = move_debt_moves [OF st(2,4)] and col = move_collateral_moves [OF st(5)]
  from d(1) col(1) have m2: "moves (\<lambda>a. - amt a (delta_collateral op)) s s2" by (rule moves_trans) (simp add: no_flow_def)
  have backing: "asset_id (delta_collateral op) = short_backing_asset (bit_options b)"
    using assms(3) st(1-3) by (auto simp: call_order_update_evaluate_def split: if_splits)
  have id: "asset_id (base (co_call_price c')) = asset_id (delta_collateral op)"
    if "find_call s2 (funding_account op) (asset_id (delta_debt op)) = Some c'" for c'
    using calls_backed_find [OF assms(2) _ _ st(2,3)] that d(2) col(2) assms(1) backing by (simp add: find_call_def db_wf_def)
  have "moves (\<lambda>a. amt a (delta_collateral op)) s2 s3"
    by (rule update_position_moves [OF moves_wf [OF m2 assms(1)] st(6) id])
  with m2 have m3: "moves no_flow s s3" by (rule moves_trans) (simp add: no_flow_def)
  have "get_asset s3 (as_id da) = Inr da"
    unfolding moves_get_asset [OF m3] get_asset_id [OF st(2)] by (rule st(2))
  with m3 check_position_moves [OF moves_wf [OF m3 assms(1)] _ st(7)] show ?thesis by (blast intro: moves_no_trans)
qed

definition position_id :: "call_order_update_operation \<Rightarrow> database \<Rightarrow> nat" where
  "position_id op s = (case find_call s (funding_account op) (asset_id (delta_debt op)) of
     None \<Rightarrow> next_id (call_orders s) | Some c \<Rightarrow> co_id c)"

lemma update_position_result:
  assumes "table_wf co_id (call_orders s)" "update_position op feed s = Inr (s', k)"
    and "tfind co_id k (call_orders s') = Some c"
  shows "k = position_id op s" "borrower c = funding_account op" "debt_type c = asset_id (delta_debt op)"
    "0 < debt c \<Longrightarrow> call_price (get_debt c) (get_collateral c) (maintenance_collateral_ratio feed) = Inr (co_call_price c)"
proof -
  let ?x = "delta_collateral op"
  have "k = position_id op s \<and> borrower c = funding_account op \<and> debt_type c = asset_id (delta_debt op) \<and>
    (0 < debt c \<longrightarrow> call_price (get_debt c) (get_collateral c) (maintenance_collateral_ratio feed) = Inr (co_call_price c))"
  proof (cases "find_call s (funding_account op) (asset_id (delta_debt op))")
    case None
    with assms(2) obtain cp where cp: "call_price (delta_debt op) ?x (maintenance_collateral_ratio feed) = Inr cp"
      and s': "s' = s\<lparr>call_orders := tcreate (\<lambda>i. \<lparr>co_id = i, borrower = funding_account op,
          collateral = amount ?x, debt = amount (delta_debt op), co_call_price = cp\<rparr>) (call_orders s)\<rparr>"
      and k: "k = next_id (call_orders s)"
      by (auto simp: update_position_def split: if_splits)
    from assms(1,3) s' k have "c = \<lparr>co_id = k, borrower = funding_account op, collateral = amount ?x,
        debt = amount (delta_debt op), co_call_price = cp\<rparr>" by (simp add: tfind_create)
    with None k cp call_price_ids [OF cp] show ?thesis
      by (auto simp: position_id_def get_debt_def get_collateral_def debt_type_def)
  next
    case (Some c0)
    with assms(2) obtain d cp where cp: "(if d > 0 then call_price (asset_of d (debt_type c0))
        (asset_of (collateral c0 + amount ?x) (asset_id (base (co_call_price c0)))) (maintenance_collateral_ratio feed)
        else Inr (co_call_price c0)) = Inr cp"
      and s': "s' = s\<lparr>call_orders := tmodify co_id (co_id c0)
          (\<lambda>r. r\<lparr>debt := d, collateral := collateral c0 + amount ?x, co_call_price := cp\<rparr>) (call_orders s)\<rparr>"
      and k: "k = co_id c0"
      unfolding update_position_def by (auto simp del: if_throw_Inr)
    note f = find_call_tfind [OF assms(1) Some]
    from assms(3) s' k f have c: "c = c0\<lparr>debt := d, collateral := collateral c0 + amount ?x, co_call_price := cp\<rparr>"
      by (simp add: tfind_modify)
    have "asset_id (base cp) = asset_id (base (co_call_price c0)) \<and> asset_id (quote cp) = debt_type c0"
      using cp call_price_ids by (auto simp: debt_type_def split: if_splits)
    with c k f cp Some show ?thesis
      by (auto simp: position_id_def get_debt_def get_collateral_def debt_type_def)
  qed
  then show "k = position_id op s" "borrower c = funding_account op" "debt_type c = asset_id (delta_debt op)"
    "0 < debt c \<Longrightarrow> call_price (get_debt c) (get_collateral c) (maintenance_collateral_ratio feed) = Inr (co_call_price c)"
    by blast+
qed

section \<open>Bids\<close>

lemma bid_collateral_moves:
  assumes "db_wf s" "bid_collateral_apply op s = Inr (s', r)"
  shows "moves no_flow s s'"
proof -
  let ?old = "find_bid s (asset_id (debt_covered op)) (bc_bidder op)"
  from assms(2) obtain s1 where s1: "(case ?old of None \<Rightarrow> Inr s | Some b \<Rightarrow> cancel_bid b s) = Inr s1"
    and e: "s' = s1 \<or> (\<exists>s2. debit_balance (bc_bidder op) (additional_collateral op) s1 = Inr s2 \<and>
      s' = s2\<lparr>bids := tcreate (\<lambda>i. \<lparr>cb_id = i, bidder = bc_bidder op,
        inv_swan_price = \<lparr>base = additional_collateral op, quote = debt_covered op\<rparr>\<rparr>) (bids s2)\<rparr>)"
    unfolding bid_collateral_apply_def Let_def by (auto split: if_splits)
  have m1: "moves no_flow s s1"
  proof (cases ?old)
    case (Some b)
    then have "tfind cb_id (cb_id b) (bids s) = Some b"
      using assms(1) by (auto simp: find_bid_def find_Some_iff db_wf_def table_wf_def tfind_Some_iff)
    from cancel_bid_moves(1) [OF this] s1 Some show ?thesis by simp
  qed (use s1 moves_refl in simp)
  from e show ?thesis
  proof
    assume "\<exists>s2. debit_balance (bc_bidder op) (additional_collateral op) s1 = Inr s2 \<and>
      s' = s2\<lparr>bids := tcreate (\<lambda>i. \<lparr>cb_id = i, bidder = bc_bidder op,
        inv_swan_price = \<lparr>base = additional_collateral op, quote = debt_covered op\<rparr>\<rparr>) (bids s2)\<rparr>"
    then obtain s2 where s2: "debit_balance (bc_bidder op) (additional_collateral op) s1 = Inr s2"
      and s': "s' = s2\<lparr>bids := tcreate (\<lambda>i. \<lparr>cb_id = i, bidder = bc_bidder op,
        inv_swan_price = \<lparr>base = additional_collateral op, quote = debt_covered op\<rparr>\<rparr>) (bids s2)\<rparr>" by blast
    have "moves (\<lambda>a. amt a (additional_collateral op)) s2 s'"
      using bid_create_moves [of "\<lambda>i. \<lparr>cb_id = i, bidder = bc_bidder op,
        inv_swan_price = \<lparr>base = additional_collateral op, quote = debt_covered op\<rparr>\<rparr>" s2] s' by simp
    with debit_balance_moves(1) [OF s2] have "moves no_flow s1 s'" by (rule moves_trans) (simp add: no_flow_def)
    with m1 show ?thesis by (rule moves_no_trans)
  qed (use m1 in simp)
qed

lemma bid_collateral_limit_orders:
  assumes "bid_collateral_apply op s = Inr (s', r)"
  shows "limit_orders s' = limit_orders s"
proof -
  let ?old = "find_bid s (asset_id (debt_covered op)) (bc_bidder op)"
  from assms obtain s1 where s1: "(case ?old of None \<Rightarrow> Inr s | Some b \<Rightarrow> cancel_bid b s) = Inr s1"
    and e: "s' = s1 \<or> (\<exists>s2 t. debit_balance (bc_bidder op) (additional_collateral op) s1 = Inr s2 \<and> s' = s2\<lparr>bids := t\<rparr>)"
    unfolding bid_collateral_apply_def Let_def by (auto split: if_splits)
  have "limit_orders s1 = limit_orders s"
    using s1 adjust_balance_frame(1) by (auto simp: cancel_bid_def split: option.splits)
  with e show ?thesis by (auto dest!: debit_balance_moves(2))
qed

section \<open>Properties\<close>

text \<open>C6: a margin position that an update leaves behind is safe. When the update of a position passes evaluation and is
  applied, either that position no longer exists (closed, or completely margin called), or it has positive debt and
  collateral, still belongs to the account that updated it, its call price is the one computed from its debt and
  collateral, and that call price is beyond the current feed, so that position is not subject to a margin call. Other positions and
  orders may be matched on the way; in every case the database stays well-formed, every asset but core is conserved exactly, and
  core can only grow, by no more than the deferred fees of the limit orders that are gone.\<close>

theorem call_order_update_safe:
  assumes "db_wf s" "calls_backed s" "call_order_update_evaluate op s = Inr ()" "call_order_update_apply op s = Inr s'"
    and "get_asset s (asset_id (delta_debt op)) = Inr da" "bitasset_data s da = Inr b"
  shows "(case tfind co_id (position_id op s) (call_orders s') of None \<Rightarrow> True | Some c \<Rightarrow>
      0 < debt c \<and> 0 < collateral c \<and> borrower c = funding_account op \<and> debt_type c = asset_id (delta_debt op) \<and>
      call_price (get_debt c) (get_collateral c) (maintenance_collateral_ratio (current_feed b)) = Inr (co_call_price c) \<and>
      price_lt (price_inv (co_call_price c)) (pf_settlement_price (current_feed b))) \<and>
    db_wf s' \<and> (\<forall>a. a \<noteq> core_asset \<longrightarrow> imbalance a s' = imbalance a s) \<and>
    imbalance core_asset s \<le> imbalance core_asset s' \<and>
    imbalance core_asset s' \<le> imbalance core_asset s + (deferred (limit_orders s) - deferred (limit_orders s'))"
proof -
  from assms(4) obtain ao s1 s2 s3 k where st: "move_debt op da s = Inr s1" "move_collateral op ao s1 = Inr s2"
    "update_position op (current_feed b) s2 = Inr (s3, k)" "check_position da (current_feed b) k s3 = Inr s'"
    by (rule call_order_update_steps) (use assms(5,6) in auto)
  note calls = move_debt_moves(2) [OF assms(5) st(1)] move_collateral_moves(2) [OF st(2)]
  have wf: "table_wf co_id (call_orders s2)" using calls assms(1) by (simp add: db_wf_def)
  have pid: "position_id op s2 = position_id op s" using calls by (simp add: position_id_def find_call_def cong: option.case_cong)
  note up = update_position_result [OF wf st(3)]
  have "case tfind co_id (position_id op s) (call_orders s') of None \<Rightarrow> True | Some c \<Rightarrow>
      0 < debt c \<and> 0 < collateral c \<and> borrower c = funding_account op \<and> debt_type c = asset_id (delta_debt op) \<and>
      call_price (get_debt c) (get_collateral c) (maintenance_collateral_ratio (current_feed b)) = Inr (co_call_price c) \<and>
      price_lt (price_inv (co_call_price c)) (pf_settlement_price (current_feed b))"
    using st(4)
  proof (cases rule: check_position_cases)
    case (closed c)
    with up(1) pid show ?thesis by (simp add: tfind_remove)
  next
    case called
    from st(4) obtain c where "tfind co_id k (call_orders s3) = Some c" by (auto simp: check_position_def)
    with called up(1) pid show ?thesis by simp
  next
    case (safe c)
    with check_call_orders_off have "s' = s3" by blast
    with safe up pid show ?thesis by auto
  qed
  with moves_conserve [OF call_order_update_moves [OF assms(1-4)] assms(1)] show ?thesis by blast
qed

theorem call_order_update_safe_witness:
  "\<exists>s' c. call_order_update_apply \<lparr>funding_account = 2, delta_collateral = asset_of 50 0, delta_debt = asset_of 0 2\<rparr>
      demo_orders = Inr s' \<and> tfind co_id 2 (call_orders s') = Some c \<and> collateral c = 150 \<and>
    price_lt (price_inv (co_call_price c)) \<lparr>base = asset_of 10 2, quote = asset_of 20 0\<rparr> \<and>
    imbalance 2 s' = imbalance 2 demo_orders \<and> imbalance 0 demo_orders \<le> imbalance 0 s'"
proof -
  let ?op = "\<lparr>funding_account = 2, delta_collateral = asset_of 50 0, delta_debt = asset_of 0 2\<rparr>"
  have "calls_backed demo_orders \<and> call_order_update_evaluate ?op demo_orders = Inr () \<and> position_id ?op demo_orders = 2 \<and>
      (case get_asset demo_orders 2 of Inl _ \<Rightarrow> False | Inr da \<Rightarrow> (case bitasset_data demo_orders da of Inl _ \<Rightarrow> False | Inr b \<Rightarrow>
        pf_settlement_price (current_feed b) = \<lparr>base = asset_of 10 2, quote = asset_of 20 0\<rparr>)) \<and>
      (case call_order_update_apply ?op demo_orders of Inl _ \<Rightarrow> False | Inr s' \<Rightarrow>
        (case tfind co_id 2 (call_orders s') of None \<Rightarrow> False | Some c \<Rightarrow> collateral c = 150))" by code_simp
  then obtain da b s' c where e: "calls_backed demo_orders" "call_order_update_evaluate ?op demo_orders = Inr ()"
    "call_order_update_apply ?op demo_orders = Inr s'" "get_asset demo_orders 2 = Inr da" "bitasset_data demo_orders da = Inr b"
    and f: "pf_settlement_price (current_feed b) = \<lparr>base = asset_of 10 2, quote = asset_of 20 0\<rparr>"
      "position_id ?op demo_orders = 2" "tfind co_id 2 (call_orders s') = Some c" "collateral c = 150"
    by (auto split: sum.splits option.splits)
  from call_order_update_safe [OF demo_orders_wf e(1-3), of da b] e f show ?thesis by (auto simp: core_asset_def)
qed

text \<open>C28: creating a limit order conserves every asset but core exactly, and core up to refunded fees. For an operation that passed
  \<open>validate\<close>, with 64-bit amounts, the whole of \<open>do_apply\<close>, from the debit of the seller through matching, keeps the database
  well-formed and every asset but core exactly in balance with its supply; core is not conserved but can only grow, by no more than the
  deferred fees of the limit orders that are gone, because a cancellation refunds a fee that was already paid.\<close>

theorem limit_order_create_conserves:
  assumes "db_wf s" "limit_order_create_validate op = Inr ()" "amount (amount_to_sell op) \<le> int64_max"
    "amount (min_to_receive op) \<le> int64_max" "limit_order_create_apply op s = Inr (s', r)"
  shows "db_wf s' \<and> (\<forall>a. a \<noteq> core_asset \<longrightarrow> imbalance a s' = imbalance a s) \<and>
    imbalance core_asset s \<le> imbalance core_asset s' \<and>
    imbalance core_asset s' \<le> imbalance core_asset s + (deferred (limit_orders s) - deferred (limit_orders s'))"
  using moves_conserve [OF limit_order_create_moves [OF assms] assms(1)] by blast

theorem limit_order_create_conserves_witness:
  "\<exists>s' i f. limit_order_create_apply \<lparr>oc_seller = 3, amount_to_sell = asset_of 20 0, min_to_receive = asset_of 5 2,
      oc_expiration = 4, fill_or_kill = False\<rparr> demo_orders = Inr (s', i, f) \<and> imbalance 2 s' = imbalance 2 demo_orders \<and>
    imbalance 0 demo_orders \<le> imbalance 0 s' \<and>
    imbalance 0 s' \<le> imbalance 0 demo_orders + (deferred (limit_orders demo_orders) - deferred (limit_orders s'))"
proof -
  let ?op = "\<lparr>oc_seller = 3, amount_to_sell = asset_of 20 0, min_to_receive = asset_of 5 2, oc_expiration = 4, fill_or_kill = False\<rparr>"
  have "case limit_order_create_apply ?op demo_orders of Inl _ \<Rightarrow> False | Inr _ \<Rightarrow> True" by code_simp
  then obtain s' r where r: "limit_order_create_apply ?op demo_orders = Inr (s', r)" by (auto split: sum.splits)
  have "limit_order_create_validate ?op = Inr ()" by (simp add: limit_order_create_validate_def)
  from limit_order_create_conserves [OF demo_orders_wf this _ _ r] r show ?thesis
    by (cases r) (auto simp: int64_max_def core_asset_def)
qed

text \<open>C29: bidding on the collateral of a settled asset conserves every asset, whether a bid is placed, replaced or
  withdrawn.\<close>

theorem bid_collateral_conserves:
  assumes "db_wf s" "bid_collateral_apply op s = Inr (s', r)"
  shows "db_wf s' \<and> (\<forall>a. imbalance a s' = imbalance a s)"
  using moves_exact [OF bid_collateral_moves [OF assms] assms(1) bid_collateral_limit_orders [OF assms(2)]]
  by (simp add: no_flow_def)

theorem bid_collateral_conserves_witness:
  "\<exists>mia s s'. get_asset demo_orders 2 = Inr mia \<and>
    globally_settle_asset mia \<lparr>base = asset_of 1 2, quote = asset_of 3 0\<rparr> demo_orders = Inr s \<and>
    bid_collateral_apply \<lparr>bc_bidder = 3, additional_collateral = asset_of 10 0, debt_covered = asset_of 5 2\<rparr> s = Inr (s', Some 0) \<and>
    imbalance 0 s' = imbalance 0 s"
proof -
  let ?op = "\<lparr>bc_bidder = 3, additional_collateral = asset_of 10 0, debt_covered = asset_of 5 2\<rparr>"
  have "case get_asset demo_orders 2 of Inl _ \<Rightarrow> False | Inr mia \<Rightarrow> as_id mia = 2 \<and>
      (case globally_settle_asset mia \<lparr>base = asset_of 1 2, quote = asset_of 3 0\<rparr> demo_orders of
        Inl _ \<Rightarrow> False | Inr s \<Rightarrow> (case bid_collateral_apply ?op s of Inl _ \<Rightarrow> False | Inr (s', r) \<Rightarrow> r = Some 0))"
    by code_simp
  then obtain mia s s' where m: "get_asset demo_orders 2 = Inr mia" "as_id mia = 2"
    and g: "globally_settle_asset mia \<lparr>base = asset_of 1 2, quote = asset_of 3 0\<rparr> demo_orders = Inr s"
    and r: "bid_collateral_apply ?op s = Inr (s', Some 0)"
    by (auto split: sum.splits)
  have "db_wf s" using globally_settle_effect [OF demo_orders_wf _ _ g] m by simp
  from bid_collateral_conserves [OF this r] m g r show ?thesis by blast
qed

end
