(* ===== verification/Stateful.thy ===== *)
theory Stateful
  imports Chain_Prelude
begin

text \<open>Computations that change a state and may throw. The result, value or exception, comes together with the new state: what was
  changed before a throw stays changed. \<open>keeps\<close> is the rule system for invariants that hold however the computation ends, \<open>returns\<close> the
  one for computations that end without an exception.\<close>

section \<open>Stateful computations that may throw\<close>

type_synonym ('s, 'a) stateful = "'s \<Rightarrow> 'a result \<times> 's"

definition retS :: "'a \<Rightarrow> ('s, 'a) stateful" where
  "retS x = (\<lambda>s. (Inr x, s))"

definition throwS :: "chain_error \<Rightarrow> ('s, 'a) stateful" where
  "throwS e = (\<lambda>s. (Inl e, s))"

definition bindS :: "('s, 'a) stateful \<Rightarrow> ('a \<Rightarrow> ('s, 'b) stateful) \<Rightarrow> ('s, 'b) stateful" where
  "bindS m f = (\<lambda>s. case m s of (Inl e, s') \<Rightarrow> (Inl e, s') | (Inr x, s') \<Rightarrow> f x s')"

definition liftS :: "'a result \<Rightarrow> ('s, 'a) stateful" where
  "liftS r = (\<lambda>s. (r, s))"

primrec forS :: "('x \<Rightarrow> ('s, unit) stateful) \<Rightarrow> 'x list \<Rightarrow> ('s, unit) stateful" where
  "forS f [] = retS ()"
| "forS f (x # xs) = bindS (f x) (\<lambda>_. forS f xs)"

lemma bindS_Inr: "bindS m f s = (Inr y, s'') \<longleftrightarrow> (\<exists>x s'. m s = (Inr x, s') \<and> f x s' = (Inr y, s''))"
  by (auto simp: bindS_def split: prod.splits sum.splits)

section \<open>Invariants of stateful computations\<close>

text \<open>\<open>keeps I m Q\<close>: the computation keeps \<open>I\<close>, whether it throws or not, and a value it returns satisfies \<open>Q\<close>.\<close>

definition keeps :: "('s \<Rightarrow> bool) \<Rightarrow> ('s, 'a) stateful \<Rightarrow> ('a \<Rightarrow> bool) \<Rightarrow> bool" where
  "keeps I m Q \<longleftrightarrow> (\<forall>s. I s \<longrightarrow> I (snd (m s)) \<and> (\<forall>x. fst (m s) = Inr x \<longrightarrow> Q x))"

named_theorems keeps_rules

lemma keeps_ret [keeps_rules]: "Q x \<Longrightarrow> keeps I (retS x) Q"
  by (simp add: keeps_def retS_def)

lemma keeps_throw [keeps_rules]: "keeps I (throwS e) Q"
  by (simp add: keeps_def throwS_def)

lemma keeps_lift: "(\<And>x. r = Inr x \<Longrightarrow> Q x) \<Longrightarrow> keeps I (liftS r) Q"
  by (simp add: keeps_def liftS_def)

lemma keeps_bind:
  assumes "keeps I m Q" "\<And>x. Q x \<Longrightarrow> keeps I (f x) R"
  shows "keeps I (bindS m f) R"
  unfolding keeps_def
proof (intro allI impI)
  fix s assume I: "I s"
  show "I (snd (bindS m f s)) \<and> (\<forall>x. fst (bindS m f s) = Inr x \<longrightarrow> R x)"
  proof (cases "m s")
    case (Pair r s')
    with assms(1) I have "I s'" "\<And>x. r = Inr x \<Longrightarrow> Q x" by (force simp: keeps_def)+
    with Pair assms(2) show ?thesis by (cases r) (auto simp: bindS_def keeps_def)
  qed
qed

lemma keeps_weaken: "keeps I m Q \<Longrightarrow> (\<And>x. Q x \<Longrightarrow> R x) \<Longrightarrow> keeps I m R"
  by (auto simp: keeps_def)

lemma keeps_for:
  assumes "\<And>x. x \<in> set xs \<Longrightarrow> keeps I (f x) (\<lambda>_. P x)"
  shows "keeps I (forS f xs) (\<lambda>_. \<forall>x \<in> set xs. P x)"
  using assms
proof (induction xs)
  case (Cons x xs)
  have "keeps I (forS f xs) (\<lambda>_. \<forall>x \<in> set xs. P x)" using Cons by simp
  then show ?case using Cons.prems [of x] unfolding forS.simps
    by (intro keeps_bind [where Q = "\<lambda>_. P x"]) (auto elim: keeps_weaken)
qed (simp add: keeps_ret)

text \<open>\<open>returns J m Q\<close>: from a state with \<open>J\<close> the computation returns a value with \<open>Q\<close>, in a state with \<open>J\<close>.\<close>

definition returns :: "('s \<Rightarrow> bool) \<Rightarrow> ('s, 'a) stateful \<Rightarrow> ('a \<Rightarrow> bool) \<Rightarrow> bool" where
  "returns J m Q \<longleftrightarrow> (\<forall>s. J s \<longrightarrow> (\<exists>x s'. m s = (Inr x, s') \<and> J s' \<and> Q x))"

lemma returns_ret: "Q x \<Longrightarrow> returns J (retS x) Q"
  by (simp add: returns_def retS_def)

lemma returns_bind: "returns J m Q \<Longrightarrow> (\<And>x. Q x \<Longrightarrow> returns J (f x) R) \<Longrightarrow> returns J (bindS m f) R"
  by (fastforce simp: returns_def bindS_def)

lemma returns_weaken: "returns J m Q \<Longrightarrow> (\<And>x. Q x \<Longrightarrow> R x) \<Longrightarrow> returns J m R"
  unfolding returns_def by blast

lemma returns_lift: "r = Inr x \<Longrightarrow> Q x \<Longrightarrow> returns J (liftS r) Q"
  by (simp add: returns_def liftS_def)

lemma returns_for:
  assumes "\<And>x. x \<in> set xs \<Longrightarrow> returns J (f x) (\<lambda>_. True)"
  shows "returns J (forS f xs) (\<lambda>_. True)"
  using assms by (induction xs) (auto intro: returns_ret returns_bind)

lemma returns_unit: "returns J m (\<lambda>_. True) \<Longrightarrow> J s \<Longrightarrow> \<exists>s'. m s = (Inr (), s') \<and> J s'"
  by (auto simp: returns_def)

end
