(* ===== verification/Authority.thy ===== *)
theory Authority
  imports Stateful "HOL-Library.Word"
begin

text \<open>Authorities and the check of the signatures of a transaction (\<open>protocol/authority.hpp\<close>, \<open>protocol/authority.cpp\<close>,
  \<open>protocol/operations.cpp\<close> and the part of \<open>protocol/transaction.cpp\<close> about authorities). Keys and addresses are type
  parameters; the five addresses of a key, a hash of the key each, are a function \<open>addrs\<close>, and the recovery of a key from a
  signature is a function \<open>recover\<close>. Flat maps and sets are association lists and lists in the order of their keys.

  The check changes its state (which signatures were used, which accounts are approved) also when it throws, and
  \<open>verify_authority\<close> goes on after an exception in one place. A stateful computation therefore returns its result, value
  or exception, together with the new state.\<close>

declare set_insort_insert [simp]

section \<open>Authorities\<close>

record ('k, 'a) authority =
  weight_threshold :: "32 word"
  account_auths :: "(nat \<times> 16 word) list"
  key_auths :: "('k \<times> 16 word) list"
  address_auths :: "('a \<times> 16 word) list"

definition empty_authority :: "('k, 'a) authority" where
  "empty_authority = \<lparr>weight_threshold = 0, account_auths = [], key_auths = [], address_auths = []\<rparr>"

text \<open>A map as an association list: a new key goes to the end. The order of the provided keys is seen only by \<open>address_map\<close>, when two
  keys have an address in common.\<close>

definition assoc_set :: "'k \<Rightarrow> 'v \<Rightarrow> ('k \<times> 'v) list \<Rightarrow> ('k \<times> 'v) list" where
  "assoc_set k v m = (if map_of m k = None then m @ [(k, v)] else map (\<lambda>x. if fst x = k then (k, v) else x) m)"

definition add_authority_key :: "'k \<Rightarrow> 16 word \<Rightarrow> ('k, 'a) authority \<Rightarrow> ('k, 'a) authority" where
  "add_authority_key k w au = au\<lparr>key_auths := assoc_set k w (key_auths au)\<rparr>"

definition add_authority_address :: "'a \<Rightarrow> 16 word \<Rightarrow> ('k, 'a) authority \<Rightarrow> ('k, 'a) authority" where
  "add_authority_address a w au = au\<lparr>address_auths := assoc_set a w (address_auths au)\<rparr>"

definition add_authority_account :: "nat \<Rightarrow> 16 word \<Rightarrow> ('k, 'a) authority \<Rightarrow> ('k, 'a) authority" where
  "add_authority_account a w au = au\<lparr>account_auths := assoc_set a w (account_auths au)\<rparr>"

definition GRAPHENE_NULL_ACCOUNT :: nat where
  "GRAPHENE_NULL_ACCOUNT = 3"

definition null_authority :: "('k, 'a) authority" where
  "null_authority = add_authority_account GRAPHENE_NULL_ACCOUNT 1 (empty_authority\<lparr>weight_threshold := 1\<rparr>)"

definition weights64 :: "('x \<times> 16 word) list \<Rightarrow> 64 word" where
  "weights64 xs = sum_list (map (\<lambda>x. ucast (snd x)) xs)"

definition is_impossible :: "('k, 'a) authority \<Rightarrow> bool" where
  "is_impossible au \<longleftrightarrow> weights64 (account_auths au) + weights64 (key_auths au) + weights64 (address_auths au) < ucast (weight_threshold au)"

definition get_keys :: "('k, 'a) authority \<Rightarrow> 'k list" where
  "get_keys au = map fst (key_auths au)"

definition get_addresses :: "('k, 'a) authority \<Rightarrow> 'a list" where
  "get_addresses au = map fst (address_auths au)"

definition num_auths :: "('k, 'a) authority \<Rightarrow> 32 word" where
  "num_auths au = of_nat (length (account_auths au) + length (key_auths au) + length (address_auths au))"

definition authority_clear :: "('k, 'a) authority \<Rightarrow> ('k, 'a) authority" where
  "authority_clear au = au\<lparr>account_auths := [], key_auths := []\<rparr>"

definition add_authority_accounts :: "nat list \<Rightarrow> ('k, 'a) authority \<Rightarrow> nat list" where
  "add_authority_accounts r au = fold insort_insert (map fst (account_auths au)) r"

section \<open>What an operation requires\<close>

text \<open>The interface of an operation that the authority check uses.\<close>

record ('k, 'a) op_auth =
  op_fee_payer :: nat
  op_required_active :: "nat list"
  op_required_owner :: "nat list"
  op_required_other :: "('k, 'a) authority list"

definition operation_get_required_authorities ::
  "('k, 'a) op_auth \<Rightarrow> nat list \<times> nat list \<times> ('k, 'a) authority list \<Rightarrow> nat list \<times> nat list \<times> ('k, 'a) authority list" where
  "operation_get_required_authorities op = (\<lambda>(active, owner, other).
     (fold insort_insert (op_required_active op) (insort_insert (op_fee_payer op) active),
      fold insort_insert (op_required_owner op) owner,
      other @ op_required_other op))"

definition get_required_authorities :: "('k, 'a) op_auth list \<Rightarrow> nat list \<times> nat list \<times> ('k, 'a) authority list" where
  "get_required_authorities ops = fold operation_get_required_authorities ops ([], [], [])"

section \<open>The state of the check\<close>

definition GRAPHENE_COMMITTEE_ACCOUNT :: nat where
  "GRAPHENE_COMMITTEE_ACCOUNT = 0"

definition GRAPHENE_TEMP_ACCOUNT :: nat where
  "GRAPHENE_TEMP_ACCOUNT = 4"

record ('k, 'a) sign_state =
  available_keys :: "'k list"
  provided_signatures :: "('k \<times> bool) list"
  approved_by :: "nat list"
  max_recursion :: "32 word"
  available_address_sigs :: "('a \<times> 'k) list option"
  provided_address_sigs :: "('a \<times> 'k) list option"

definition new_sign_state :: "'k list \<Rightarrow> 'k list \<Rightarrow> 32 word \<Rightarrow> ('k, 'a) sign_state" where
  "new_sign_state sigs keys m = \<lparr>available_keys = keys, provided_signatures = map (\<lambda>k. (k, False)) sigs,
     approved_by = [GRAPHENE_TEMP_ACCOUNT], max_recursion = m, available_address_sigs = None, provided_address_sigs = None\<rparr>"

definition signed_by_key :: "'k \<Rightarrow> (('k, 'a) sign_state, bool) stateful" where
  "signed_by_key k s =
     (if map_of (provided_signatures s) k = None then
        if k \<in> set (available_keys s)
        then (Inr True, s\<lparr>provided_signatures := assoc_set k True (provided_signatures s)\<rparr>)
        else (Inr False, s)
      else (Inr True, s\<lparr>provided_signatures := assoc_set k True (provided_signatures s)\<rparr>))"

definition address_map :: "('k \<Rightarrow> 'a list) \<Rightarrow> 'k list \<Rightarrow> ('a \<times> 'k) list" where
  "address_map addrs ks = fold (\<lambda>k. fold (\<lambda>a. assoc_set a k) (addrs k)) ks []"

definition init_addresses :: "('k \<Rightarrow> 'a list) \<Rightarrow> ('k, 'a) sign_state \<Rightarrow> ('k, 'a) sign_state" where
  "init_addresses addrs s =
     (if available_address_sigs s \<noteq> None then s
      else s\<lparr>available_address_sigs := Some (address_map addrs (available_keys s)),
             provided_address_sigs := Some (address_map addrs (map fst (provided_signatures s)))\<rparr>)"

text \<open>An address found neither among the provided nor among the available ones is read through the end iterator.\<close>

definition signed_by_address :: "('k \<Rightarrow> 'a list) \<Rightarrow> 'a \<Rightarrow> (('k, 'a) sign_state, bool) stateful" where
  "signed_by_address addrs a s0 =
     (let s = init_addresses addrs s0;
          use = (\<lambda>k. (Inr True, s\<lparr>provided_signatures := assoc_set k True (provided_signatures s)\<rparr>))
      in case map_of (the (provided_address_sigs s)) a of
           Some k \<Rightarrow> use k
         | None \<Rightarrow>
             (case map_of (the (available_address_sigs s)) a of
                Some k \<Rightarrow> if k \<in> set (available_keys s) then use k else (Inr False, s)
              | None \<Rightarrow> (Inl Undefined_behaviour, s)))"

text \<open>The three loops of \<open>check_authority\<close> have the same shape: weigh the members that approve until the threshold is
  reached.\<close>

fun weigh :: "('x \<Rightarrow> ('s, bool) stateful) \<Rightarrow> 32 word \<Rightarrow> ('x \<times> 16 word) list \<Rightarrow> 32 word \<Rightarrow> ('s, 32 word \<times> bool) stateful" where
  "weigh f threshold [] tot = retS (tot, False)"
| "weigh f threshold ((x, w) # xs) tot =
     bindS (f x) (\<lambda>ok.
     if ok then
       let t = tot + ucast w in if t \<ge> threshold then retS (t, True) else weigh f threshold xs t
     else weigh f threshold xs tot)"

definition check_members ::
  "('k \<Rightarrow> 'a list) \<Rightarrow> (nat \<Rightarrow> (('k, 'a) sign_state, bool) stateful) \<Rightarrow> ('k, 'a) authority option \<Rightarrow> (('k, 'a) sign_state, bool) stateful" where
  "check_members addrs check_account au = (case au of
     None \<Rightarrow> retS False
   | Some auth \<Rightarrow>
       bindS (weigh signed_by_key (weight_threshold auth) (key_auths auth) 0) (\<lambda>(t1, done1).
       if done1 then retS True
       else bindS (weigh (signed_by_address addrs) (weight_threshold auth) (address_auths auth) t1) (\<lambda>(t2, done2).
       if done2 then retS True
       else bindS (weigh check_account (weight_threshold auth) (account_auths auth) t2) (\<lambda>(t3, done3).
       if done3 then retS True else retS (t3 \<ge> weight_threshold auth)))))"

text \<open>\<open>check_authority\<close> by the recursion that is left: \<open>depth = max_recursion\<close> when nothing is left.\<close>

primrec check_authority ::
  "('k \<Rightarrow> 'a list) \<Rightarrow> (nat \<Rightarrow> ('k, 'a) authority option result) \<Rightarrow> nat \<Rightarrow> ('k, 'a) authority option \<Rightarrow> (('k, 'a) sign_state, bool) stateful" where
  "check_authority addrs get_active 0 = check_members addrs (\<lambda>a s. (Inr (a \<in> set (approved_by s)), s))"
| "check_authority addrs get_active (Suc n) = check_members addrs (\<lambda>a s.
     if a \<in> set (approved_by s) then (Inr True, s)
     else bindS (liftS (get_active a)) (\<lambda>au.
          bindS (check_authority addrs get_active n au) (\<lambda>ok.
          if ok then (\<lambda>s. (Inr True, s\<lparr>approved_by := insort_insert a (approved_by s)\<rparr>)) else retS False)) s)"

definition check_account_authority ::
  "('k \<Rightarrow> 'a list) \<Rightarrow> (nat \<Rightarrow> ('k, 'a) authority option result) \<Rightarrow> nat \<Rightarrow> (('k, 'a) sign_state, bool) stateful" where
  "check_account_authority addrs get_active a s =
     (if a \<in> set (approved_by s) then (Inr True, s)
      else bindS (liftS (get_active a)) (check_authority addrs get_active (unat (max_recursion s))) s)"

definition check_top ::
  "('k \<Rightarrow> 'a list) \<Rightarrow> (nat \<Rightarrow> ('k, 'a) authority option result) \<Rightarrow> ('k, 'a) authority option \<Rightarrow> (('k, 'a) sign_state, bool) stateful" where
  "check_top addrs get_active au s = check_authority addrs get_active (unat (max_recursion s)) au s"

definition remove_unused_signatures :: "('k, 'a) sign_state \<Rightarrow> ('k, 'a) sign_state \<times> nat" where
  "remove_unused_signatures s =
     (s\<lparr>provided_signatures := filter snd (provided_signatures s)\<rparr>, length (filter (\<lambda>x. \<not> snd x) (provided_signatures s)))"

section \<open>Verification of a transaction\<close>

text \<open>The test of the committee's approval: an exception is caught and the check goes on with the state it left.\<close>

definition try_committee ::
  "('k \<Rightarrow> 'a list) \<Rightarrow> (nat \<Rightarrow> ('k, 'a) authority option result) \<Rightarrow> (('k, 'a) sign_state, bool) stateful" where
  "try_committee addrs get_active s = (case check_account_authority addrs get_active GRAPHENE_COMMITTEE_ACCOUNT s of
     (Inl Undefined_behaviour, s') \<Rightarrow> (Inl Undefined_behaviour, s')
   | (Inl _, s') \<Rightarrow> (Inr False, s')
   | (Inr ok, s') \<Rightarrow> (Inr ok, s'))"

definition requireS :: "(('k, 'a) sign_state, bool) stateful \<Rightarrow> chain_error \<Rightarrow> (('k, 'a) sign_state, unit) stateful" where
  "requireS m e = bindS m (\<lambda>ok. if ok then retS () else throwS e)"

text \<open>The arguments of the message of a failed assertion are read through the pointers.\<close>

definition missing_auth :: "('k, 'a) authority option result list \<Rightarrow> chain_error \<Rightarrow> chain_error" where
  "missing_auth args e = (if list_ex (\<lambda>r. case r of Inr None \<Rightarrow> True | _ \<Rightarrow> False) args then Undefined_behaviour else e)"

definition check_active ::
  "('k \<Rightarrow> 'a list) \<Rightarrow> (nat \<Rightarrow> ('k, 'a) authority option result) \<Rightarrow> (nat \<Rightarrow> ('k, 'a) authority option result) \<Rightarrow> nat \<Rightarrow>
   (('k, 'a) sign_state, bool) stateful" where
  "check_active addrs get_active get_owner a =
     bindS (check_account_authority addrs get_active a) (\<lambda>ok.
     if ok then retS True else bindS (liftS (get_owner a)) (check_top addrs get_active))"

definition check_owner ::
  "('k \<Rightarrow> 'a list) \<Rightarrow> (nat \<Rightarrow> ('k, 'a) authority option result) \<Rightarrow> (nat \<Rightarrow> ('k, 'a) authority option result) \<Rightarrow> nat list \<Rightarrow> nat \<Rightarrow>
   (('k, 'a) sign_state, bool) stateful" where
  "check_owner addrs get_active get_owner owner_approvals a =
     (if a \<in> set owner_approvals then retS True else bindS (liftS (get_owner a)) (check_top addrs get_active))"

definition check_required ::
  "('k \<Rightarrow> 'a list) \<Rightarrow> (nat \<Rightarrow> ('k, 'a) authority option result) \<Rightarrow> (nat \<Rightarrow> ('k, 'a) authority option result) \<Rightarrow> bool \<Rightarrow> nat list \<Rightarrow>
   nat list \<times> nat list \<times> ('k, 'a) authority list \<Rightarrow> (('k, 'a) sign_state, unit) stateful" where
  "check_required addrs get_active get_owner allow_committe owner_approvals = (\<lambda>(required_active, required_owner, other).
     bindS (forS (\<lambda>auth. requireS (check_top addrs get_active (Some auth)) Tx_missing_other_auth) other) (\<lambda>_.
     bindS (forS (\<lambda>a. requireS (check_active addrs get_active get_owner a)
              (missing_auth [get_active a, get_owner a] Tx_missing_active_auth)) required_active) (\<lambda>_.
     bindS (forS (\<lambda>a. requireS (check_owner addrs get_active get_owner owner_approvals a)
              (missing_auth [get_owner a] Tx_missing_owner_auth)) required_owner) (\<lambda>_.
     (\<lambda>s. let (s', n) = remove_unused_signatures s in
        if \<not> (n \<le> 5 \<or> allow_committe) then (Inl Tx_irrelevant_sig, s') else (Inr (), s'))))))"

definition verify_authority ::
  "('k \<Rightarrow> 'a list) \<Rightarrow> ('k, 'a) op_auth list \<Rightarrow> 'k list \<Rightarrow> (nat \<Rightarrow> ('k, 'a) authority option result) \<Rightarrow>
   (nat \<Rightarrow> ('k, 'a) authority option result) \<Rightarrow> 32 word \<Rightarrow> bool \<Rightarrow> nat list \<Rightarrow> nat list \<Rightarrow> unit result" where
  "verify_authority addrs ops sigs get_active get_owner max_recursion_depth allow_committe active_aprovals owner_approvals =
     (let required = get_required_authorities ops;
          s0 = new_sign_state sigs [] max_recursion_depth;
          s = s0\<lparr>approved_by := fold insort_insert owner_approvals (fold insort_insert active_aprovals (approved_by s0))\<rparr>;
          check = check_required addrs get_active get_owner allow_committe owner_approvals required
      in if \<not> allow_committe then
           if \<not> GRAPHENE_COMMITTEE_ACCOUNT \<notin> set (fst required) then Inl Invalid_committee_approval else fst (check s)
         else fst (bindS (try_committee addrs get_active) (\<lambda>ok. if ok then retS () else check) s))"

definition get_signature_keys :: "('s \<Rightarrow> 'd \<Rightarrow> 'k :: linorder) \<Rightarrow> 'd \<Rightarrow> 's list \<Rightarrow> 'k list result" where
  "get_signature_keys recover d signatures =
     foldE (\<lambda>sig ks. let k = recover sig d in if k \<in> set ks then Inl Tx_duplicate_sig else Inr (insort k ks)) signatures []"

definition signed_verify_authority ::
  "('k :: linorder \<Rightarrow> 'a list) \<Rightarrow> ('s \<Rightarrow> 'd \<Rightarrow> 'k) \<Rightarrow> 'd \<Rightarrow> 's list \<Rightarrow> ('k, 'a) op_auth list \<Rightarrow>
   (nat \<Rightarrow> ('k, 'a) authority option result) \<Rightarrow> (nat \<Rightarrow> ('k, 'a) authority option result) \<Rightarrow> 32 word \<Rightarrow> 'k list result" where
  "signed_verify_authority addrs recover d signatures ops get_active get_owner max_recursion_depth =
     bindE (get_signature_keys recover d signatures) (\<lambda>sigkeys.
     bindE (verify_authority addrs ops sigkeys get_active get_owner max_recursion_depth False [] []) (\<lambda>_. Inr sigkeys))"

definition get_required_signatures ::
  "('k :: linorder \<Rightarrow> 'a list) \<Rightarrow> ('k, 'a) op_auth list \<Rightarrow> 'k list \<Rightarrow> 'k list \<Rightarrow> (nat \<Rightarrow> ('k, 'a) authority option result) \<Rightarrow>
   (nat \<Rightarrow> ('k, 'a) authority option result) \<Rightarrow> 32 word \<Rightarrow> 'k list result" where
  "get_required_signatures addrs ops sigs keys get_active get_owner m =
     (let (required_active, required_owner, other) = get_required_authorities ops;
          run = bindS (forS (\<lambda>auth. bindS (check_top addrs get_active (Some auth)) (\<lambda>_. retS ())) other) (\<lambda>_.
                bindS (forS (\<lambda>a. bindS (liftS (get_owner a)) (\<lambda>au. bindS (check_top addrs get_active au) (\<lambda>_. retS ()))) required_owner) (\<lambda>_.
                forS (\<lambda>a. bindS (check_account_authority addrs get_active a) (\<lambda>_. retS ())) required_active))
      in case run (new_sign_state sigs keys m) of
           (Inl e, _) \<Rightarrow> Inl e
         | (Inr _, s) \<Rightarrow> Inr (sort (filter (\<lambda>k. k \<in> set keys) (map fst (provided_signatures (fst (remove_unused_signatures s)))))))"

fun drop_keys :: "('k list \<Rightarrow> unit result) \<Rightarrow> 'k list \<Rightarrow> 'k list \<Rightarrow> 'k list result" where
  "drop_keys check [] r = Inr r"
| "drop_keys check (k # ks) r =
     (let r' = filter (\<lambda>x. x \<noteq> k) r in
      case check r' of
        Inr _ \<Rightarrow> drop_keys check ks r'
      | Inl e \<Rightarrow> if e \<in> {Tx_missing_owner_auth, Tx_missing_active_auth, Tx_missing_other_auth} then drop_keys check ks r else Inl e)"

definition minimize_required_signatures ::
  "('k :: linorder \<Rightarrow> 'a list) \<Rightarrow> ('k, 'a) op_auth list \<Rightarrow> 'k list \<Rightarrow> 'k list \<Rightarrow> (nat \<Rightarrow> ('k, 'a) authority option result) \<Rightarrow>
   (nat \<Rightarrow> ('k, 'a) authority option result) \<Rightarrow> 32 word \<Rightarrow> 'k list result" where
  "minimize_required_signatures addrs ops sigs keys get_active get_owner m =
     bindE (get_required_signatures addrs ops sigs keys get_active get_owner m) (\<lambda>s.
     drop_keys (\<lambda>r. verify_authority addrs ops r get_active get_owner m False [] []) s s)"

end
