(* ===== verification/Authority_Properties.thy ===== *)
theory Authority_Properties
  imports Authority
begin

text \<open>
  Correctness of the authority check of \<open>protocol/transaction.cpp\<close>. Approval is first stated declaratively: \<open>account_ok\<close>
  without a bound on the depth, \<open>within\<close> up to a depth. \<open>keeps\<close> and \<open>returns\<close> are the proof rules for the stateful check; with them
  \<open>verify_authority\<close> is shown sound for \<open>account_ok\<close> and complete for \<open>within\<close>.
\<close>

section \<open>Approval, declaratively\<close>

definition weight_of :: "('x \<Rightarrow> bool) \<Rightarrow> ('x \<times> 16 word) list \<Rightarrow> nat" where
  "weight_of P xs = sum_list (map (\<lambda>x. if P (fst x) then unat (snd x) else 0) xs)"

lemma weight_of_simps [simp]:
  "weight_of P [] = 0" "weight_of P ((x, w) # xs) = (if P x then unat w else 0) + weight_of P xs"
  by (simp_all add: weight_of_def)

lemma weight_of_mono: "(\<And>x. P x \<Longrightarrow> Q x) \<Longrightarrow> weight_of P xs \<le> weight_of Q xs"
  unfolding weight_of_def by (rule sum_list_mono) auto

text \<open>An account approves when it is among the approved ones, or when the weights of the signed keys, the signed addresses and of
  accounts that approve reach the threshold of its active authority. There is no bound on the depth.\<close>

inductive account_ok ::
  "(nat \<Rightarrow> ('k, 'a) authority option result) \<Rightarrow> 'k set \<Rightarrow> 'a set \<Rightarrow> nat set \<Rightarrow> nat \<Rightarrow> bool"
  for get_active S D A where
  approved: "a \<in> A \<Longrightarrow> account_ok get_active S D A a"
| active: "get_active a = Inr (Some au) \<Longrightarrow> \<forall>b \<in> B. account_ok get_active S D A b \<Longrightarrow>
     unat (weight_threshold au) \<le> weight_of (\<lambda>k. k \<in> S) (key_auths au) + weight_of (\<lambda>d. d \<in> D) (address_auths au) +
       weight_of (\<lambda>b. b \<in> B) (account_auths au) \<Longrightarrow> account_ok get_active S D A a"

definition authority_ok ::
  "(nat \<Rightarrow> ('k, 'a) authority option result) \<Rightarrow> 'k set \<Rightarrow> 'a set \<Rightarrow> nat set \<Rightarrow> ('k, 'a) authority \<Rightarrow> bool" where
  "authority_ok get_active S D A au \<longleftrightarrow>
     unat (weight_threshold au) \<le> weight_of (\<lambda>k. k \<in> S) (key_auths au) + weight_of (\<lambda>d. d \<in> D) (address_auths au) +
       weight_of (account_ok get_active S D A) (account_auths au)"

lemma authority_ok_account:
  assumes "get_active a = Inr (Some au)" "authority_ok get_active S D A au"
  shows "account_ok get_active S D A a"
  by (rule active [where B = "Collect (account_ok get_active S D A)"]) (use assms in \<open>auto simp: authority_ok_def\<close>)

lemma word_add_le: "unat (a + b :: 32 word) \<le> unat a + unat b"
  by (simp add: unat_word_ariths)

lemma keeps_weigh:
  assumes "\<And>x. keeps I (f x) (\<lambda>ok. ok \<longrightarrow> P x)"
  shows "keeps I (weigh f th xs acc) (\<lambda>(t, stop). unat t \<le> unat acc + weight_of P xs \<and> (stop \<longrightarrow> th \<le> t))"
proof (induction xs arbitrary: acc)
  case Nil
  show ?case by (simp add: keeps_ret)
next
  case (Cons y ys)
  obtain x w where y: "y = (x, w)" by (cases y)
  have u: "unat (ucast w :: 32 word) = unat w"
    using unsigned_less [of w, where ?'a = nat] by (simp add: unsigned_ucast_eq take_bit_nat_eq_self)
  show ?case unfolding y weigh.simps
  proof (rule keeps_bind [OF assms])
    fix ok assume ok: "ok \<longrightarrow> P x"
    let ?t = "acc + ucast w"
    have le: "unat ?t \<le> unat acc + unat w" using word_add_le [of acc "ucast w"] u by simp
    show "keeps I (if ok then let t = ?t in if th \<le> t then retS (t, True) else weigh f th ys t else weigh f th ys acc)
        (\<lambda>(t, stop). unat t \<le> unat acc + weight_of P ((x, w) # ys) \<and> (stop \<longrightarrow> th \<le> t))"
      using ok le by (auto simp: Let_def intro!: keeps_ret keeps_weaken [OF Cons.IH [of ?t]] keeps_weaken [OF Cons.IH [of acc]])
  qed
qed

section \<open>The check is sound\<close>

definition sig_addresses :: "('k \<Rightarrow> 'a list) \<Rightarrow> 'k set \<Rightarrow> 'a set" where
  "sig_addresses addrs S = (\<Union>k \<in> S. set (addrs k))"

definition sign_inv ::
  "('k \<Rightarrow> 'a list) \<Rightarrow> (nat \<Rightarrow> ('k, 'a) authority option result) \<Rightarrow> 'k set \<Rightarrow> nat set \<Rightarrow> ('k, 'a) sign_state \<Rightarrow> bool" where
  "sign_inv addrs get_active S A s \<longleftrightarrow> available_keys s = [] \<and> fst ` set (provided_signatures s) \<subseteq> S \<and>
     (\<forall>a \<in> set (approved_by s). account_ok get_active S (sig_addresses addrs S) A a) \<and>
     (case provided_address_sigs s of None \<Rightarrow> available_address_sigs s = None
      | Some m \<Rightarrow> available_address_sigs s = Some [] \<and> (\<forall>(a, k) \<in> set m. k \<in> S \<and> a \<in> sig_addresses addrs S))"

lemma assoc_set_fst: "fst ` set (assoc_set k v m) \<subseteq> insert k (fst ` set m)"
  by (auto simp: assoc_set_def image_iff)

lemma assoc_set_elem: "x \<in> set (assoc_set k v m) \<Longrightarrow> x = (k, v) \<or> x \<in> set m"
  by (auto simp: assoc_set_def split: if_splits)

lemma address_map_elem:
  assumes "(a, k) \<in> set (address_map addrs ks)"
  shows "k \<in> set ks \<and> a \<in> set (addrs k)"
proof -
  have inner: "set (fold (\<lambda>a. assoc_set a k) as m) \<subseteq> set m \<union> set as \<times> {k}" for k as and m :: "('a \<times> 'b) list"
  proof (induction as arbitrary: m)
    case (Cons b bs)
    then show ?case using Cons.IH [of "assoc_set b k m"] by (auto dest!: assoc_set_elem)
  qed simp
  have "set (fold (\<lambda>k. fold (\<lambda>a. assoc_set a k) (addrs k)) ks m) \<subseteq> set m \<union> {(a, k). k \<in> set ks \<and> a \<in> set (addrs k)}" for m
  proof (induction ks arbitrary: m)
    case (Cons j js)
    show ?case using Cons.IH [of "fold (\<lambda>a. assoc_set a j) (addrs j) m"] inner [of j "addrs j" m] by auto
  qed simp
  from this [of "[]"] assms show ?thesis by (auto simp: address_map_def)
qed

lemma sign_inv_use:
  assumes "sign_inv addrs ga S A s" "k \<in> S"
  shows "sign_inv addrs ga S A (s\<lparr>provided_signatures := assoc_set k True (provided_signatures s)\<rparr>)"
  using assms assoc_set_fst [of k True "provided_signatures s"] unfolding sign_inv_def by (auto cong: option.case_cong)

lemma sign_inv_key: "sign_inv addrs ga S A s \<Longrightarrow> map_of (provided_signatures s) k = Some v \<Longrightarrow> k \<in> S"
  by (force simp: sign_inv_def dest: map_of_SomeD)

lemma keeps_signed_by_key:
  "keeps (sign_inv addrs ga S A) (signed_by_key k) (\<lambda>ok. ok \<longrightarrow> k \<in> S)"
  unfolding keeps_def
proof (intro allI impI)
  fix s :: "('a, 'b) sign_state"
  assume I: "sign_inv addrs ga S A s"
  show "sign_inv addrs ga S A (snd (signed_by_key k s)) \<and> (\<forall>ok. fst (signed_by_key k s) = Inr ok \<longrightarrow> ok \<longrightarrow> k \<in> S)"
  proof (cases "map_of (provided_signatures s) k")
    case None
    with I show ?thesis by (simp add: signed_by_key_def sign_inv_def)
  next
    case (Some v)
    from sign_inv_key [OF I Some] sign_inv_use [OF I] Some show ?thesis by (simp add: signed_by_key_def)
  qed
qed

lemma sign_inv_init:
  assumes "sign_inv addrs ga S A s"
  shows "sign_inv addrs ga S A (init_addresses addrs s)" "provided_address_sigs (init_addresses addrs s) \<noteq> None"
proof -
  have "k \<in> S \<and> a \<in> sig_addresses addrs S" if "(a, k) \<in> set (address_map addrs (map fst (provided_signatures s)))" for a k
    using address_map_elem [OF that] assms by (auto simp: sign_inv_def sig_addresses_def)
  moreover have "address_map addrs [] = []" by (simp add: address_map_def)
  ultimately show "sign_inv addrs ga S A (init_addresses addrs s)" "provided_address_sigs (init_addresses addrs s) \<noteq> None"
    using assms by (auto simp: sign_inv_def init_addresses_def split: option.splits)
qed

lemma keeps_signed_by_address:
  "keeps (sign_inv addrs ga S A) (signed_by_address addrs d) (\<lambda>ok. ok \<longrightarrow> d \<in> sig_addresses addrs S)"
  unfolding keeps_def
proof (intro allI impI)
  fix s0 assume "sign_inv addrs ga S A s0"
  from sign_inv_init [OF this] obtain m where I: "sign_inv addrs ga S A (init_addresses addrs s0)"
    and m: "provided_address_sigs (init_addresses addrs s0) = Some m" by auto
  then have av: "available_address_sigs (init_addresses addrs s0) = Some []"
    and el: "\<And>a k. (a, k) \<in> set m \<Longrightarrow> k \<in> S \<and> a \<in> sig_addresses addrs S" by (auto simp: sign_inv_def)
  show "sign_inv addrs ga S A (snd (signed_by_address addrs d s0)) \<and>
      (\<forall>ok. fst (signed_by_address addrs d s0) = Inr ok \<longrightarrow> ok \<longrightarrow> d \<in> sig_addresses addrs S)"
  proof (cases "map_of m d")
    case None
    with I m av show ?thesis by (simp add: signed_by_address_def Let_def)
  next
    case (Some k)
    with el map_of_SomeD [OF Some] sign_inv_use [OF I, of k] m show ?thesis by (simp add: signed_by_address_def Let_def)
  qed
qed

lemma keeps_check_members:
  assumes "\<And>a. keeps (sign_inv addrs ga S A) (check a) (\<lambda>ok. ok \<longrightarrow> account_ok ga S (sig_addresses addrs S) A a)"
  shows "keeps (sign_inv addrs ga S A) (check_members addrs check au)
    (\<lambda>ok. ok \<longrightarrow> (\<exists>auth. au = Some auth \<and> authority_ok ga S (sig_addresses addrs S) A auth))"
proof (cases au)
  case None
  then show ?thesis by (simp add: check_members_def keeps_ret)
next
  case (Some auth)
  let ?D = "sig_addresses addrs S" and ?th = "weight_threshold auth"
  let ?k = "weight_of (\<lambda>k. k \<in> S) (key_auths auth)" and ?d = "weight_of (\<lambda>d. d \<in> ?D) (address_auths auth)"
  have ok: "authority_ok ga S ?D A auth" if "?th \<le> t" "unat t \<le> ?k + ?d + weight_of (account_ok ga S ?D A) (account_auths auth)" for t
    using that by (simp add: authority_ok_def word_le_nat_alt)
  have w1: "keeps (sign_inv addrs ga S A) (weigh signed_by_key ?th (key_auths auth) 0)
      (\<lambda>(t, stop). unat t \<le> ?k \<and> (stop \<longrightarrow> ?th \<le> t))"
    using keeps_weigh [OF keeps_signed_by_key, where th = ?th and xs = "key_auths auth" and acc = 0] by simp
  have w2: "keeps (sign_inv addrs ga S A) (weigh (signed_by_address addrs) ?th (address_auths auth) t)
      (\<lambda>(t', stop). unat t' \<le> unat t + ?d \<and> (stop \<longrightarrow> ?th \<le> t'))" for t
    by (rule keeps_weigh [OF keeps_signed_by_address])
  have w3: "keeps (sign_inv addrs ga S A) (weigh check ?th (account_auths auth) t)
      (\<lambda>(t', stop). unat t' \<le> unat t + weight_of (account_ok ga S ?D A) (account_auths auth) \<and> (stop \<longrightarrow> ?th \<le> t'))" for t
    by (rule keeps_weigh [OF assms])
  let ?Q = "\<lambda>ok. ok \<longrightarrow> authority_ok ga S ?D A auth"
  have k3: "keeps (sign_inv addrs ga S A) (bindS (weigh check ?th (account_auths auth) t2)
      (\<lambda>(t3, done3). if done3 then retS True else retS (?th \<le> t3))) ?Q" if "unat t2 \<le> ?k + ?d" for t2
    by (rule keeps_bind [OF w3]) (use that ok in \<open>auto intro!: keeps_ret\<close>)
  have k2: "keeps (sign_inv addrs ga S A) (bindS (weigh (signed_by_address addrs) ?th (address_auths auth) t1)
      (\<lambda>(t2, done2). if done2 then retS True else bindS (weigh check ?th (account_auths auth) t2)
      (\<lambda>(t3, done3). if done3 then retS True else retS (?th \<le> t3)))) ?Q" if "unat t1 \<le> ?k" for t1
    by (rule keeps_bind [OF w2]) (use that ok in \<open>auto intro!: keeps_ret keeps_weaken [OF k3]\<close>)
  show ?thesis unfolding check_members_def Some option.case
    by (rule keeps_bind [OF w1]) (use ok in \<open>auto intro!: keeps_ret keeps_weaken [OF k2]\<close>)
qed

lemma keeps_check_authority:
  "keeps (sign_inv addrs ga S A) (check_authority addrs ga n au)
    (\<lambda>ok. ok \<longrightarrow> (\<exists>auth. au = Some auth \<and> authority_ok ga S (sig_addresses addrs S) A auth))"
proof (induction n arbitrary: au)
  case 0
  show ?case unfolding check_authority.simps
    by (rule keeps_check_members) (auto simp: keeps_def sign_inv_def)
next
  case (Suc n)
  let ?I = "sign_inv addrs ga S A" and ?ok = "account_ok ga S (sig_addresses addrs S) A"
  have add: "?I (s\<lparr>approved_by := insort_insert a (approved_by s)\<rparr>)" if "?I s" "?ok a" for s a
    using that by (auto simp: sign_inv_def cong: option.case_cong)
  have rec: "keeps ?I (bindS (liftS (ga a)) (\<lambda>au. bindS (check_authority addrs ga n au) (\<lambda>ok.
      if ok then (\<lambda>s. (Inr True, s\<lparr>approved_by := insort_insert a (approved_by s)\<rparr>)) else retS False))) (\<lambda>ok. ok \<longrightarrow> ?ok a)" for a
  proof (rule keeps_bind [OF keeps_lift [where Q = "\<lambda>au. ga a = Inr au"]])
    fix au assume au: "ga a = Inr au"
    show "keeps ?I (bindS (check_authority addrs ga n au) (\<lambda>ok. if ok then (\<lambda>s. (Inr True, s\<lparr>approved_by := insort_insert a (approved_by s)\<rparr>))
        else retS False)) (\<lambda>ok. ok \<longrightarrow> ?ok a)"
    proof (rule keeps_bind [OF Suc.IH])
      fix ok assume "ok \<longrightarrow> (\<exists>auth. au = Some auth \<and> authority_ok ga S (sig_addresses addrs S) A auth)"
      with au authority_ok_account have "ok \<longrightarrow> ?ok a" by blast
      then show "keeps ?I (if ok then (\<lambda>s. (Inr True, s\<lparr>approved_by := insort_insert a (approved_by s)\<rparr>)) else retS False) (\<lambda>ok. ok \<longrightarrow> ?ok a)"
        using add by (auto simp: keeps_def retS_def)
    qed
  qed simp
  have appr: "keeps ?I (\<lambda>s. if a \<in> set (approved_by s) then (Inr True, s) else m s) (\<lambda>ok. ok \<longrightarrow> ?ok a)"
    if "keeps ?I m (\<lambda>ok. ok \<longrightarrow> ?ok a)" for a m
  proof -
    have "?ok a" if "?I s" "a \<in> set (approved_by s)" for s using that by (simp add: sign_inv_def)
    with that show ?thesis by (simp add: keeps_def)
  qed
  show ?case unfolding check_authority.simps by (rule keeps_check_members) (rule appr [OF rec])
qed

lemma keeps_check_top:
  "keeps (sign_inv addrs ga S A) (check_top addrs ga au)
    (\<lambda>ok. ok \<longrightarrow> (\<exists>auth. au = Some auth \<and> authority_ok ga S (sig_addresses addrs S) A auth))"
  using keeps_check_authority [of addrs ga S A] by (simp add: keeps_def check_top_def)

lemma keeps_check_account:
  "keeps (sign_inv addrs ga S A) (check_account_authority addrs ga a)
    (\<lambda>ok. ok \<longrightarrow> account_ok ga S (sig_addresses addrs S) A a)"
proof -
  let ?I = "sign_inv addrs ga S A"
  have rec: "keeps ?I (bindS (liftS (ga a)) (check_authority addrs ga n)) (\<lambda>ok. ok \<longrightarrow> account_ok ga S (sig_addresses addrs S) A a)" for n
    by (rule keeps_bind [OF keeps_lift [where Q = "\<lambda>au. ga a = Inr au"]])
      (auto intro!: keeps_weaken [OF keeps_check_authority] dest: authority_ok_account)
  have "account_ok ga S (sig_addresses addrs S) A a" if "?I s" "a \<in> set (approved_by s)" for s using that by (simp add: sign_inv_def)
  with rec show ?thesis by (simp add: keeps_def check_account_authority_def)
qed

definition owner_ok ::
  "(nat \<Rightarrow> ('k, 'a) authority option result) \<Rightarrow> (nat \<Rightarrow> ('k, 'a) authority option result) \<Rightarrow> 'k set \<Rightarrow> 'a set \<Rightarrow> nat set \<Rightarrow> nat \<Rightarrow> bool" where
  "owner_ok get_active get_owner S D A a \<longleftrightarrow> (\<exists>au. get_owner a = Inr (Some au) \<and> authority_ok get_active S D A au)"

lemma keeps_owner:
  "keeps (sign_inv addrs ga S A) (bindS (liftS (go a)) (check_top addrs ga)) (\<lambda>ok. ok \<longrightarrow> owner_ok ga go S (sig_addresses addrs S) A a)"
  by (rule keeps_bind [OF keeps_lift [where Q = "\<lambda>au. go a = Inr au"]])
    (auto intro!: keeps_weaken [OF keeps_check_top] simp: owner_ok_def)

lemma keeps_require: "keeps I m (\<lambda>ok. ok \<longrightarrow> P) \<Longrightarrow> keeps I (requireS m e) (\<lambda>_. P)"
  unfolding requireS_def by (erule keeps_bind) (auto intro: keeps_rules)

definition required_ok where
  "required_ok get_active get_owner S D A own = (\<lambda>(required_active, required_owner, other).
     (\<forall>au \<in> set other. authority_ok get_active S D A au) \<and>
     (\<forall>a \<in> set required_active. account_ok get_active S D A a \<or> owner_ok get_active get_owner S D A a) \<and>
     (\<forall>a \<in> set required_owner. a \<in> set own \<or> owner_ok get_active get_owner S D A a))"

lemma keeps_check_active:
  "keeps (sign_inv addrs ga S A) (check_active addrs ga go a)
    (\<lambda>ok. ok \<longrightarrow> account_ok ga S (sig_addresses addrs S) A a \<or> owner_ok ga go S (sig_addresses addrs S) A a)"
  unfolding check_active_def
  by (rule keeps_bind [OF keeps_check_account]) (auto intro!: keeps_ret keeps_weaken [OF keeps_owner])

lemma keeps_check_owner:
  "keeps (sign_inv addrs ga S A) (check_owner addrs ga go own a)
    (\<lambda>ok. ok \<longrightarrow> a \<in> set own \<or> owner_ok ga go S (sig_addresses addrs S) A a)"
  unfolding check_owner_def by (auto intro!: keeps_ret keeps_weaken [OF keeps_owner])

lemma check_required_sound:
  assumes "sign_inv addrs ga S A s" "fst (check_required addrs ga go allow own req s) = Inr ()"
  shows "required_ok ga go S (sig_addresses addrs S) A own req"
proof -
  obtain ra ro oth where req: "req = (ra, ro, oth)" by (cases req)
  let ?I = "sign_inv addrs ga S A" and ?D = "sig_addresses addrs S"
  have "keeps ?I (check_required addrs ga go allow own req) (\<lambda>_. required_ok ga go S ?D A own req)"
    unfolding check_required_def req prod.case
  proof (rule keeps_bind [OF keeps_for [where P = "authority_ok ga S ?D A"]])
    fix au assume "au \<in> set oth"
    show "keeps ?I (requireS (check_top addrs ga (Some au)) Tx_missing_other_auth) (\<lambda>_. authority_ok ga S ?D A au)"
      by (rule keeps_require [OF keeps_weaken [OF keeps_check_top]]) simp
  next
    fix u :: unit
    assume o: "\<forall>au \<in> set oth. authority_ok ga S ?D A au"
    show "keeps ?I (bindS (forS (\<lambda>a. requireS (check_active addrs ga go a) (missing_auth [ga a, go a] Tx_missing_active_auth)) ra) (\<lambda>_.
        bindS (forS (\<lambda>a. requireS (check_owner addrs ga go own a) (missing_auth [go a] Tx_missing_owner_auth)) ro) (\<lambda>_.
        (\<lambda>s. let (s', n) = remove_unused_signatures s in
          if \<not> (n \<le> 5 \<or> allow) then (Inl Tx_irrelevant_sig, s') else (Inr (), s'))))) (\<lambda>_. required_ok ga go S ?D A own (ra, ro, oth))"
    proof (rule keeps_bind [OF keeps_for [OF keeps_require [OF keeps_check_active]]])
      fix u :: unit
      assume a: "\<forall>a \<in> set ra. account_ok ga S ?D A a \<or> owner_ok ga go S ?D A a"
      have un: "keeps ?I (\<lambda>s. let (s', n) = remove_unused_signatures s in
          if \<not> (n \<le> 5 \<or> allow) then (Inl Tx_irrelevant_sig, s') else (Inr (), s')) (\<lambda>_. True)"
        by (auto simp: keeps_def remove_unused_signatures_def sign_inv_def image_subset_iff cong: option.case_cong)
      show "keeps ?I (bindS (forS (\<lambda>a. requireS (check_owner addrs ga go own a) (missing_auth [go a] Tx_missing_owner_auth)) ro) (\<lambda>_.
        (\<lambda>s. let (s', n) = remove_unused_signatures s in
          if \<not> (n \<le> 5 \<or> allow) then (Inl Tx_irrelevant_sig, s') else (Inr (), s')))) (\<lambda>_. required_ok ga go S ?D A own (ra, ro, oth))"
        by (rule keeps_bind [OF keeps_for [OF keeps_require [OF keeps_check_owner]]], rule keeps_weaken [OF un])
          (use o a in \<open>simp add: required_ok_def\<close>)
    qed
  qed
  with assms show ?thesis by (simp add: keeps_def)
qed

lemma fold_insert_set: "set (fold insort_insert xs ys) = set xs \<union> set ys"
  by (induction xs arbitrary: ys) (auto simp: set_insort_insert)

lemma sign_inv_start:
  "sign_inv addrs ga (set sigs) (insert GRAPHENE_TEMP_ACCOUNT (set act \<union> set own))
    ((new_sign_state sigs [] m)\<lparr>approved_by := fold insort_insert own (fold insort_insert act [GRAPHENE_TEMP_ACCOUNT])\<rparr>)"
  by (auto simp: sign_inv_def new_sign_state_def fold_insert_set intro: account_ok.approved)

lemma verify_authority_ok:
  assumes "verify_authority addrs ops sigs ga go m allow act own = Inr ()"
  defines "D \<equiv> sig_addresses addrs (set sigs)" and "A \<equiv> insert GRAPHENE_TEMP_ACCOUNT (set act \<union> set own)"
  shows "(allow \<and> account_ok ga (set sigs) D A GRAPHENE_COMMITTEE_ACCOUNT) \<or>
    required_ok ga go (set sigs) D A own (get_required_authorities ops) \<and>
    (allow \<or> GRAPHENE_COMMITTEE_ACCOUNT \<notin> set (fst (get_required_authorities ops)))"
proof -
  let ?s = "(new_sign_state sigs [] m)\<lparr>approved_by := fold insort_insert own (fold insort_insert act [GRAPHENE_TEMP_ACCOUNT])\<rparr>"
  let ?I = "sign_inv addrs ga (set sigs) A"
  have st: "approved_by (new_sign_state sigs [] m) = [GRAPHENE_TEMP_ACCOUNT]" by (simp add: new_sign_state_def)
  have I: "?I ?s" unfolding A_def by (rule sign_inv_start)
  show ?thesis
  proof (cases allow)
    case False
    with assms(1) check_required_sound [OF I, of go False own "get_required_authorities ops"] show ?thesis unfolding D_def
      by (auto simp: verify_authority_def Let_def st split: if_splits)
  next
    case True
    let ?c = "check_account_authority addrs ga GRAPHENE_COMMITTEE_ACCOUNT ?s"
    have k: "?I (snd ?c)" "fst ?c = Inr True \<Longrightarrow> account_ok ga (set sigs) D A GRAPHENE_COMMITTEE_ACCOUNT"
      using keeps_check_account [of addrs ga "set sigs" A GRAPHENE_COMMITTEE_ACCOUNT] I by (auto simp: keeps_def D_def)
    have v: "fst (bindS (try_committee addrs ga) (\<lambda>ok. if ok then retS () else
        check_required addrs ga go allow own (get_required_authorities ops)) ?s) = Inr ()"
      using assms(1) True unfolding verify_authority_def Let_def st by (simp only: not_True_eq_False if_False)
    show ?thesis
    proof (cases "fst ?c = Inr True")
      case False
      with v have "fst (check_required addrs ga go allow own (get_required_authorities ops) (snd ?c)) = Inr ()"
        by (cases ?c) (auto simp: try_committee_def bindS_def retS_def split: sum.splits chain_error.splits)
      from check_required_sound [OF k(1) this] True show ?thesis unfolding D_def by simp
    qed (use k True in simp)
  qed
qed

section \<open>The check is complete up to the recursion limit\<close>

lemma returns_weigh:
  assumes "\<And>x. x \<in> fst ` set xs \<Longrightarrow> returns J (f x) (\<lambda>ok. P x \<longrightarrow> ok)" "unat acc + weight_of (\<lambda>_. True) xs < 2 ^ 32"
  shows "returns J (weigh f th xs acc) (\<lambda>(t, stop). stop \<or>
    unat acc + weight_of P xs \<le> unat t \<and> unat t \<le> unat acc + weight_of (\<lambda>_. True) xs)"
  using assms
proof (induction xs arbitrary: acc)
  case Nil
  show ?case by (simp add: returns_ret)
next
  case (Cons y ys)
  obtain x w where y: "y = (x, w)" by (cases y)
  have u: "unat (ucast w :: 32 word) = unat w"
    using unsigned_less [of w, where ?'a = nat] by (simp add: unsigned_ucast_eq take_bit_nat_eq_self)
  let ?t = "acc + ucast w"
  have t: "unat ?t = unat acc + unat w" using Cons.prems(2) u y by (simp add: unat_word_ariths)
  have ih: "returns J (weigh f th ys a) (\<lambda>(t, stop). stop \<or> unat a + weight_of P ys \<le> unat t \<and> unat t \<le> unat a + weight_of (\<lambda>_. True) ys)"
    if "unat a \<le> unat acc + unat w" for a
    by (rule Cons.IH) (use Cons.prems that y in auto)
  have "returns J (f x) (\<lambda>ok. P x \<longrightarrow> ok)" using Cons.prems(1) y by simp
  then show ?case unfolding y weigh.simps
  proof (rule returns_bind)
    fix ok assume ok: "P x \<longrightarrow> ok"
    show "returns J (if ok then let t = ?t in if th \<le> t then retS (t, True) else weigh f th ys t else weigh f th ys acc)
        (\<lambda>(t, stop). stop \<or> unat acc + weight_of P ((x, w) # ys) \<le> unat t \<and> unat t \<le> unat acc + weight_of (\<lambda>_. True) ((x, w) # ys))"
      using ok t by (auto simp: Let_def intro!: returns_ret returns_weaken [OF ih [of ?t]] returns_weaken [OF ih [of acc]])
  qed
qed

text \<open>Approval within a number of levels, as a function of the signed keys alone.\<close>

primrec within :: "(nat \<Rightarrow> ('k, 'a) authority option result) \<Rightarrow> 'k set \<Rightarrow> nat set \<Rightarrow> nat \<Rightarrow> ('k, 'a) authority \<Rightarrow> bool" where
  "within get_active S A 0 au \<longleftrightarrow> unat (weight_threshold au) \<le>
     weight_of (\<lambda>k. k \<in> S) (key_auths au) + weight_of (\<lambda>a. a \<in> A) (account_auths au)"
| "within get_active S A (Suc n) au \<longleftrightarrow> unat (weight_threshold au) \<le>
     weight_of (\<lambda>k. k \<in> S) (key_auths au) +
     weight_of (\<lambda>a. a \<in> A \<or> (case get_active a of Inr (Some au') \<Rightarrow> within get_active S A n au' | _ \<Rightarrow> False)) (account_auths au)"

definition plain_authority :: "('k, 'a) authority \<Rightarrow> bool" where
  "plain_authority au \<longleftrightarrow> address_auths au = [] \<and>
     weight_of (\<lambda>_. True) (key_auths au) + weight_of (\<lambda>_. True) (account_auths au) < 2 ^ 32"

definition plain_accounts :: "(nat \<Rightarrow> ('k, 'a) authority option result) \<Rightarrow> bool" where
  "plain_accounts get_active \<longleftrightarrow> (\<forall>a. \<exists>r. get_active a = Inr r \<and> (\<forall>au. r = Some au \<longrightarrow> plain_authority au))"

definition sign_holds :: "'k set \<Rightarrow> nat set \<Rightarrow> 32 word \<Rightarrow> nat \<Rightarrow> ('k, 'a) sign_state \<Rightarrow> bool" where
  "sign_holds S A m N s \<longleftrightarrow> available_keys s = [] \<and> fst ` set (provided_signatures s) = S \<and> A \<subseteq> set (approved_by s) \<and> max_recursion s = m \<and>
     length (provided_signatures s) \<le> N"

lemma assoc_set_keys:
  assumes k: "k \<in> fst ` set m"
  shows "fst ` set (assoc_set k v m) = fst ` set m" "length (assoc_set k v m) = length m"
proof -
  have *: "assoc_set k v m = map (\<lambda>x. if fst x = k then (k, v) else x) m"
    using k by (simp add: assoc_set_def map_of_eq_None_iff)
  have "map fst (map (\<lambda>x. if fst x = k then (k, v) else x) m) = map fst m" by (simp cong: if_cong)
  then have "set (map fst (assoc_set k v m)) = set (map fst m)" unfolding * by (rule arg_cong)
  then show "fst ` set (assoc_set k v m) = fst ` set m" by simp
  show "length (assoc_set k v m) = length m" by (simp add: *)
qed

lemma returns_signed_by_key: "returns (sign_holds S A m N) (signed_by_key k) (\<lambda>ok. k \<in> S \<longrightarrow> ok)"
  unfolding returns_def
proof (intro allI impI)
  fix s :: "('a, 'b) sign_state" assume J: "sign_holds S A m N s"
  show "\<exists>ok s'. signed_by_key k s = (Inr ok, s') \<and> sign_holds S A m N s' \<and> (k \<in> S \<longrightarrow> ok)"
  proof (cases "k \<in> S")
    case True
    then have k: "k \<in> fst ` set (provided_signatures s)" using J by (simp add: sign_holds_def)
    with True J assoc_set_keys [OF k] show ?thesis by (auto simp: signed_by_key_def sign_holds_def map_of_eq_None_iff)
  next
    case False
    with J show ?thesis by (auto simp: signed_by_key_def sign_holds_def map_of_eq_None_iff)
  qed
qed

lemma returns_check_members:
  assumes "\<And>a. returns (sign_holds S A m N) (check a) (\<lambda>ok. P a \<longrightarrow> ok)" "plain_authority au"
  shows "returns (sign_holds S A m N) (check_members addrs check (Some au))
    (\<lambda>ok. unat (weight_threshold au) \<le> weight_of (\<lambda>k. k \<in> S) (key_auths au) + weight_of P (account_auths au) \<longrightarrow> ok)"
proof -
  let ?th = "weight_threshold au" and ?J = "sign_holds S A m N"
  let ?k = "weight_of (\<lambda>k. k \<in> S) (key_auths au)" and ?kt = "weight_of (\<lambda>_. True) (key_auths au)"
  have pl: "address_auths au = []" "?kt + weight_of (\<lambda>_. True) (account_auths au) < 2 ^ 32" using assms(2) by (auto simp: plain_authority_def)
  have w1: "returns ?J (weigh signed_by_key ?th (key_auths au) 0) (\<lambda>(t, stop). stop \<or> ?k \<le> unat t \<and> unat t \<le> ?kt)"
    using returns_weigh [OF returns_signed_by_key, where th = ?th and xs = "key_auths au" and acc = 0] pl by simp
  have w3: "returns ?J (weigh check ?th (account_auths au) t) (\<lambda>(t', stop). stop \<or> unat t + weight_of P (account_auths au) \<le> unat t')"
    if "unat t \<le> ?kt" for t
    by (rule returns_weaken [OF returns_weigh [OF assms(1)]]) (use that pl in auto)
  show ?thesis unfolding check_members_def option.case pl(1) weigh.simps
  proof (rule returns_bind [OF w1])
    fix p :: "32 word \<times> bool" assume p: "case p of (t, stop) \<Rightarrow> stop \<or> ?k \<le> unat t \<and> unat t \<le> ?kt"
    obtain t1 d1 where [simp]: "p = (t1, d1)" by (cases p)
    show "returns ?J (case p of (t1, done1) \<Rightarrow> if done1 then retS True else bindS (retS (t1, False)) (\<lambda>(t2, done2).
        if done2 then retS True else bindS (weigh check ?th (account_auths au) t2) (\<lambda>(t3, done3).
        if done3 then retS True else retS (?th \<le> t3)))) (\<lambda>ok. unat ?th \<le> ?k + weight_of P (account_auths au) \<longrightarrow> ok)"
    proof (cases d1)
      case True
      then show ?thesis by (simp add: returns_ret)
    next
      case False
      with p have t1: "?k \<le> unat t1" "unat t1 \<le> ?kt" by auto
      have "bindS (retS (t1, False)) f = f (t1, False)" for f :: "32 word \<times> bool \<Rightarrow> (('a, 'b) sign_state, bool) stateful"
        by (simp add: bindS_def retS_def)
      with False show ?thesis
        by (auto intro!: returns_bind [OF w3 [OF t1(2)]] returns_ret simp: word_le_nat_alt) (use t1 in linarith)
    qed
  qed
qed

lemma returns_check_authority:
  assumes "plain_accounts ga" "plain_authority au"
  shows "returns (sign_holds S A m N) (check_authority addrs ga n (Some au)) (\<lambda>ok. within ga S A n au \<longrightarrow> ok)"
  using assms(2)
proof (induction n arbitrary: au)
  case 0
  show ?case unfolding check_authority.simps within.simps
    by (rule returns_check_members [OF _ 0]) (auto simp: returns_def sign_holds_def)
next
  case (Suc n)
  let ?J = "sign_holds S A m N" and ?P = "\<lambda>a. a \<in> A \<or> (case ga a of Inr (Some au') \<Rightarrow> within ga S A n au' | _ \<Rightarrow> False)"
  have add: "?J (s\<lparr>approved_by := insort_insert a (approved_by s)\<rparr>)" if "?J s" for s a using that by (auto simp: sign_holds_def)
  have none: "check_authority addrs ga n None = retS False" by (cases n) (simp_all add: check_members_def)
  show ?case unfolding check_authority.simps within.simps
  proof (rule returns_check_members [OF _ Suc.prems])
    fix a
    let ?m = "bindS (liftS (ga a)) (\<lambda>au. bindS (check_authority addrs ga n au) (\<lambda>ok.
      if ok then (\<lambda>s. (Inr True, s\<lparr>approved_by := insort_insert a (approved_by s)\<rparr>)) else retS False))"
    obtain r where r: "ga a = Inr r" "\<And>au. r = Some au \<Longrightarrow> plain_authority au" using assms(1) by (auto simp: plain_accounts_def)
    have "returns ?J (check_authority addrs ga n r) (\<lambda>ok. (\<exists>au. r = Some au \<and> within ga S A n au) \<longrightarrow> ok)"
    proof (cases r)
      case (Some au)
      with Suc.IH [OF r(2) [OF Some]] show ?thesis by simp
    qed (simp add: none returns_ret)
    then have "returns ?J (bindS (check_authority addrs ga n r) (\<lambda>ok.
        if ok then (\<lambda>s. (Inr True, s\<lparr>approved_by := insort_insert a (approved_by s)\<rparr>)) else retS False))
        (\<lambda>ok. (\<exists>au. r = Some au \<and> within ga S A n au) \<longrightarrow> ok)"
      by (rule returns_bind) (auto simp: returns_def retS_def add)
    then have "returns ?J ?m (\<lambda>ok. (\<exists>au. r = Some au \<and> within ga S A n au) \<longrightarrow> ok)"
      by (intro returns_bind [OF returns_lift [OF r(1), of "\<lambda>x. x = r"]]) auto
    then have *: "returns ?J ?m (\<lambda>ok. (case ga a of Inr (Some au') \<Rightarrow> within ga S A n au' | _ \<Rightarrow> False) \<longrightarrow> ok)"
      by (rule returns_weaken) (use r(1) in \<open>auto split: option.splits\<close>)
    show "returns ?J (\<lambda>s. if a \<in> set (approved_by s) then (Inr True, s) else ?m s) (\<lambda>ok. ?P a \<longrightarrow> ok)"
      unfolding returns_def
    proof (intro allI impI)
      fix s :: "('a, 'b) sign_state" assume J: "?J s"
      show "\<exists>ok s'. (if a \<in> set (approved_by s) then (Inr True, s) else ?m s) = (Inr ok, s') \<and> ?J s' \<and> (?P a \<longrightarrow> ok)"
      proof (cases "a \<in> set (approved_by s)")
        case True
        with J show ?thesis by auto
      next
        case False
        then have "a \<notin> A" using J by (auto simp: sign_holds_def)
        from * J obtain ok s' where "?m s = (Inr ok, s')" "?J s'" "(case ga a of Inr (Some au') \<Rightarrow> within ga S A n au' | _ \<Rightarrow> False) \<longrightarrow> ok"
          unfolding returns_def by blast
        with False \<open>a \<notin> A\<close> show ?thesis by simp
      qed
    qed
  qed
qed

lemma returns_check_top:
  assumes "plain_accounts ga" "plain_authority au"
  shows "returns (sign_holds S A m N) (check_top addrs ga (Some au)) (\<lambda>ok. within ga S A (unat m) au \<longrightarrow> ok)"
  using returns_check_authority [OF assms, of S A m N addrs "unat m"] by (simp add: returns_def check_top_def sign_holds_def)

definition account_within where
  "account_within get_auth get_active S A n a \<longleftrightarrow> (\<exists>au. get_auth a = Inr (Some au) \<and> within get_active S A n au)"

lemma returns_auth:
  assumes "plain_accounts ga" "plain_accounts gx"
  shows "returns (sign_holds S A m N) (bindS (liftS (gx a)) (check_top addrs ga)) (\<lambda>ok. account_within gx ga S A (unat m) a \<longrightarrow> ok)"
proof -
  obtain r where r: "gx a = Inr r" "\<And>au. r = Some au \<Longrightarrow> plain_authority au" using assms(2) by (auto simp: plain_accounts_def)
  have none: "check_top addrs ga None = retS False"
  proof
    fix s :: "('a, 'b) sign_state"
    show "check_top addrs ga None s = retS False s" by (cases "unat (max_recursion s)") (simp_all add: check_top_def check_members_def)
  qed
  have "returns (sign_holds S A m N) (check_top addrs ga r) (\<lambda>ok. account_within gx ga S A (unat m) a \<longrightarrow> ok)"
  proof (cases r)
    case None
    with r show ?thesis by (simp add: none returns_ret account_within_def)
  next
    case (Some au)
    with returns_check_top [OF assms(1) r(2) [OF Some]] r show ?thesis by (simp add: account_within_def)
  qed
  then show ?thesis by (intro returns_bind [OF returns_lift [OF r(1), of "\<lambda>x. x = r"]]) auto
qed

lemma returns_check_account:
  assumes "plain_accounts ga"
  shows "returns (sign_holds S A m N) (check_account_authority addrs ga a) (\<lambda>ok. a \<in> A \<or> account_within ga ga S A (unat m) a \<longrightarrow> ok)"
  unfolding returns_def
proof (intro allI impI)
  fix s :: "('a, 'b) sign_state" assume J: "sign_holds S A m N s"
  have e: "bindS (liftS (ga a)) (check_authority addrs ga (unat (max_recursion s))) s = bindS (liftS (ga a)) (check_top addrs ga) s"
    by (auto simp: bindS_def liftS_def check_top_def split: sum.splits)
  from returns_auth [OF assms assms, of S A m N a addrs] J obtain ok s' where
    "bindS (liftS (ga a)) (check_top addrs ga) s = (Inr ok, s')" "sign_holds S A m N s'" "account_within ga ga S A (unat m) a \<longrightarrow> ok"
    unfolding returns_def by blast
  with J e show "\<exists>ok s'. check_account_authority addrs ga a s = (Inr ok, s') \<and> sign_holds S A m N s' \<and>
      (a \<in> A \<or> account_within ga ga S A (unat m) a \<longrightarrow> ok)"
    by (cases "a \<in> set (approved_by s)") (auto simp: check_account_authority_def sign_holds_def)
qed

lemma returns_require: "returns J m (\<lambda>ok. P \<longrightarrow> ok) \<Longrightarrow> P \<Longrightarrow> returns J (requireS m e) (\<lambda>_. True)"
  unfolding requireS_def by (erule returns_bind) (auto intro: returns_ret)

text \<open>What suffices for each required authority, within the recursion limit.\<close>

definition required_within where
  "required_within get_active get_owner S A own n = (\<lambda>(required_active, required_owner, other).
     (\<forall>au \<in> set other. plain_authority au \<and> within get_active S A n au) \<and>
     (\<forall>a \<in> set required_active. a \<in> A \<or> account_within get_active get_active S A n a \<or> account_within get_owner get_active S A n a) \<and>
     (\<forall>a \<in> set required_owner. a \<in> set own \<or> account_within get_owner get_active S A n a))"

text \<open>The three loops over the required authorities, and the number of signatures that no lookup of theirs used.\<close>

definition check_loops where
  "check_loops addrs get_active get_owner owner_approvals = (\<lambda>(required_active, required_owner, other).
     bindS (forS (\<lambda>auth. requireS (check_top addrs get_active (Some auth)) Tx_missing_other_auth) other) (\<lambda>_.
     bindS (forS (\<lambda>a. requireS (check_active addrs get_active get_owner a)
              (missing_auth [get_active a, get_owner a] Tx_missing_active_auth)) required_active) (\<lambda>_.
     forS (\<lambda>a. requireS (check_owner addrs get_active get_owner owner_approvals a)
              (missing_auth [get_owner a] Tx_missing_owner_auth)) required_owner)))"

definition unused_signatures where
  "unused_signatures addrs ops sigs get_active get_owner depth active_approvals owner_approvals =
     (let s0 = new_sign_state sigs [] depth;
          s = s0\<lparr>approved_by := fold insort_insert owner_approvals (fold insort_insert active_approvals (approved_by s0))\<rparr>
      in length (filter (\<lambda>x. \<not> snd x) (provided_signatures
           (snd (check_loops addrs get_active get_owner owner_approvals (get_required_authorities ops) s)))))"

lemma check_required_loops:
  "check_required addrs ga go allow own req s = (case check_loops addrs ga go own req s of
     (Inl e, s') \<Rightarrow> (Inl e, s')
   | (Inr _, s') \<Rightarrow> (if allow \<or> length (filter (\<lambda>x. \<not> snd x) (provided_signatures s')) \<le> 5
       then (Inr (), fst (remove_unused_signatures s')) else (Inl Tx_irrelevant_sig, fst (remove_unused_signatures s'))))"
  by (auto simp: check_required_def check_loops_def bindS_def remove_unused_signatures_def split: prod.splits sum.splits)

lemma check_loops_complete:
  assumes "plain_accounts ga" "plain_accounts go" "required_within ga go S A own (unat m) req" "sign_holds S A m N s"
  shows "\<exists>s'. check_loops addrs ga go own req s = (Inr (), s') \<and> sign_holds S A m N s'"
proof -
  obtain ra ro oth where req: "req = (ra, ro, oth)" by (cases req)
  let ?J = "sign_holds S A m N"
  have ac: "returns ?J (check_active addrs ga go a) (\<lambda>ok. a \<in> A \<or> account_within ga ga S A (unat m) a \<or> account_within go ga S A (unat m) a \<longrightarrow> ok)" for a
    unfolding check_active_def
  proof (rule returns_bind [OF returns_check_account [OF assms(1)]])
    fix ok assume ok: "a \<in> A \<or> account_within ga ga S A (unat m) a \<longrightarrow> ok"
    show "returns ?J (if ok then retS True else bindS (liftS (go a)) (check_top addrs ga))
        (\<lambda>ok. a \<in> A \<or> account_within ga ga S A (unat m) a \<or> account_within go ga S A (unat m) a \<longrightarrow> ok)"
    proof (cases ok)
      case False
      with ok show ?thesis using returns_weaken [OF returns_auth [OF assms(1,2)]] by simp
    qed (simp add: returns_ret)
  qed
  have ow: "returns ?J (check_owner addrs ga go own a) (\<lambda>ok. a \<in> set own \<or> account_within go ga S A (unat m) a \<longrightarrow> ok)" for a
    using returns_auth [OF assms(1,2), of S A m N a addrs] by (simp add: check_owner_def returns_ret)
  have f1: "returns ?J (forS (\<lambda>auth. requireS (check_top addrs ga (Some auth)) Tx_missing_other_auth) oth) (\<lambda>_. True)"
    by (rule returns_for) (use assms(1,3) in \<open>auto simp: required_within_def req intro!: returns_require [OF returns_check_top]\<close>)
  have f2: "returns ?J (forS (\<lambda>a. requireS (check_active addrs ga go a) (missing_auth [ga a, go a] Tx_missing_active_auth)) ra) (\<lambda>_. True)"
    by (rule returns_for) (use assms(3) in \<open>auto simp: required_within_def req intro!: returns_require [OF ac]\<close>)
  have f3: "returns ?J (forS (\<lambda>a. requireS (check_owner addrs ga go own a) (missing_auth [go a] Tx_missing_owner_auth)) ro) (\<lambda>_. True)"
    by (rule returns_for) (use assms(3) in \<open>auto simp: required_within_def req intro!: returns_require [OF ow]\<close>)
  have "returns ?J (check_loops addrs ga go own req) (\<lambda>_. True)"
    unfolding check_loops_def req prod.case by (intro returns_bind [OF f1] returns_bind [OF f2] f3)
  from returns_unit [OF this assms(4)] show ?thesis by blast
qed

lemma sign_holds_start:
  "sign_holds (set sigs) (insert GRAPHENE_TEMP_ACCOUNT (set act \<union> set own)) m (length sigs)
    ((new_sign_state sigs [] m)\<lparr>approved_by := fold insort_insert own (fold insort_insert act [GRAPHENE_TEMP_ACCOUNT])\<rparr>)"
  by (auto simp: sign_holds_def new_sign_state_def fold_insert_set image_image)

lemma verify_authority_returns:
  assumes "plain_accounts ga" "plain_accounts go"
    and req: "required_within ga go (set sigs) (insert GRAPHENE_TEMP_ACCOUNT (set act \<union> set own)) own (unat m) (get_required_authorities ops)"
  shows "verify_authority addrs ops sigs ga go m allow act own =
      (if allow then Inr ()
       else if GRAPHENE_COMMITTEE_ACCOUNT \<in> set (fst (get_required_authorities ops)) then Inl Invalid_committee_approval
       else if unused_signatures addrs ops sigs ga go m act own \<le> 5 then Inr () else Inl Tx_irrelevant_sig)"
    "unused_signatures addrs ops sigs ga go m act own \<le> length sigs"
proof -
  let ?s = "(new_sign_state sigs [] m)\<lparr>approved_by := fold insort_insert own (fold insort_insert act [GRAPHENE_TEMP_ACCOUNT])\<rparr>"
  let ?J = "sign_holds (set sigs) (insert GRAPHENE_TEMP_ACCOUNT (set act \<union> set own)) m (length sigs)"
  have st: "approved_by (new_sign_state sigs [] m) = [GRAPHENE_TEMP_ACCOUNT]" by (simp add: new_sign_state_def)
  have J: "?J ?s" by (rule sign_holds_start)
  note chk = check_loops_complete [OF assms(1,2) req, where addrs = addrs]
  from chk [OF J] obtain t where t: "check_loops addrs ga go own (get_required_authorities ops) ?s = (Inr (), t)" "?J t" by blast
  then have u: "unused_signatures addrs ops sigs ga go m act own = length (filter (\<lambda>x. \<not> snd x) (provided_signatures t))"
    by (simp add: unused_signatures_def Let_def st)
  then show "unused_signatures addrs ops sigs ga go m act own \<le> length sigs"
    using t(2) by (auto simp: sign_holds_def intro: order_trans [OF length_filter_le])
  show "verify_authority addrs ops sigs ga go m allow act own =
      (if allow then Inr ()
       else if GRAPHENE_COMMITTEE_ACCOUNT \<in> set (fst (get_required_authorities ops)) then Inl Invalid_committee_approval
       else if unused_signatures addrs ops sigs ga go m act own \<le> 5 then Inr () else Inl Tx_irrelevant_sig)"
  proof (cases allow)
    case False
    then show ?thesis using t(1) by (simp add: verify_authority_def Let_def st check_required_loops u)
  next
    case True
    from returns_check_account [OF assms(1), of _ _ m _ addrs GRAPHENE_COMMITTEE_ACCOUNT] J obtain ok s' where
      c: "check_account_authority addrs ga GRAPHENE_COMMITTEE_ACCOUNT ?s = (Inr ok, s')" "?J s'" unfolding returns_def by blast
    from chk [OF c(2)] obtain t' where "check_loops addrs ga go own (get_required_authorities ops) s' = (Inr (), t')" by blast
    with True c show ?thesis
      by (cases ok) (simp_all add: verify_authority_def Let_def st try_committee_def bindS_def retS_def check_required_loops)
  qed
qed

section \<open>Properties\<close>

text \<open>The accounts of the examples: account 5 needs the key 11 and account 6, which needs the key 10.\<close>

definition example_transfer :: "(nat, nat) op_auth" where
  "example_transfer = \<lparr>op_fee_payer = 5, op_required_active = [], op_required_owner = [], op_required_other = []\<rparr>"

definition example_active :: "nat \<Rightarrow> (nat, nat) authority option result" where
  "example_active a = (if a = 5 then Inr (Some \<lparr>weight_threshold = 2, account_auths = [(6, 1)], key_auths = [(11, 1)], address_auths = []\<rparr>)
     else if a = 6 then Inr (Some \<lparr>weight_threshold = 1, account_auths = [], key_auths = [(10, 1)], address_auths = []\<rparr>) else Inr None)"

text \<open>C5: whatever \<open>verify_authority\<close> accepts is authorised. Either the caller allowed the committee to approve and the
  committee account approves, or every required authority is met: each authority of \<open>other\<close> by signed keys, signed addresses and
  approving accounts whose weights reach its threshold; each required active account by itself or by its owner authority; each
  required owner by its owner authority or by a given owner approval; and the committee account is not among the required active
  ones unless the caller allowed it. The approving accounts form a finite derivation from the signatures and the given approvals:
  the cache of approved accounts never approves an account by circular membership.\<close>

theorem verify_authority_sound:
  assumes "verify_authority addrs ops sigs get_active get_owner depth allow active_approvals owner_approvals = Inr ()"
  shows "(allow \<and> account_ok get_active (set sigs) (sig_addresses addrs (set sigs))
      (insert GRAPHENE_TEMP_ACCOUNT (set active_approvals \<union> set owner_approvals)) GRAPHENE_COMMITTEE_ACCOUNT) \<or>
    required_ok get_active get_owner (set sigs) (sig_addresses addrs (set sigs))
      (insert GRAPHENE_TEMP_ACCOUNT (set active_approvals \<union> set owner_approvals)) owner_approvals (get_required_authorities ops) \<and>
    (allow \<or> GRAPHENE_COMMITTEE_ACCOUNT \<notin> set (fst (get_required_authorities ops)))"
  by (rule verify_authority_ok [OF assms])

theorem verify_authority_sound_witness:
  "required_ok example_active example_active {10, 11} {} {GRAPHENE_TEMP_ACCOUNT} []
    (get_required_authorities [example_transfer])"
proof -
  have "verify_authority (\<lambda>_. []) [example_transfer]
    [10, 11] example_active example_active 2 False [] [] = Inr ()"
    by code_simp
  from verify_authority_sound [OF this] show ?thesis by (simp add: sig_addresses_def)
qed

text \<open>C12: the check finds every approval within the recursion limit. When no account and no required authority uses an
  address or has weights summing to 2^32, the lookups succeed and every required authority is met by a tree of accounts no deeper than
  \<open>max_recursion_depth\<close>, then \<open>verify_authority\<close> never reports a missing authority, for any number of signatures: the early returns, the
  cache of approved accounts and the order of the members lose no approval. Its answer is exact. With \<open>allow_committe\<close> it accepts. Without,
  it refuses a transaction that needs the committee account; otherwise it accepts when at most five of the given signatures are unused by
  its lookups and refuses with \<open>tx_irrelevant_sig\<close> when there are more. The unused ones are among those given, so that up to
  five signatures are always accepted.\<close>

theorem verify_authority_complete:
  assumes "plain_accounts get_active" "plain_accounts get_owner"
    and "required_within get_active get_owner (set sigs) (insert GRAPHENE_TEMP_ACCOUNT (set active_approvals \<union> set owner_approvals))
      owner_approvals (unat depth) (get_required_authorities ops)"
  shows "verify_authority addrs ops sigs get_active get_owner depth allow active_approvals owner_approvals =
      (if allow then Inr ()
       else if GRAPHENE_COMMITTEE_ACCOUNT \<in> set (fst (get_required_authorities ops)) then Inl Invalid_committee_approval
       else if unused_signatures addrs ops sigs get_active get_owner depth active_approvals owner_approvals \<le> 5 then Inr ()
       else Inl Tx_irrelevant_sig) \<and>
    unused_signatures addrs ops sigs get_active get_owner depth active_approvals owner_approvals \<le> length sigs"
  using verify_authority_returns [OF assms] by blast

theorem verify_authority_complete_witness:
  "verify_authority (\<lambda>_. []) [example_transfer] [10, 11] example_active example_active 1 False [] [] = Inr () \<and>
    verify_authority (\<lambda>_. []) [example_transfer] [3, 4, 5, 6, 7, 10, 11] example_active example_active 1 False [] [] = Inr () \<and>
    verify_authority (\<lambda>_. []) [example_transfer] [3, 4, 5, 6, 7, 8, 10, 11] example_active example_active 1 False [] [] = Inl Tx_irrelevant_sig"
proof -
  let ?v = "\<lambda>sigs. verify_authority (\<lambda>_. []) [example_transfer] sigs example_active example_active 1 False [] []"
    and ?u = "\<lambda>sigs. unused_signatures (\<lambda>_. []) [example_transfer] sigs example_active example_active 1 [] []"
  have "?v sigs = (if ?u sigs \<le> 5 then Inr () else Inl Tx_irrelevant_sig) \<and> ?u sigs \<le> length sigs" if "{10, 11} \<subseteq> set sigs" for sigs
  proof -
    have "plain_accounts example_active" "GRAPHENE_COMMITTEE_ACCOUNT \<notin> set (fst (get_required_authorities [example_transfer]))"
      "required_within example_active example_active (set sigs) (insert GRAPHENE_TEMP_ACCOUNT (set [] \<union> set [])) [] (unat (1 :: 32 word))
        (get_required_authorities [example_transfer])"
      using that by (auto simp: example_active_def example_transfer_def plain_accounts_def plain_authority_def required_within_def
          get_required_authorities_def operation_get_required_authorities_def account_within_def GRAPHENE_COMMITTEE_ACCOUNT_def)
    with verify_authority_complete [of example_active example_active sigs "[]" "[]" 1 "[example_transfer]" "\<lambda>_. []" False] show ?thesis by simp
  qed
  note this [of "[10, 11]"] this [of "[3, 4, 5, 6, 7, 10, 11]"] this [of "[3, 4, 5, 6, 7, 8, 10, 11]"]
  moreover have "?u [3, 4, 5, 6, 7, 10, 11] = 5" "?u [3, 4, 5, 6, 7, 8, 10, 11] = 6" by code_simp+
  ultimately show ?thesis by simp
qed

text \<open>An address that no signature belongs to is looked up past the end of the map of address signatures.\<close>

lemma unsigned_address_undefined:
  assumes "provided_address_sigs s = Some p" "available_address_sigs s = Some q" "map_of p d = None" "map_of q d = None"
  shows "fst (signed_by_address addrs d s) = Inl Undefined_behaviour"
  using assms by (simp add: signed_by_address_def init_addresses_def)

end
