(* ===== verification/Block.thy ===== *)
theory Block
  imports Chain_Prelude "HOL-Library.Word"
begin

text \<open>Block headers, block ids and the merkle root of a block (\<open>protocol/block.hpp\<close>, \<open>protocol/block.cpp\<close>,
  \<open>fc/bitutil.hpp\<close>). A block id is the array \<open>_hash\<close> of five 32-bit words of \<open>fc::ripemd160\<close>; the hash functions are
  parameters, only the layout of their results is used.\<close>

unbundle bit_operations_syntax

section \<open>Block ids\<close>

type_synonym block_id_type = "32 word list"

definition null_block_id :: block_id_type where
  "null_block_id = replicate 5 0"

definition endian_reverse_u32 :: "32 word \<Rightarrow> 32 word" where
  "endian_reverse_u32 x =
     (drop_bit 0x18 x AND 0xFF) OR push_bit 0x08 (drop_bit 0x10 x AND 0xFF) OR
     push_bit 0x10 (drop_bit 0x08 x AND 0xFF) OR push_bit 0x18 (x AND 0xFF)"

definition num_from_id :: "block_id_type \<Rightarrow> 32 word" where
  "num_from_id bid = endian_reverse_u32 (bid ! 0)"

record signed_block_header =
  previous :: block_id_type
  timestamp :: "32 word"
  witness :: nat
  transaction_merkle_root :: "32 word list"
  extensions :: "8 word list list option"
  witness_signature :: "8 word list"

record 'tx signed_block = signed_block_header +
  block_id :: block_id_type
  transactions :: "'tx list"

definition block_num :: "'a signed_block_header_scheme \<Rightarrow> 32 word" where
  "block_num b = num_from_id (previous b) + 1"

text \<open>\<open>make_id\<close>: the first word of the SHA-224 digest of the header is replaced by the block number, and the first five
  of its seven words are kept.\<close>

definition make_id :: "(signed_block_header \<Rightarrow> 32 word list) \<Rightarrow> signed_block_header \<Rightarrow> block_id_type" where
  "make_id sha224 b = (let tmp = (sha224 b)[0 := endian_reverse_u32 (block_num b)] in take 5 tmp)"

text \<open>Byte \<open>i\<close> of the result is byte \<open>3 - i\<close> of the argument.\<close>

lemma bit_endian_reverse_u32:
  assumes "n < 32"
  shows "bit (endian_reverse_u32 x) n = bit x (8 * (3 - n div 8) + n mod 8)"
proof -
  have m: "(0xFF :: 32 word) = mask 8" by (simp add: mask_eq_exp_minus_1)
  define k q where "k = n mod 8" and "q = n div 8"
  have n: "n = 8 * q + k" and k: "k < 8" and q: "q < 4" using assms by (auto simp: k_def q_def)
  have idx: "8 * (3 - n div 8) + n mod 8 = 8 * (3 - q) + k" by (simp add: k_def q_def)
  from q consider "q = 0" | "q = 1" | "q = 2" | "q = 3" by linarith
  then show ?thesis
    unfolding endian_reverse_u32_def m idx unfolding n using k by cases (simp_all add: bit_simps)
qed

lemma endian_reverse_u32_involution: "endian_reverse_u32 (endian_reverse_u32 x) = x"
proof (rule bit_word_eqI)
  fix n :: nat
  assume "n < LENGTH(32)"
  then have n: "n < 32" by simp
  let ?m = "8 * (3 - n div 8) + n mod 8"
  have "?m < 32" by simp
  moreover have "?m div 8 = 3 - n div 8" "?m mod 8 = n mod 8" by simp_all
  moreover have "8 * (3 - (3 - n div 8)) + n mod 8 = n" using n by (simp add: less_mult_imp_div_less)
  ultimately show "bit (endian_reverse_u32 (endian_reverse_u32 x)) n = bit x n"
    using n by (simp add: bit_endian_reverse_u32)
qed

section \<open>The merkle root\<close>

text \<open>One pass over the first \<open>n\<close> digests: \<open>ids[k++] = hash(ids[i], ids[i + 1])\<close> for even \<open>i\<close> below \<open>i_max\<close>, in place.\<close>

fun merkle_pass :: "('d \<Rightarrow> 'd \<Rightarrow> 'd) \<Rightarrow> nat \<Rightarrow> nat \<Rightarrow> nat \<Rightarrow> 'd list \<Rightarrow> 'd list \<times> nat" where
  "merkle_pass hash_pair 0 i k ids = (ids, k)"
| "merkle_pass hash_pair (Suc m) i k ids =
     merkle_pass hash_pair m (i + 2) (k + 1) (ids[k := hash_pair (ids ! i) (ids ! (i + 1))])"

definition merkle_level :: "('d \<Rightarrow> 'd \<Rightarrow> 'd) \<Rightarrow> nat \<Rightarrow> 'd list \<Rightarrow> 'd list \<times> nat" where
  "merkle_level hash_pair n ids =
     (let i_max = n - n mod 2;
          (ids1, k) = merkle_pass hash_pair (i_max div 2) 0 0 ids
      in if odd n then (ids1[k := ids1 ! i_max], k + 1) else (ids1, k))"

lemma merkle_pass_count: "snd (merkle_pass h m i k ids) = k + m"
  by (induction m arbitrary: i k ids) auto

lemma merkle_level_count: "snd (merkle_level h n ids) = (n + 1) div 2"
proof -
  obtain ids1 k where p: "merkle_pass h ((n - n mod 2) div 2) 0 0 ids = (ids1, k)" by fastforce
  with merkle_pass_count [of h "(n - n mod 2) div 2" 0 0 ids] have "k = (n - n mod 2) div 2" by simp
  with p show ?thesis unfolding merkle_level_def Let_def by (auto simp: odd_iff_mod_2_eq_one) presburger+
qed

lemma merkle_level_less: "(ids', k) = merkle_level h n ids \<Longrightarrow> 1 < n \<Longrightarrow> k < n"
proof -
  assume "(ids', k) = merkle_level h n ids" "1 < n"
  then have "k = (n + 1) div 2" using merkle_level_count [of h n ids] by (metis snd_conv)
  with \<open>1 < n\<close> show "k < n" by linarith
qed

function merkle_loop :: "('d \<Rightarrow> 'd \<Rightarrow> 'd) \<Rightarrow> nat \<Rightarrow> 'd list \<Rightarrow> 'd list" where
  "merkle_loop hash_pair n ids =
     (if n > 1 then (case merkle_level hash_pair n ids of (ids', k) \<Rightarrow> merkle_loop hash_pair k ids') else ids)"
  by pat_completeness auto
termination
  by (relation "measure (\<lambda>(h, n, ids). n)") (auto dest: merkle_level_less)

declare merkle_loop.simps [simp del]

definition calculate_merkle_root ::
  "('tx \<Rightarrow> 'd) \<Rightarrow> ('d \<Rightarrow> 'd \<Rightarrow> 'd) \<Rightarrow> ('d \<Rightarrow> 'c) \<Rightarrow> 'c \<Rightarrow> 'tx signed_block \<Rightarrow> 'c" where
  "calculate_merkle_root merkle_digest hash_pair checksum null_checksum b =
     (if length (transactions b) = 0 then null_checksum
      else checksum (merkle_loop hash_pair (length (transactions b)) (map merkle_digest (transactions b)) ! 0))"

section \<open>The merkle tree\<close>

text \<open>The tree the loop computes: digests are combined in pairs, level by level, and a last one without a partner moves
  up unchanged.\<close>

fun pair_up :: "('d \<Rightarrow> 'd \<Rightarrow> 'd) \<Rightarrow> 'd list \<Rightarrow> 'd list" where
  "pair_up h (x # y # zs) = h x y # pair_up h zs"
| "pair_up h zs = zs"

lemma length_pair_up: "length (pair_up h xs) = (length xs + 1) div 2"
  by (induction h xs rule: pair_up.induct) auto

function merkle_tree :: "('d \<Rightarrow> 'd \<Rightarrow> 'd) \<Rightarrow> 'd list \<Rightarrow> 'd option" where
  "merkle_tree h [] = None"
| "merkle_tree h [x] = Some x"
| "merkle_tree h (x # y # zs) = merkle_tree h (pair_up h (x # y # zs))"
  by pat_completeness auto
termination
  by (relation "measure (\<lambda>(h, xs). length xs)") (auto simp: length_pair_up)

lemma pair_up_snoc: "even (length xs) \<Longrightarrow> pair_up h (xs @ [y]) = pair_up h xs @ [y]"
  by (induction h xs rule: pair_up.induct) auto

lemma merkle_pass_eq:
  assumes "k \<le> i" "i + 2 * m \<le> length ids"
  shows "fst (merkle_pass h m i k ids) = take k ids @ pair_up h (take (2 * m) (drop i ids)) @ drop (k + m) ids"
  using assms
proof (induction m arbitrary: i k ids)
  case (Suc m)
  let ?v = "h (ids ! i) (ids ! (i + 1))"
  let ?ids = "ids[k := ?v]"
  have "fst (merkle_pass h (Suc m) i k ids) =
      take (k + 1) ?ids @ pair_up h (take (2 * m) (drop (i + 2) ?ids)) @ drop (k + 1 + m) ?ids"
    using Suc.IH [of "k + 1" "i + 2" ?ids] Suc.prems by simp
  moreover have "take (k + 1) ?ids = take k ids @ [?v]"
    using Suc.prems by (simp add: take_Suc_conv_app_nth)
  moreover have "drop i ids = ids ! i # ids ! (i + 1) # drop (i + 2) ids"
    using Suc.prems by (simp add: Cons_nth_drop_Suc)
  ultimately show ?case using Suc.prems by simp
qed simp

lemma merkle_level_take:
  assumes "n \<le> length ids" "merkle_level h n ids = (ids', k)"
  shows "take k ids' = pair_up h (take n ids)" "k \<le> length ids'"
proof -
  define m where "m = n div 2"
  obtain ids1 k1 where p: "merkle_pass h m 0 0 ids = (ids1, k1)" by fastforce
  have k1: "k1 = m" using merkle_pass_count [of h m 0 0 ids] p by simp
  have ids1: "ids1 = pair_up h (take (2 * m) ids) @ drop m ids"
    using merkle_pass_eq [of 0 0 m ids h] p assms(1) by (simp add: m_def)
  have len: "length (pair_up h (take (2 * m) ids)) = m" using assms(1) by (simp add: length_pair_up m_def)
  have im: "n - n mod 2 = 2 * m" by (simp add: m_def minus_mod_eq_mult_div)
  show "take k ids' = pair_up h (take n ids)" "k \<le> length ids'"
  proof (atomize (full), cases "odd n")
    case True
    then have n: "n = 2 * m + 1" by (auto simp: m_def elim!: oddE)
    have "ids1 ! (2 * m) = ids ! (2 * m)" using ids1 len assms(1) n by (simp add: nth_append mult_2)
    then have "ids' = ids1[m := ids ! (2 * m)]" "k = m + 1"
      using assms(2) True p k1 im by (simp_all add: merkle_level_def)
    moreover have "take (m + 1) (ids1[m := ids ! (2 * m)]) = take m ids1 @ [ids ! (2 * m)]"
      using ids1 len assms(1) n by (simp add: take_Suc_conv_app_nth)
    moreover have "take m ids1 = pair_up h (take (2 * m) ids)" using ids1 len by simp
    moreover have "pair_up h (take n ids) = pair_up h (take (2 * m) ids) @ [ids ! (2 * m)]"
      using assms(1) n pair_up_snoc [of "take (2 * m) ids" h "ids ! (2 * m)"] by (simp add: take_Suc_conv_app_nth)
    ultimately show "take k ids' = pair_up h (take n ids) \<and> k \<le> length ids'" using ids1 len assms(1) n by simp
  next
    case False
    then have n: "n = 2 * m" by (auto simp: m_def)
    with False assms(2) p k1 im have "ids' = ids1" "k = m" by (simp_all add: merkle_level_def)
    then show "take k ids' = pair_up h (take n ids) \<and> k \<le> length ids'" using ids1 len n by simp
  qed
qed

lemma merkle_tree_pair_up: "2 \<le> length xs \<Longrightarrow> merkle_tree h xs = merkle_tree h (pair_up h xs)"
  by (cases "(h, xs)" rule: merkle_tree.cases) auto

lemma merkle_loop_tree:
  assumes "0 < n" "n \<le> length ids"
  shows "merkle_tree h (take n ids) = Some (merkle_loop h n ids ! 0)"
  using assms
proof (induction n arbitrary: ids rule: less_induct)
  case (less n)
  show ?case
  proof (cases "1 < n")
    case True
    obtain ids' k where l: "merkle_level h n ids = (ids', k)" by fastforce
    note t = merkle_level_take [OF less.prems(2) l]
    have k: "k < n" "0 < k" using merkle_level_less [OF l [symmetric] True] merkle_level_count [of h n ids] l True by auto
    have "merkle_tree h (take n ids) = merkle_tree h (take k ids')"
      using merkle_tree_pair_up [of "take n ids" h] True less.prems(2) t(1) by simp
    also have "\<dots> = Some (merkle_loop h k ids' ! 0)" using less.IH [OF k t(2)] .
    finally show ?thesis using True l by (simp add: merkle_loop.simps [of h n ids])
  next
    case False
    with less.prems have "n = 1" "ids \<noteq> []" by auto
    then show ?thesis by (cases ids) (auto simp: merkle_loop.simps)
  qed
qed

section \<open>Properties\<close>

text \<open>C32: a block id carries its block number. Whatever the hash of the header is, the number read from the id that
  \<open>make_id\<close> builds is the number of the block, and a block whose \<open>previous\<close> is that id has the next number.\<close>

theorem make_id_block_num:
  assumes "\<And>h. length (sha224 h) = 7"
  shows "num_from_id (make_id sha224 b) = block_num b \<and>
    (previous c = make_id sha224 b \<longrightarrow> block_num c = block_num b + 1)"
proof -
  have "num_from_id (make_id sha224 b) = block_num b"
    using assms [of b] by (simp add: num_from_id_def make_id_def Let_def endian_reverse_u32_involution)
  then show ?thesis by (simp add: block_num_def [of c])
qed

theorem make_id_block_num_witness:
  "num_from_id (make_id (\<lambda>h. replicate 7 5) \<lparr>previous = [0x01000000, 2, 3, 4, 5], timestamp = 7, witness = 1,
      transaction_merkle_root = [], extensions = None, witness_signature = []\<rparr>) = 2"
proof -
  let ?b = "\<lparr>previous = [0x01000000, 2, 3, 4, 5], timestamp = 7, witness = 1, transaction_merkle_root = [], extensions = None, witness_signature = []\<rparr>"
  have "block_num ?b = 2" by (simp add: block_num_def num_from_id_def endian_reverse_u32_def)
  with make_id_block_num [of "\<lambda>h. replicate 7 5" ?b ?b] show ?thesis by simp
qed

text \<open>C19: the merkle root is the root of the merkle tree. For every block with transactions the in-place loop over the
  digests ends and computes the checksum of the root of the tree that combines the digests in pairs level by
  level, an unpaired last digest moving up unchanged; an empty block has the null checksum.\<close>

theorem merkle_root_is_tree_root:
  "calculate_merkle_root digest h chk null b =
    (case merkle_tree h (map digest (transactions b)) of None \<Rightarrow> null | Some r \<Rightarrow> chk r)"
  using merkle_loop_tree [of "length (transactions b)" "map digest (transactions b)" h]
  by (simp add: calculate_merkle_root_def)

end
