(* ===== verification/Fork_Db.thy ===== *)
theory Fork_Db
  imports Block
begin

text \<open>The fork database (\<open>fork_database.hpp\<close>, \<open>fork_database.cpp\<close>): the tree of recent blocks. Items live in a heap and
  are named by their address; \<open>prev\<close> is a weak pointer, which can be locked while some index, the head or another
  part of the program (\<open>fork_pinned\<close>) still holds the item. \<open>_push_next\<close> has no caller and is left out.\<close>

section \<open>Items and the database\<close>

record fork_item =
  fi_prev :: "nat option"
  fi_num :: "32 word"
  fi_id :: block_id_type
  fi_previous :: block_id_type

record fork_database =
  fork_heap :: "fork_item list"
  fork_index :: "nat list"
  fork_unlinked :: "nat list"
  fork_head :: "nat option"
  fork_max_size :: "32 word"
  fork_pinned :: "nat list"

definition fork_empty :: fork_database where
  "fork_empty = \<lparr>fork_heap = [], fork_index = [], fork_unlinked = [], fork_head = None, fork_max_size = 1024,
     fork_pinned = []\<rparr>"

definition fork_item_of :: "'tx signed_block \<Rightarrow> fork_item" where
  "fork_item_of b = \<lparr>fi_prev = None, fi_num = block_num b, fi_id = block_id b, fi_previous = previous b\<rparr>"

definition item :: "fork_database \<Rightarrow> nat \<Rightarrow> fork_item" where
  "item db p = fork_heap db ! p"

definition fork_alive :: "fork_database \<Rightarrow> nat \<Rightarrow> bool" where
  "fork_alive db p \<longleftrightarrow> p \<in> set (fork_index db) \<or> p \<in> set (fork_unlinked db) \<or> fork_head db = Some p \<or>
     p \<in> set (fork_pinned db)"

definition lock_prev :: "fork_database \<Rightarrow> nat \<Rightarrow> nat option" where
  "lock_prev db p = (case fi_prev (item db p) of None \<Rightarrow> None
     | Some q \<Rightarrow> if fork_alive db q then Some q else None)"

definition find_block_id :: "fork_database \<Rightarrow> nat list \<Rightarrow> block_id_type \<Rightarrow> nat option" where
  "find_block_id db ps bid = List.find (\<lambda>p. fi_id (item db p) = bid) ps"

text \<open>A second item with the id of an item of the index is not inserted.\<close>

definition index_insert :: "fork_database \<Rightarrow> nat \<Rightarrow> nat list" where
  "index_insert db p =
     (if find_block_id db (fork_index db) (fi_id (item db p)) \<noteq> None then fork_index db else fork_index db @ [p])"

section \<open>Operations\<close>

definition fork_reset :: "fork_database \<Rightarrow> fork_database" where
  "fork_reset db = db\<lparr>fork_head := None, fork_index := []\<rparr>"

definition pop_block :: "fork_database \<Rightarrow> fork_database result" where
  "pop_block db = (case fork_head db of
     None \<Rightarrow> Inl Assert_exception
   | Some h \<Rightarrow> (case lock_prev db h of
       None \<Rightarrow> Inl Assert_exception
     | Some q \<Rightarrow> Inr (db\<lparr>fork_head := Some q\<rparr>)))"

definition new_item :: "'tx signed_block \<Rightarrow> fork_database \<Rightarrow> fork_database" where
  "new_item b db = db\<lparr>fork_heap := fork_heap db @ [fork_item_of b]\<rparr>"

definition start_block :: "'tx signed_block \<Rightarrow> fork_database \<Rightarrow> fork_database" where
  "start_block b db =
     (let p = length (fork_heap db); db1 = new_item b db
      in db1\<lparr>fork_index := index_insert db1 p, fork_head := Some p\<rparr>)"

text \<open>\<open>while (num_idx.size() && (*num_idx.begin())->num < min_num) num_idx.erase(num_idx.begin())\<close>\<close>

function evict_below :: "(nat \<Rightarrow> int) \<Rightarrow> int \<Rightarrow> nat list \<Rightarrow> nat list" where
  "evict_below num m ps =
     (case sort_key num ps of [] \<Rightarrow> ps | p # _ \<Rightarrow> if num p < m then evict_below num m (remove1 p ps) else ps)"
  by pat_completeness auto
termination
proof (relation "measure (\<lambda>(num, m, ps). length ps)")
  fix num m ps x21 and x22 :: "nat list"
  assume "sort_key num ps = x21 # x22"
  then have "x21 \<in> set ps" by (metis list.set_intros(1) set_sort)
  with length_pos_if_in_set [OF this] show "((num, m, remove1 x21 ps), num, m, ps) \<in> measure (\<lambda>(num, m, ps). length ps)"
    by (simp add: length_remove1)
qed simp

declare evict_below.simps [simp del]

definition link_item :: "nat \<Rightarrow> fork_database \<Rightarrow> fork_database result" where
  "link_item p db =
     (if fork_head db \<noteq> None \<and> fi_previous (item db p) \<noteq> null_block_id then
        (case find_block_id db (fork_index db) (fi_previous (item db p)) of
           None \<Rightarrow> Inl Unlinkable_block_exception
         | Some q \<Rightarrow> Inr (db\<lparr>fork_heap := (fork_heap db)[p := (item db p)\<lparr>fi_prev := Some q\<rparr>]\<rparr>))
      else Inr db)"

definition push_item :: "nat \<Rightarrow> fork_database \<Rightarrow> fork_database result" where
  "push_item p db =
     (if (case fork_head db of None \<Rightarrow> False | Some h \<Rightarrow>
            \<not> uint (fi_num (item db p)) > max 0 (uint (fi_num (item db h)) - uint (fork_max_size db)))
      then Inl Assert_exception
      else bindE (link_item p db) (\<lambda>db1.
        let db2 = db1\<lparr>fork_index := index_insert db1 p\<rparr>; n = fi_num (item db2 p)
        in case fork_head db2 of
             None \<Rightarrow> Inr (db2\<lparr>fork_head := Some p\<rparr>)
           | Some h \<Rightarrow>
               if n > fi_num (item db2 h) then
                 let min_num = n - min (fork_max_size db2) n
                 in Inr (db2\<lparr>fork_head := Some p,
                     fork_index := evict_below (\<lambda>q. uint (fi_num (item db2 q))) (uint min_num) (fork_index db2),
                     fork_unlinked := filter (\<lambda>q. fi_num (item db2 q) \<noteq> n - fork_max_size db2) (fork_unlinked db2)\<rparr>)
               else Inr db2))"

definition push_block :: "'tx signed_block \<Rightarrow> fork_database \<Rightarrow> (fork_database \<times> nat option) result" where
  "push_block b db =
     bindE (push_item (length (fork_heap db)) (new_item b db)) (\<lambda>db'. Inr (db', fork_head db'))"

definition set_max_size :: "32 word \<Rightarrow> fork_database \<Rightarrow> fork_database" where
  "set_max_size s db0 =
     (let db = db0\<lparr>fork_max_size := s\<rparr>
      in case fork_head db of
           None \<Rightarrow> db
         | Some h \<Rightarrow>
             let m = max 0 (uint (fi_num (item db h)) - uint s); num = (\<lambda>q. uint (fi_num (item db q)))
             in db\<lparr>fork_index := evict_below num m (fork_index db), fork_unlinked := evict_below num m (fork_unlinked db)\<rparr>)"

definition is_known_block :: "fork_database \<Rightarrow> block_id_type \<Rightarrow> bool" where
  "is_known_block db bid \<longleftrightarrow>
     find_block_id db (fork_index db) bid \<noteq> None \<or> find_block_id db (fork_unlinked db) bid \<noteq> None"

definition fetch_block :: "fork_database \<Rightarrow> block_id_type \<Rightarrow> nat option" where
  "fetch_block db bid = (case find_block_id db (fork_index db) bid of
     Some p \<Rightarrow> Some p
   | None \<Rightarrow> find_block_id db (fork_unlinked db) bid)"

definition fetch_block_by_number :: "fork_database \<Rightarrow> 32 word \<Rightarrow> nat list" where
  "fetch_block_by_number db n =
     takeWhile (\<lambda>p. fi_num (item db p) = n)
       (dropWhile (\<lambda>p. fi_num (item db p) \<noteq> n) (sort_key (\<lambda>p. uint (fi_num (item db p))) (fork_index db)))"

definition set_fork_head :: "nat option \<Rightarrow> fork_database \<Rightarrow> fork_database" where
  "set_fork_head h db = db\<lparr>fork_head := h\<rparr>"

definition fork_remove :: "block_id_type \<Rightarrow> fork_database \<Rightarrow> fork_database" where
  "fork_remove bid db = db\<lparr>fork_index := filter (\<lambda>p. fi_id (item db p) \<noteq> bid) (fork_index db)\<rparr>"

section \<open>Branches\<close>

text \<open>The loops of \<open>fetch_branch_from\<close> follow \<open>prev\<close> pointers; None is a loop that does not end.\<close>

partial_function (option) walk_down :: "fork_database \<Rightarrow> 32 word \<Rightarrow> nat \<Rightarrow> nat list \<Rightarrow> (nat list \<times> nat) result option" where
  "walk_down db n p acc =
     (if fi_num (item db p) > n then
        (case lock_prev db p of None \<Rightarrow> Some (Inl Assert_exception) | Some q \<Rightarrow> walk_down db n q (acc @ [p]))
      else Some (Inr (acc, p)))"

partial_function (option) walk_both ::
  "fork_database \<Rightarrow> nat \<Rightarrow> nat \<Rightarrow> nat list \<Rightarrow> nat list \<Rightarrow> (nat list \<times> nat list) result option" where
  "walk_both db p q acc1 acc2 =
     (if fi_previous (item db p) \<noteq> fi_previous (item db q) then
        (case lock_prev db p of None \<Rightarrow> Some (Inl Assert_exception) | Some p' \<Rightarrow>
        (case lock_prev db q of None \<Rightarrow> Some (Inl Assert_exception) | Some q' \<Rightarrow>
         walk_both db p' q' (acc1 @ [p]) (acc2 @ [q])))
      else Some (Inr (acc1 @ [p], acc2 @ [q])))"

definition fetch_branch_from ::
  "fork_database \<Rightarrow> block_id_type \<Rightarrow> block_id_type \<Rightarrow> (nat list \<times> nat list) result option" where
  "fetch_branch_from db first second =
     (case find_block_id db (fork_index db) first of None \<Rightarrow> Some (Inl Assert_exception) | Some p \<Rightarrow>
     (case find_block_id db (fork_index db) second of None \<Rightarrow> Some (Inl Assert_exception) | Some q \<Rightarrow>
     (case walk_down db (fi_num (item db q)) p [] of
        None \<Rightarrow> None
      | Some (Inl e) \<Rightarrow> Some (Inl e)
      | Some (Inr (acc1, p')) \<Rightarrow>
          (case walk_down db (fi_num (item db p')) q [] of
             None \<Rightarrow> None
           | Some (Inl e) \<Rightarrow> Some (Inl e)
           | Some (Inr (acc2, q')) \<Rightarrow> walk_both db p' q' acc1 acc2))))"

section \<open>The invariant\<close>

text \<open>A \<open>prev\<close> pointer leads to an older item, the one whose id is the item's previous id; the ids of the index are
  unique and every pointer is valid.\<close>

definition item_ok :: "fork_item list \<Rightarrow> nat \<Rightarrow> bool" where
  "item_ok h p = (case fi_prev (h ! p) of None \<Rightarrow> True | Some q \<Rightarrow> q < p \<and> fi_id (h ! q) = fi_previous (h ! p))"

definition fork_wf :: "fork_database \<Rightarrow> bool" where
  "fork_wf db \<longleftrightarrow> (\<forall>p \<in> {..<length (fork_heap db)}. item_ok (fork_heap db) p) \<and>
     set (fork_index db) \<subseteq> {..<length (fork_heap db)} \<and> set (fork_unlinked db) \<subseteq> {..<length (fork_heap db)} \<and>
     (case fork_head db of None \<Rightarrow> True | Some h \<Rightarrow> h < length (fork_heap db)) \<and>
     distinct (map (\<lambda>p. fi_id (fork_heap db ! p)) (fork_index db))"

lemma evict_below_filter: "evict_below num m ps = filter (\<lambda>p. \<not> num p < m) ps"
proof (induction num m ps rule: evict_below.induct)
  case (1 num m ps)
  show ?case
  proof (cases "sort_key num ps")
    case Nil
    then have "ps = []" by (metis length_sort length_0_conv)
    then show ?thesis by (simp add: evict_below.simps)
  next
    case (Cons p qs)
    have min: "num p \<le> num q" if "q \<in> set ps" for q
      using that Cons sorted_sort_key [of num ps] by (metis list.simps(9) set_ConsD set_sort sorted_simps(2) image_eqI list.set_map order_refl)
    show ?thesis
    proof (cases "num p < m")
      case True
      have "filter (\<lambda>q. \<not> num q < m) (remove1 p ps) = filter (\<lambda>q. \<not> num q < m) ps"
        using True by (induction ps) auto
      then show ?thesis using 1 [OF Cons True] Cons True by (auto simp: evict_below.simps [of num m ps])
    next
      case False
      with min have "filter (\<lambda>q. \<not> num q < m) ps = ps" by (intro filter_True) (meson leD leI order_trans)
      then show ?thesis using Cons False by (simp add: evict_below.simps [of num m ps])
    qed
  qed
qed

lemma item_ok_append: "p < length h \<Longrightarrow> item_ok (h @ xs) p = item_ok h p"
  by (auto simp: item_ok_def nth_append split: option.splits)

lemma find_block_id_Some:
  assumes "find_block_id db ps bid = Some q"
  shows "q \<in> set ps" "fi_id (item db q) = bid"
  using assms by (auto simp: find_block_id_def find_Some_iff)

lemma index_insert_distinct:
  assumes "distinct (map (\<lambda>p. fi_id (item db p)) (fork_index db))"
  shows "distinct (map (\<lambda>p. fi_id (item db p)) (index_insert db p))"
  using assms by (auto simp: index_insert_def find_block_id_def find_None_iff)

lemma set_index_insert: "set (index_insert db p) \<subseteq> insert p (set (fork_index db))"
  by (auto simp: index_insert_def)

lemma fork_wf_new_item: "fork_wf db \<Longrightarrow> fork_wf (new_item b db)"
proof -
  assume wf: "fork_wf db"
  have "item_ok (fork_heap db @ [fork_item_of b]) p" if "p < length (fork_heap db) + 1" for p
    using that wf by (cases "p < length (fork_heap db)")
      (auto simp: fork_wf_def item_ok_append, auto simp: item_ok_def fork_item_of_def nth_append)
  moreover have "map (\<lambda>p. fi_id ((fork_heap db @ [fork_item_of b]) ! p)) (fork_index db) =
      map (\<lambda>p. fi_id (fork_heap db ! p)) (fork_index db)"
    using wf by (intro map_cong) (auto simp: fork_wf_def nth_append)
  ultimately show ?thesis using wf by (auto simp: fork_wf_def new_item_def simp del: map_eq_conv split: option.splits)
qed

text \<open>Operations that only drop pointers, or add one to a valid item.\<close>

lemma fork_wf_pointers:
  assumes "fork_wf db" "fork_heap db' = fork_heap db" "\<And>h. fork_head db' = Some h \<Longrightarrow> h < length (fork_heap db)"
    and "set (fork_unlinked db') \<subseteq> {..<length (fork_heap db)}" "set (fork_index db') \<subseteq> {..<length (fork_heap db)}"
    and "distinct (map (\<lambda>p. fi_id (item db p)) (fork_index db'))"
  shows "fork_wf db'"
  using assms by (auto simp: fork_wf_def item_def split: option.splits)

lemma fork_wfD:
  assumes "fork_wf db"
  shows "set (fork_index db) \<subseteq> {..<length (fork_heap db)}" "set (fork_unlinked db) \<subseteq> {..<length (fork_heap db)}"
    "fork_head db = Some h \<Longrightarrow> h < length (fork_heap db)" "distinct (map (\<lambda>p. fi_id (item db p)) (fork_index db))"
    "p < length (fork_heap db) \<Longrightarrow> fi_prev (item db p) = Some q \<Longrightarrow> q < p \<and> fi_id (item db q) = fi_previous (item db p)"
  using assms by (auto simp: fork_wf_def item_def item_ok_def dest: bspec)

lemma fork_wf_link:
  assumes "fork_wf db" "p + 1 = length (fork_heap db)" "p \<notin> set (fork_index db)" "link_item p db = Inr db'"
  shows "fork_wf db'" "fork_index db' = fork_index db" "fork_head db' = fork_head db" "length (fork_heap db') = length (fork_heap db)"
    "fork_unlinked db' = fork_unlinked db" "fork_max_size db' = fork_max_size db"
    "\<And>q. fi_num (item db' q) = fi_num (item db q)" "\<And>q. fi_id (item db' q) = fi_id (item db q)"
proof -
  have "fork_wf db' \<and> fork_index db' = fork_index db \<and> fork_head db' = fork_head db \<and> length (fork_heap db') = length (fork_heap db) \<and>
    fork_unlinked db' = fork_unlinked db \<and> fork_max_size db' = fork_max_size db \<and>
    (\<forall>q. fi_num (item db' q) = fi_num (item db q)) \<and> (\<forall>q. fi_id (item db' q) = fi_id (item db q))"
  proof (cases "fork_head db \<noteq> None \<and> fi_previous (item db p) \<noteq> null_block_id")
    case True
    with assms(4) obtain q where q: "find_block_id db (fork_index db) (fi_previous (item db p)) = Some q"
      and db': "db' = db\<lparr>fork_heap := (fork_heap db)[p := (item db p)\<lparr>fi_prev := Some q\<rparr>]\<rparr>"
      by (auto simp: link_item_def)
    note f = find_block_id_Some [OF q]
    have qp: "q < p" using f(1) assms(1-3) by (auto simp: fork_wf_def) (metis Suc_eq_plus1 less_Suc_eq less_SucE lessThan_iff subsetD)
    let ?h = "(fork_heap db)[p := (item db p)\<lparr>fi_prev := Some q\<rparr>]"
    have fields: "fi_num (?h ! r) = fi_num (fork_heap db ! r)" "fi_id (?h ! r) = fi_id (fork_heap db ! r)"
      "fi_previous (?h ! r) = fi_previous (fork_heap db ! r)" for r
      using assms(2) by (cases "r = p"; simp add: item_def)+
    have "item_ok ?h r" if "r < length (fork_heap db)" for r
    proof (cases "r = p")
      case True
      with qp f(2) assms(2) fields show ?thesis by (simp add: item_ok_def item_def)
    next
      case False
      from that assms(1) have "item_ok (fork_heap db) r" by (auto simp: fork_wf_def)
      with False fields show ?thesis by (auto simp: item_ok_def split: option.splits)
    qed
    with assms(1) fields db' show ?thesis by (auto simp: fork_wf_def item_def split: option.splits)
  qed (use assms(1,4) in \<open>auto simp: link_item_def\<close>)
  then show "fork_wf db'" "fork_index db' = fork_index db" "fork_head db' = fork_head db" "length (fork_heap db') = length (fork_heap db)"
    "fork_unlinked db' = fork_unlinked db" "fork_max_size db' = fork_max_size db"
    "\<And>q. fi_num (item db' q) = fi_num (item db q)" "\<And>q. fi_id (item db' q) = fi_id (item db q)" by blast+
qed

lemma lock_prev_Some: "lock_prev db p = Some q \<Longrightarrow> fi_prev (item db p) = Some q \<and> fork_alive db q"
  by (auto simp: lock_prev_def split: option.splits if_splits)

lemma push_item_cases:
  assumes wf: "fork_wf db" and p: "p + 1 = length (fork_heap db)" "p \<notin> set (fork_index db)" and push: "push_item p db = Inr db'"
  obtains db1 where "link_item p db = Inr db1" "fork_wf db1" "fork_heap db' = fork_heap db1"
    "set (fork_index db') \<subseteq> insert p (set (fork_index db))" "fork_wf db'"
    "fork_head db' = (case fork_head db of None \<Rightarrow> Some p | Some h \<Rightarrow> if fi_num (item db p) > fi_num (item db h) then Some p else Some h)"
    "\<And>h. fork_head db = Some h \<Longrightarrow> fi_num (item db p) > fi_num (item db h) \<Longrightarrow>
       \<forall>q \<in> set (fork_index db'). fi_num (item db p) - min (fork_max_size db) (fi_num (item db p)) \<le> fi_num (item db q)"
proof -
  from push obtain db1 where l: "link_item p db = Inr db1" by (auto simp: push_item_def split: if_splits)
  note lw = fork_wf_link [OF wf p l]
  let ?db2 = "db1\<lparr>fork_index := index_insert db1 p\<rparr>"
  have item2: "item ?db2 = item db1" by (simp add: item_def fun_eq_iff)
  have ins: "set (index_insert db1 p) \<subseteq> insert p (set (fork_index db))" using set_index_insert [of db1 p] lw(2) by simp
  have sub: "set (index_insert db1 p) \<subseteq> {..<length (fork_heap db1)}"
    using ins fork_wfD(1) [OF wf] p(1) lw(4) by auto
  have dis: "distinct (map (\<lambda>q. fi_id (item db1 q)) (index_insert db1 p))"
    by (rule index_insert_distinct [OF fork_wfD(4) [OF lw(1)]])
  let ?n = "fi_num (item db p)"
  let ?min = "?n - min (fork_max_size db) ?n"
  let ?ev = "filter (\<lambda>q. \<not> uint (fi_num (item db q)) < uint ?min) (index_insert db1 p)"
  have db': "db' = (case fork_head db of None \<Rightarrow> ?db2\<lparr>fork_head := Some p\<rparr> | Some h \<Rightarrow>
      if ?n > fi_num (item db h) then ?db2\<lparr>fork_head := Some p, fork_index := ?ev,
        fork_unlinked := filter (\<lambda>q. fi_num (item db q) \<noteq> ?n - fork_max_size db) (fork_unlinked db)\<rparr> else ?db2)"
    using push l lw(3,5-7) by (auto simp: push_item_def Let_def item2 evict_below_filter split: option.splits if_splits)
  have wf': "fork_wf db'"
  proof (rule fork_wf_pointers [OF lw(1)])
    show "fork_heap db' = fork_heap db1" by (simp add: db' split: option.splits)
    show "h < length (fork_heap db1)" if "fork_head db' = Some h" for h
      using that fork_wfD(3) [OF lw(1)] lw(3,4) p(1) by (auto simp: db' split: option.splits if_splits)
    show "set (fork_unlinked db') \<subseteq> {..<length (fork_heap db1)}"
      using fork_wfD(2) [OF lw(1)] lw(5) by (auto simp: db' split: option.splits)
    show "set (fork_index db') \<subseteq> {..<length (fork_heap db1)}" using sub by (auto simp: db' split: option.splits)
    show "distinct (map (\<lambda>q. fi_id (item db1 q)) (fork_index db'))"
      using dis distinct_map_filter by (auto simp: db' split: option.splits)
  qed
  show ?thesis
  proof (rule that [OF l lw(1) _ _ wf'])
    show "fork_heap db' = fork_heap db1" by (simp add: db' split: option.splits)
    show "set (fork_index db') \<subseteq> insert p (set (fork_index db))" using ins by (auto simp: db' split: option.splits)
    show "fork_head db' = (case fork_head db of None \<Rightarrow> Some p | Some h \<Rightarrow> if ?n > fi_num (item db h) then Some p else Some h)"
      using lw(3) by (auto simp: db' split: option.splits)
    show "\<forall>q \<in> set (fork_index db'). ?min \<le> fi_num (item db q)" if "fork_head db = Some h" "?n > fi_num (item db h)" for h
      using that by (auto simp: db' word_less_def word_le_def linorder_not_less)
  qed
qed

lemma push_block_cases:
  assumes "fork_wf db" "push_block b db = Inr (db', hp)"
  shows "fork_wf db'" "hp = fork_head db'"
    "fork_head db' = (case fork_head db of None \<Rightarrow> Some (length (fork_heap db))
       | Some h \<Rightarrow> if block_num b > fi_num (item db h) then Some (length (fork_heap db)) else Some h)"
    "\<And>h. fork_head db = Some h \<Longrightarrow> block_num b > fi_num (item db h) \<Longrightarrow>
       \<forall>q \<in> set (fork_index db'). block_num b - min (fork_max_size db) (block_num b) \<le> fi_num (item db' q)"
proof -
  let ?p = "length (fork_heap db)" and ?db = "new_item b db"
  from assms(2) have push: "push_item ?p ?db = Inr db'" and hpe: "hp = fork_head db'" by (auto simp: push_block_def)
  have wf: "fork_wf ?db" by (rule fork_wf_new_item [OF assms(1)])
  have new: "?p + 1 = length (fork_heap ?db)" "?p \<notin> set (fork_index ?db)" "fork_head ?db = fork_head db" "fork_max_size ?db = fork_max_size db"
    "fi_num (item ?db ?p) = block_num b"
    using fork_wfD(1) [OF assms(1)] by (auto simp: new_item_def item_def fork_item_of_def)
  have old: "item ?db h = item db h" if "fork_head db = Some h" for h
    using fork_wfD(3) [OF assms(1) that] by (simp add: new_item_def item_def nth_append)
  obtain db1 where l: "link_item ?p ?db = Inr db1" and heap: "fork_heap db' = fork_heap db1" and wf': "fork_wf db'"
    and head: "fork_head db' = (case fork_head db of None \<Rightarrow> Some ?p
       | Some h \<Rightarrow> if block_num b > fi_num (item ?db h) then Some ?p else Some h)"
    and ev: "\<And>h. fork_head db = Some h \<Longrightarrow> block_num b > fi_num (item ?db h) \<Longrightarrow>
       \<forall>q \<in> set (fork_index db'). block_num b - min (fork_max_size db) (block_num b) \<le> fi_num (item ?db q)"
    by (rule push_item_cases [OF wf new(1,2) push]) (use new in \<open>auto cong: option.case_cong\<close>)
  have num: "fi_num (item db' q) = fi_num (item ?db q)" for q
    using fork_wf_link(7) [OF wf new(1,2) l] heap by (simp add: item_def)
  show "fork_wf db'" "hp = fork_head db'" by fact+
  show "fork_head db' = (case fork_head db of None \<Rightarrow> Some ?p
       | Some h \<Rightarrow> if block_num b > fi_num (item db h) then Some ?p else Some h)"
    using head old by (auto split: option.splits)
  show "\<And>h. fork_head db = Some h \<Longrightarrow> block_num b > fi_num (item db h) \<Longrightarrow>
       \<forall>q \<in> set (fork_index db'). block_num b - min (fork_max_size db) (block_num b) \<le> fi_num (item db' q)"
    using ev old num by simp
qed

section \<open>Reachable databases\<close>

inductive fork_step :: "fork_database \<Rightarrow> fork_database \<Rightarrow> bool" where
  Reset: "fork_step db (fork_reset db)"
| Pop: "pop_block db = Inr db' \<Longrightarrow> fork_step db db'"
| Start: "fork_step db (start_block (b :: unit signed_block) db)"
| Push: "push_block (b :: unit signed_block) db = Inr (db', h) \<Longrightarrow> fork_step db db'"
| Resize: "fork_step db (set_max_size n db)"
| Head: "p < length (fork_heap db) \<Longrightarrow> fork_step db (set_fork_head (Some p) db)"
| Remove: "fork_step db (fork_remove bid db)"
| Pin: "fork_step db (db\<lparr>fork_pinned := ps\<rparr>)"

inductive_cases fork_stepE: "fork_step db db'"

lemma lock_prev_valid:
  assumes "fork_wf db" "p < length (fork_heap db)" "lock_prev db p = Some q"
  shows "q < p" "fi_id (item db q) = fi_previous (item db p)"
  using fork_wfD(5) [OF assms(1,2)] lock_prev_Some [OF assms(3)] by auto

lemma fork_step_wf:
  assumes "fork_step db db'" "fork_wf db"
  shows "fork_wf db'"
  using assms
proof (cases rule: fork_step.cases)
  case Pop
  then obtain h q where h: "fork_head db = Some h" "lock_prev db h = Some q" "db' = db\<lparr>fork_head := Some q\<rparr>"
    by (auto simp: pop_block_def)
  with fork_wfD(3) [OF assms(2) h(1)] lock_prev_valid [OF assms(2) _ h(2)] assms(2) show ?thesis
    by (auto simp: fork_wf_def)
next
  case (Start b)
  let ?db = "new_item b db" and ?p = "length (fork_heap db)"
  have wf: "fork_wf ?db" by (rule fork_wf_new_item [OF assms(2)])
  show ?thesis
  proof (rule fork_wf_pointers [OF wf])
    show "set (fork_index db') \<subseteq> {..<length (fork_heap ?db)}"
      using Start set_index_insert [of ?db ?p] fork_wfD(1) [OF wf] by (auto simp: start_block_def Let_def new_item_def)
    show "distinct (map (\<lambda>p. fi_id (item ?db p)) (fork_index db'))"
      using Start index_insert_distinct [OF fork_wfD(4) [OF wf]] by (simp add: start_block_def Let_def)
  qed (use Start fork_wfD(2) [OF wf] in \<open>auto simp: start_block_def Let_def new_item_def\<close>)
next
  case (Push b h)
  with push_block_cases(1) assms(2) show ?thesis by blast
next
  case (Resize n)
  have w: "fork_wf (db\<lparr>fork_max_size := n\<rparr>)" using assms(2) by (simp add: fork_wf_def cong: option.case_cong)
  show ?thesis
    by (rule fork_wf_pointers [OF w])
      (use Resize fork_wfD [OF w] in \<open>auto simp: set_max_size_def Let_def evict_below_filter distinct_map_filter split: option.splits\<close>)
next
  case (Remove bid)
  show ?thesis
    by (rule fork_wf_pointers [OF assms(2)])
      (use Remove fork_wfD [OF assms(2)] in \<open>auto simp: fork_remove_def distinct_map_filter\<close>)
qed (auto simp: fork_wf_def fork_reset_def set_fork_head_def cong: option.case_cong)

lemma fork_wf_empty: "fork_wf fork_empty"
  by (simp add: fork_wf_def fork_empty_def)

lemma fork_reachable_wf: "fork_step\<^sup>*\<^sup>* fork_empty db \<Longrightarrow> fork_wf db"
  by (induction rule: rtranclp_induct) (use fork_wf_empty fork_step_wf in blast)+

section \<open>Branches of a well-formed database\<close>

definition chain :: "fork_database \<Rightarrow> nat list \<Rightarrow> bool" where
  "chain db ps \<longleftrightarrow> ps \<noteq> [] \<and> successively (\<lambda>p q. lock_prev db p = Some q) ps"

lemma chain_Cons: "lock_prev db p = Some q \<Longrightarrow> chain db (zs @ [r]) \<Longrightarrow> hd (zs @ [r]) = q \<Longrightarrow> chain db (p # zs @ [r])"
  by (cases zs) (auto simp: chain_def)

lemma walk_down_ok:
  assumes "fork_wf db" "p < length (fork_heap db)"
  shows "\<exists>r. walk_down db n p acc = Some r \<and> (case r of Inl e \<Rightarrow> e = Assert_exception | Inr (acc', p') \<Rightarrow>
    (\<exists>zs. acc' = acc @ zs \<and> chain db (zs @ [p']) \<and> hd (zs @ [p']) = p \<and> p' < length (fork_heap db) \<and>
      fi_num (item db p') \<le> n))"
  using assms(2)
proof (induction p arbitrary: acc rule: less_induct)
  case (less p)
  show ?case
  proof (cases "fi_num (item db p) > n")
    case False
    then show ?thesis using less.prems
      by (auto simp: walk_down.simps [of db n p acc] chain_def not_less intro!: exI [of _ "Inr (acc, p)"] exI [of _ "[]"])
  next
    case True
    show ?thesis
    proof (cases "lock_prev db p")
      case None
      with True show ?thesis by (auto simp: walk_down.simps [of db n p acc])
    next
      case (Some q)
      note v = lock_prev_valid [OF assms(1) less.prems Some]
      from less.IH [OF v(1), of "acc @ [p]"] v(1) less.prems obtain r where r: "walk_down db n q (acc @ [p]) = Some r"
        and c: "case r of Inl e \<Rightarrow> e = Assert_exception | Inr (acc', p') \<Rightarrow>
          (\<exists>zs. acc' = (acc @ [p]) @ zs \<and> chain db (zs @ [p']) \<and> hd (zs @ [p']) = q \<and> p' < length (fork_heap db) \<and>
            fi_num (item db p') \<le> n)" by auto
      have "walk_down db n p acc = Some r" using True Some r by (simp add: walk_down.simps [of db n p acc])
      moreover have "case r of Inl e \<Rightarrow> e = Assert_exception | Inr (acc', p') \<Rightarrow>
          (\<exists>zs. acc' = acc @ zs \<and> chain db (zs @ [p']) \<and> hd (zs @ [p']) = p \<and> p' < length (fork_heap db) \<and>
            fi_num (item db p') \<le> n)"
      proof (cases r)
        case (Inr x)
        then obtain acc' p' where x: "r = Inr (acc', p')" by (cases x) auto
        with c obtain zs where z: "acc' = (acc @ [p]) @ zs" "chain db (zs @ [p'])" "hd (zs @ [p']) = q" "p' < length (fork_heap db)"
          "fi_num (item db p') \<le> n" by auto
        with chain_Cons [OF Some z(2,3)] x show ?thesis by (auto intro!: exI [of _ "p # zs"])
      qed (use c in simp)
      ultimately show ?thesis by blast
    qed
  qed
qed

text \<open>Two branches that end at items with the same previous id, and no earlier.\<close>

definition meeting :: "fork_database \<Rightarrow> nat list \<Rightarrow> nat list \<Rightarrow> bool" where
  "meeting db zs ws \<longleftrightarrow> chain db zs \<and> chain db ws \<and> length zs = length ws \<and>
     fi_previous (item db (last zs)) = fi_previous (item db (last ws)) \<and>
     (\<forall>i. i + 1 < length zs \<longrightarrow> fi_previous (item db (zs ! i)) \<noteq> fi_previous (item db (ws ! i)))"

lemma meeting_Cons:
  assumes "lock_prev db p = Some (hd zs)" "lock_prev db q = Some (hd ws)" "meeting db zs ws"
    "fi_previous (item db p) \<noteq> fi_previous (item db q)"
  shows "meeting db (p # zs) (q # ws)"
proof -
  from assms(3) have ne: "zs \<noteq> []" "ws \<noteq> []" by (auto simp: meeting_def chain_def)
  with assms have "chain db (p # zs)" "chain db (q # ws)" by (auto simp: meeting_def chain_def successively_Cons)
  moreover have "fi_previous (item db ((p # zs) ! i)) \<noteq> fi_previous (item db ((q # ws) ! i))" if "i + 1 < length (p # zs)" for i
    using that assms(3,4) by (cases i) (auto simp: meeting_def)
  ultimately show ?thesis using assms(3) ne by (auto simp: meeting_def)
qed

lemma walk_both_ok:
  assumes "fork_wf db" "p < length (fork_heap db)" "q < length (fork_heap db)"
  shows "\<exists>r. walk_both db p q acc1 acc2 = Some r \<and> (case r of Inl e \<Rightarrow> e = Assert_exception | Inr (xs, ys) \<Rightarrow>
    (\<exists>zs ws. xs = acc1 @ zs \<and> ys = acc2 @ ws \<and> hd zs = p \<and> hd ws = q \<and> meeting db zs ws))"
  using assms(2,3)
proof (induction p arbitrary: q acc1 acc2 rule: less_induct)
  case (less p)
  show ?case
  proof (cases "fi_previous (item db p) = fi_previous (item db q)")
    case True
    then have "walk_both db p q acc1 acc2 = Some (Inr (acc1 @ [p], acc2 @ [q]))" by (simp add: walk_both.simps [of db p q])
    moreover have "meeting db [p] [q]" using True by (simp add: meeting_def chain_def)
    ultimately show ?thesis by fastforce
  next
    case ne: False
    show ?thesis
    proof (cases "lock_prev db p = None \<or> lock_prev db q = None")
      case True
      with ne show ?thesis by (auto simp: walk_both.simps [of db p q] split: option.splits)
    next
      case False
      then obtain p' q' where l: "lock_prev db p = Some p'" "lock_prev db q = Some q'" by auto
      have v: "p' < p" "q' < q"
        using lock_prev_valid(1) [OF assms(1) less.prems(1) l(1)] lock_prev_valid(1) [OF assms(1) less.prems(2) l(2)] by auto
      from less.IH [OF v(1), of q' "acc1 @ [p]" "acc2 @ [q]"] v less.prems obtain r where
        r: "walk_both db p' q' (acc1 @ [p]) (acc2 @ [q]) = Some r"
        and c: "case r of Inl e \<Rightarrow> e = Assert_exception | Inr (xs, ys) \<Rightarrow> (\<exists>zs ws. xs = (acc1 @ [p]) @ zs \<and>
          ys = (acc2 @ [q]) @ ws \<and> hd zs = p' \<and> hd ws = q' \<and> meeting db zs ws)" by auto
      have "walk_both db p q acc1 acc2 = Some r" using ne l r by (simp add: walk_both.simps [of db p q])
      moreover have "case r of Inl e \<Rightarrow> e = Assert_exception | Inr (xs, ys) \<Rightarrow>
        (\<exists>zs ws. xs = acc1 @ zs \<and> ys = acc2 @ ws \<and> hd zs = p \<and> hd ws = q \<and> meeting db zs ws)"
      proof (cases r)
        case (Inr x)
        with c obtain zs ws where z: "x = ((acc1 @ [p]) @ zs, (acc2 @ [q]) @ ws)" "hd zs = p'" "hd ws = q'" "meeting db zs ws"
          by (cases x) auto
        from meeting_Cons [of db p zs q ws] l z ne have "meeting db (p # zs) (q # ws)" by simp
        with Inr z show ?thesis by (auto intro!: exI [of _ "p # zs"] exI [of _ "q # ws"])
      qed (use c in simp)
      ultimately show ?thesis by blast
    qed
  qed
qed

lemma chain_append:
  assumes "chain db (zs @ [r])" "chain db ws" "hd ws = r"
  shows "chain db (zs @ ws)"
proof -
  from assms(2) obtain ws' where ws: "ws = r # ws'" using assms(3) by (cases ws) (auto simp: chain_def)
  show ?thesis using assms(1,2) unfolding ws chain_def by (auto simp: successively_append_iff)
qed

text \<open>What \<open>fetch_branch_from\<close> promises of its two branches.\<close>

definition branches :: "fork_database \<Rightarrow> block_id_type \<Rightarrow> block_id_type \<Rightarrow> nat list \<Rightarrow> nat list \<Rightarrow> bool" where
  "branches db a b xs ys \<longleftrightarrow> chain db xs \<and> chain db ys \<and> fi_id (item db (hd xs)) = a \<and> fi_id (item db (hd ys)) = b \<and>
     fi_previous (item db (last xs)) = fi_previous (item db (last ys)) \<and>
     hd xs < length (fork_heap db) \<and> hd ys < length (fork_heap db)"

lemma branches_join:
  assumes "chain db (zs @ [p'])" "chain db (ws @ [q'])" "meeting db us vs" "hd us = p'" "hd vs = q'"
    "fi_id (item db (hd (zs @ [p']))) = a" "fi_id (item db (hd (ws @ [q']))) = b"
    "hd (zs @ [p']) < length (fork_heap db)" "hd (ws @ [q']) < length (fork_heap db)"
  shows "branches db a b (zs @ us) (ws @ vs)"
proof -
  have m: "chain db us" "chain db vs" "fi_previous (item db (last us)) = fi_previous (item db (last vs))" "us \<noteq> []" "vs \<noteq> []"
    using assms(3) by (auto simp: meeting_def chain_def)
  have "chain db (zs @ us)" "chain db (ws @ vs)" using chain_append assms(1,2,4,5) m by blast+
  moreover have "hd (zs @ us) = hd (zs @ [p'])" "hd (ws @ vs) = hd (ws @ [q'])"
    using assms(4,5) m by (simp_all add: hd_append)
  ultimately show ?thesis using assms(6-9) m by (simp add: branches_def)
qed

lemma fetch_branch_ok:
  assumes "fork_wf db"
  shows "\<exists>r. fetch_branch_from db a b = Some r \<and> (case r of Inl e \<Rightarrow> e = Assert_exception
    | Inr (xs, ys) \<Rightarrow> branches db a b xs ys)"
proof (cases "find_block_id db (fork_index db) a = None \<or> find_block_id db (fork_index db) b = None")
  case True
  then show ?thesis by (auto simp: fetch_branch_from_def split: option.splits)
next
  case False
  then obtain p q where f: "find_block_id db (fork_index db) a = Some p" "find_block_id db (fork_index db) b = Some q" by auto
  have v: "p < length (fork_heap db)" "q < length (fork_heap db)"
    using find_block_id_Some(1) [OF f(1)] find_block_id_Some(1) [OF f(2)] fork_wfD(1) [OF assms] by auto
  from walk_down_ok [OF assms v(1), of "fi_num (item db q)" "[]"] obtain r1 where
    w1: "walk_down db (fi_num (item db q)) p [] = Some r1" and c1: "case r1 of Inl e \<Rightarrow> e = Assert_exception | Inr (acc', p') \<Rightarrow>
    (\<exists>zs. acc' = [] @ zs \<and> chain db (zs @ [p']) \<and> hd (zs @ [p']) = p \<and> p' < length (fork_heap db) \<and>
      fi_num (item db p') \<le> fi_num (item db q))" by blast
  show ?thesis
  proof (cases r1)
    case (Inr x)
    with c1 obtain zs p' where x: "r1 = Inr (zs, p')" and z: "chain db (zs @ [p'])" "hd (zs @ [p']) = p" "p' < length (fork_heap db)"
      by (cases x) auto
    from walk_down_ok [OF assms v(2), of "fi_num (item db p')" "[]"] obtain r2 where
      w2: "walk_down db (fi_num (item db p')) q [] = Some r2" and c2: "case r2 of Inl e \<Rightarrow> e = Assert_exception | Inr (acc', q') \<Rightarrow>
      (\<exists>zs. acc' = [] @ zs \<and> chain db (zs @ [q']) \<and> hd (zs @ [q']) = q \<and> q' < length (fork_heap db) \<and>
        fi_num (item db q') \<le> fi_num (item db p'))" by blast
    show ?thesis
    proof (cases r2)
      case (Inr y)
      with c2 obtain ws q' where y: "r2 = Inr (ws, q')" and w: "chain db (ws @ [q'])" "hd (ws @ [q']) = q" "q' < length (fork_heap db)"
        by (cases y) auto
      from walk_both_ok [OF assms z(3) w(3), of zs ws] obtain r where r: "walk_both db p' q' zs ws = Some r"
        and c: "case r of Inl e \<Rightarrow> e = Assert_exception | Inr (xs, ys) \<Rightarrow>
          (\<exists>us vs. xs = zs @ us \<and> ys = ws @ vs \<and> hd us = p' \<and> hd vs = q' \<and> meeting db us vs)" by blast
      have "case r of Inl e \<Rightarrow> e = Assert_exception | Inr (xs, ys) \<Rightarrow> branches db a b xs ys"
        using c branches_join [OF z(1) w(1)] z(2) w(2) v find_block_id_Some(2) [OF f(1)] find_block_id_Some(2) [OF f(2)]
        by (cases r) auto
      with r w1 x w2 y f show ?thesis by (simp add: fetch_branch_from_def)
    qed (use w1 x w2 c2 f in \<open>simp add: fetch_branch_from_def\<close>)
  qed (use w1 c1 f in \<open>simp add: fetch_branch_from_def\<close>)
qed

declare walk_down.simps [code] walk_both.simps [code]

section \<open>Properties\<close>

text \<open>C7: in every fork database the program can build, \<open>fetch_branch_from\<close> ends and is right. From the empty database,
  after any sequence of pushes, pops, removals, resizes, resets and head changes, the search for the branches of two
  blocks always returns; it either throws (a block is unknown or a \<open>prev\<close> pointer has expired) or returns two
  branches that start at the given blocks, follow the \<open>prev\<close> pointers and end in blocks with the same previous
  block.\<close>

theorem fetch_branch_from_correct:
  assumes "fork_step\<^sup>*\<^sup>* fork_empty db"
  shows "\<exists>r. fetch_branch_from db a b = Some r \<and>
    (case r of Inl e \<Rightarrow> e = Assert_exception | Inr (xs, ys) \<Rightarrow> branches db a b xs ys)"
  by (rule fetch_branch_ok [OF fork_reachable_wf [OF assms]])

definition demo_block :: "32 word \<Rightarrow> 32 word \<Rightarrow> 32 word \<Rightarrow> 32 word \<Rightarrow> unit signed_block" where
  "demo_block n x m y = \<lparr>previous = [endian_reverse_u32 m, y, 0, 0, 0], timestamp = 0, witness = 0, transaction_merkle_root = [], extensions = None,
     witness_signature = [], block_id = [endian_reverse_u32 n, x, 0, 0, 0], transactions = []\<rparr>"

definition demo_fork :: fork_database where
  "demo_fork = (case push_block (demo_block 2 7 1 6) (start_block (demo_block 1 6 0 0) fork_empty) of Inl _ \<Rightarrow> fork_empty
     | Inr (db, _) \<Rightarrow> (case push_block (demo_block 2 8 1 6) db of Inl _ \<Rightarrow> fork_empty | Inr (db', _) \<Rightarrow> db'))"

lemma demo_fork_reachable: "fork_step\<^sup>*\<^sup>* fork_empty demo_fork"
proof -
  have s: "fork_step\<^sup>*\<^sup>* fork_empty (start_block (demo_block 1 6 0 0) fork_empty)" by (rule r_into_rtranclp, rule Start)
  show ?thesis unfolding demo_fork_def
    using s by (auto split: sum.splits intro: rtranclp.rtrancl_into_rtrancl Push)
qed

theorem fetch_branch_from_correct_witness:
  "\<exists>xs ys. fetch_branch_from demo_fork [endian_reverse_u32 2, 7, 0, 0, 0] [endian_reverse_u32 2, 8, 0, 0, 0] = Some (Inr (xs, ys)) \<and>
    branches demo_fork [endian_reverse_u32 2, 7, 0, 0, 0] [endian_reverse_u32 2, 8, 0, 0, 0] xs ys"
proof -
  have "fetch_branch_from demo_fork [endian_reverse_u32 2, 7, 0, 0, 0] [endian_reverse_u32 2, 8, 0, 0, 0] = Some (Inr ([1], [2]))"
    by code_simp
  with fetch_branch_from_correct [OF demo_fork_reachable, of "[endian_reverse_u32 2, 7, 0, 0, 0]" "[endian_reverse_u32 2, 8, 0, 0, 0]"]
  show ?thesis by auto
qed

text \<open>C30: pushing a block keeps the tree well-formed and the longest fork as head. When a reachable database accepts a block,
  the head becomes the new block exactly when its number is larger than that of the old head, and then only blocks
  within the maximal size below the new head are left in the index; otherwise the head stays.\<close>

theorem push_block_head:
  assumes "fork_step\<^sup>*\<^sup>* fork_empty db" "fork_head db = Some h" "push_block b db = Inr (db', h')"
  shows "fork_wf db' \<and> h' = fork_head db' \<and>
    fork_head db' = (if block_num b > fi_num (item db h) then Some (length (fork_heap db)) else Some h) \<and>
    (block_num b > fi_num (item db h) \<longrightarrow> (\<forall>q \<in> set (fork_index db').
       block_num b - min (fork_max_size db) (block_num b) \<le> fi_num (item db' q)))"
  using push_block_cases [OF fork_reachable_wf [OF assms(1)] assms(3)] assms(2) by simp

theorem push_block_head_witness:
  "\<exists>db'. push_block (demo_block 3 9 2 8) demo_fork = Inr (db', Some 3) \<and> fork_wf db' \<and> fork_head db' = Some 3"
proof -
  have "fork_head demo_fork = Some 1 \<and> (case push_block (demo_block 3 9 2 8) demo_fork of Inl _ \<Rightarrow> False | Inr (db', h) \<Rightarrow> h = Some 3)"
    by code_simp
  then obtain db' where "fork_head demo_fork = Some 1" "push_block (demo_block 3 9 2 8) demo_fork = Inr (db', Some 3)"
    by (auto split: sum.splits)
  with push_block_head [OF demo_fork_reachable] show ?thesis by metis
qed

text \<open>C31: a block that does not link is refused. With a head present and the block inside the cached range, \<open>push_block\<close> throws
  the unlinkable-block exception exactly when the block names a previous block that is not in the index.\<close>

theorem push_block_unlinkable:
  assumes "fork_wf db" "fork_head db = Some h"
    "uint (block_num b) > max 0 (uint (fi_num (item db h)) - uint (fork_max_size db))"
  shows "push_block b db = Inl Unlinkable_block_exception \<longleftrightarrow>
    previous b \<noteq> null_block_id \<and> (\<forall>p \<in> set (fork_index db). fi_id (item db p) \<noteq> previous b)"
proof -
  let ?p = "length (fork_heap db)" and ?db = "new_item b db"
  have new: "fork_head ?db = Some h" "fork_max_size ?db = fork_max_size db" "fi_num (item ?db ?p) = block_num b"
    "fi_previous (item ?db ?p) = previous b" "item ?db h = item db h" "fork_index ?db = fork_index db"
    using fork_wfD(3) [OF assms(1,2)] assms(2) by (auto simp: new_item_def item_def fork_item_of_def nth_append)
  have "item ?db p = item db p" if "p \<in> set (fork_index db)" for p
    using that fork_wfD(1) [OF assms(1)] by (auto simp: new_item_def item_def nth_append)
  then have "find_block_id ?db (fork_index db) (previous b) = None \<longleftrightarrow> (\<forall>p \<in> set (fork_index db). fi_id (item db p) \<noteq> previous b)"
    by (auto simp: find_block_id_def find_None_iff)
  moreover have "push_block b db = Inl Unlinkable_block_exception \<longleftrightarrow> link_item ?p ?db = Inl Unlinkable_block_exception"
    using assms(3) new by (auto simp: push_block_def push_item_def Let_def bindE_def split: sum.splits option.splits if_splits)
  moreover have "link_item ?p ?db = Inl Unlinkable_block_exception \<longleftrightarrow>
      previous b \<noteq> null_block_id \<and> find_block_id ?db (fork_index db) (previous b) = None"
    using new by (auto simp: link_item_def split: option.splits)
  ultimately show ?thesis by simp
qed

theorem push_block_unlinkable_witness:
  "push_block (demo_block 3 9 2 5) demo_fork = Inl Unlinkable_block_exception"
proof -
  have f: "fork_head demo_fork = Some 1 \<and>
      uint (block_num (demo_block 3 9 2 5)) > max 0 (uint (fi_num (item demo_fork 1)) - uint (fork_max_size demo_fork)) \<and>
      previous (demo_block 3 9 2 5) \<noteq> null_block_id \<and>
      (\<forall>p \<in> set (fork_index demo_fork). fi_id (item demo_fork p) \<noteq> previous (demo_block 3 9 2 5))" by code_simp
  with push_block_unlinkable [OF fork_reachable_wf [OF demo_fork_reachable]] show ?thesis by blast
qed

end
