(* ===== verification/Uint128.thy ===== *)
theory Uint128
  imports Chain_Prelude "HOL-Library.Word"
begin

text \<open>The 128-bit unsigned integers of the fc library (\<open>fc/uint128.hpp\<close>, \<open>fc/uint128.cpp\<close>): two 64-bit halves with their
  own carries, shifts, 32-bit limb multiplication, binary long division, population count and conversion to and from
  strings. Every operation is shown to compute what the same operation computes on a \<open>128 word\<close>; \<open>u128w\<close> maps the two
  halves to that word. \<open>operator/=\<close> only calls \<open>boost::multiprecision\<close> and is left out.\<close>

unbundle bit_operations_syntax

section \<open>Construction, comparison and arithmetic\<close>

record uint128 =
  hi :: "64 word"
  lo :: "64 word"

definition of_halves :: "64 word \<Rightarrow> 64 word \<Rightarrow> uint128" where
  "of_halves h l = \<lparr>hi = h, lo = l\<rparr>"

definition of_uint32 :: "32 word \<Rightarrow> uint128" where
  "of_uint32 l = of_halves 0 (ucast l)"

definition of_uint64 :: "64 word \<Rightarrow> uint128" where
  "of_uint64 l = of_halves 0 l"

definition of_int32 :: "32 word \<Rightarrow> uint128" where
  "of_int32 l = of_halves (if sint l < 0 then - 1 else 0) (scast l)"

definition of_int64 :: "64 word \<Rightarrow> uint128" where
  "of_int64 l = of_halves (if sint l < 0 then - 1 else 0) l"

definition u128_less :: "uint128 \<Rightarrow> uint128 \<Rightarrow> bool" where
  "u128_less a b = (if hi a = hi b then lo a < lo b else hi a < hi b)"

definition u128_gt :: "uint128 \<Rightarrow> uint128 \<Rightarrow> bool" where
  "u128_gt l r = u128_less r l"

definition u128_ge :: "uint128 \<Rightarrow> uint128 \<Rightarrow> bool" where
  "u128_ge l r = (l = r \<or> u128_gt l r)"

definition u128_le :: "uint128 \<Rightarrow> uint128 \<Rightarrow> bool" where
  "u128_le l r = (l = r \<or> u128_less l r)"

definition u128_is_zero :: "uint128 \<Rightarrow> bool" where
  "u128_is_zero a = (\<not> (hi a \<noteq> 0 \<or> lo a \<noteq> 0))"

definition u128_not :: "uint128 \<Rightarrow> uint128" where
  "u128_not a = of_halves (NOT (hi a)) (NOT (lo a))"

definition u128_inc :: "uint128 \<Rightarrow> uint128" where
  "u128_inc a = (let l = lo a + 1 in of_halves (hi a + (if l = 0 then 1 else 0)) l)"

definition u128_dec :: "uint128 \<Rightarrow> uint128" where
  "u128_dec a = of_halves (hi a - (if lo a = 0 then 1 else 0)) (lo a - 1)"

definition u128_neg :: "uint128 \<Rightarrow> uint128" where
  "u128_neg a = u128_inc (of_halves (NOT (hi a)) (NOT (lo a)))"

definition u128_or_eq :: "uint128 \<Rightarrow> uint128 \<Rightarrow> uint128" where
  "u128_or_eq a u = of_halves (hi a OR hi u) (lo a OR lo u)"

definition u128_and_eq :: "uint128 \<Rightarrow> uint128 \<Rightarrow> uint128" where
  "u128_and_eq a u = of_halves (hi a AND hi u) (lo a AND lo u)"

definition u128_xor_eq :: "uint128 \<Rightarrow> uint128 \<Rightarrow> uint128" where
  "u128_xor_eq a u = of_halves (hi a XOR hi u) (lo a XOR lo u)"

definition u128_add :: "uint128 \<Rightarrow> uint128 \<Rightarrow> uint128" where
  "u128_add a u = (let old = lo a; l = lo a + lo u
     in of_halves (hi a + (hi u + (if l < old then 1 else 0))) l)"

definition u128_sub :: "uint128 \<Rightarrow> uint128 \<Rightarrow> uint128" where
  "u128_sub a u = u128_add a (u128_neg u)"

text \<open>The binary \<open>operator|\<close> assigns its second operand to a copy of the first.\<close>

definition u128_or :: "uint128 \<Rightarrow> uint128 \<Rightarrow> uint128" where
  "u128_or l r = r"

definition to_integer :: "uint128 \<Rightarrow> 32 word result" where
  "to_integer a =
     (if \<not> hi a = 0 then Inl Assert_exception
      else let lo32 = ucast (lo a) in if \<not> lo a = ucast lo32 then Inl Assert_exception else Inr lo32)"

definition to_uint64 :: "uint128 \<Rightarrow> 64 word result" where
  "to_uint64 a = (if \<not> hi a = 0 then Inl Assert_exception else Inr (lo a))"

section \<open>Shifts\<close>

definition shl_halves :: "nat \<Rightarrow> uint128 \<Rightarrow> uint128" where
  "shl_halves n a =
     (if n \<noteq> 0 then
        let h = push_bit n (hi a); m = NOT (drop_bit n (- 1))
        in of_halves (h OR drop_bit (64 - n) (lo a AND m)) (push_bit n (lo a))
      else a)"

definition u128_shl :: "uint128 \<Rightarrow> uint128 \<Rightarrow> uint128 result" where
  "u128_shl a rhs =
     (if u128_ge rhs (of_int32 128) then Inr (of_halves 0 0)
      else bindE (to_integer rhs) (\<lambda>w. let n = unat w in
        Inr (if n \<ge> 64 then shl_halves (n - 64) (of_halves (lo a) 0) else shl_halves n a)))"

definition shr_halves :: "nat \<Rightarrow> uint128 \<Rightarrow> uint128" where
  "shr_halves n a =
     (if n \<noteq> 0 then
        let l = drop_bit n (lo a); m = NOT (push_bit n (- 1))
        in of_halves (drop_bit n (hi a)) (l OR push_bit (64 - n) (hi a AND m))
      else a)"

definition u128_shr :: "uint128 \<Rightarrow> uint128 \<Rightarrow> uint128 result" where
  "u128_shr a rhs =
     (if u128_ge rhs (of_int32 128) then Inr (of_halves 0 0)
      else bindE (to_integer rhs) (\<lambda>w. let n = unat w in
        Inr (if n \<ge> 64 then shr_halves (n - 64) (of_halves 0 (hi a)) else shr_halves n a)))"

section \<open>The word the halves stand for\<close>

definition u128w :: "uint128 \<Rightarrow> 128 word" where
  "u128w a = push_bit 64 (ucast (hi a)) OR ucast (lo a)"

lemma of_halves_sel [simp]: "hi (of_halves h l) = h" "lo (of_halves h l) = l"
  by (simp_all add: of_halves_def)

lemma bit_u128: "bit (u128w a) n = (if n < 64 then bit (lo a) n else bit (hi a) (n - 64))"
  by (auto simp: u128w_def bit_simps dest: bit_imp_le_length)

lemma bit_less: "bit (x :: 64 word) n \<Longrightarrow> n < 64" "bit (y :: 32 word) n \<Longrightarrow> n < 64"
  using bit_imp_le_length [of x n] bit_imp_le_length [of y n] by auto

lemma uint64_less: "uint (x :: 64 word) < 2 ^ 64"
  using unsigned_less [of x] by simp

lemma uint_u128: "uint (u128w a) = uint (hi a) * 2 ^ 64 + uint (lo a)"
proof -
  have "u128w a = push_bit 64 (ucast (hi a)) + ucast (lo a)"
    unfolding u128w_def
    by (rule disjunctive_add_eq_or [symmetric]) (auto simp: bit_eq_iff bit_simps dest: bit_imp_le_length)
  moreover have "uint (hi a) < 2 ^ 64" "uint (lo a) < 2 ^ 64" by (rule uint64_less)+
  ultimately show ?thesis
    by (simp add: uint_word_ariths unsigned_push_bit_eq unsigned_ucast_eq take_bit_eq_mod push_bit_eq_mult)
qed

lemma u128_inject: "u128w a = u128w b \<longleftrightarrow> a = b"
proof
  assume e: "u128w a = u128w b"
  have "bit (lo a) n = bit (lo b) n" if "n < 64" for n using bit_u128 [of a n] bit_u128 [of b n] e that by simp
  moreover have "bit (hi a) n = bit (hi b) n" for n using bit_u128 [of a "n + 64"] bit_u128 [of b "n + 64"] e by simp
  ultimately show "a = b" by (intro uint128.equality bit_word_eqI) auto
qed simp

named_theorems u128_simps

lemma digits_less:
  fixes h l h' l' M :: int
  assumes "0 \<le> l" "l < M" "0 \<le> l'" "l' < M"
  shows "h * M + l < h' * M + l' \<longleftrightarrow> (if h = h' then l < l' else h < h')"
proof -
  have "h * M + l < h' * M + l'" if "h < h'" "l < M" "0 \<le> l'" for h h' l l' :: int
  proof -
    have "(h + 1) * M \<le> h' * M" using that assms by (intro mult_right_mono) auto
    with that show ?thesis by (simp add: algebra_simps)
  qed
  from this [of h h' l l'] this [of h' h l' l] assms show ?thesis by (cases h h' rule: linorder_cases) auto
qed

lemma digits_mod:
  fixes m r M :: int
  assumes "0 \<le> r" "r < M"
  shows "(m * M + r) mod (M * M) = m mod M * M + r"
proof -
  have "(r + m * M) mod (M * M) = M * ((r + m * M) div M mod M) + (r + m * M) mod M"
    using assms by (intro zmod_zmult2_eq) simp
  with assms show ?thesis by (simp add: algebra_simps)
qed

lemma u128_less_iff [u128_simps]: "u128_less a b \<longleftrightarrow> u128w a < u128w b"
  using digits_less [of "uint (lo a)" "2 ^ 64" "uint (lo b)" "uint (hi a)" "uint (hi b)"] uint64_less
  by (simp add: u128_less_def word_less_def uint_u128 word_uint_eq_iff)

lemma u128_add_eq [u128_simps]: "u128w (u128_add a b) = u128w a + u128w b"
proof (rule word_uint_eqI)
  let ?k = "if lo a + lo b < lo a then 1 else 0 :: int" and ?M = "2 ^ 64 :: int"
  let ?r = "uint (lo a) + uint (lo b) - ?k * ?M"
  have b: "uint (lo a) < ?M" "uint (lo b) < ?M" by (rule uint64_less)+
  have c: "lo a + lo b < lo a \<longleftrightarrow> uint (lo a) + uint (lo b) \<ge> ?M"
    using no_plus_overflow_uint_size [of "lo a" "lo b"] by (auto simp: word_size not_le [symmetric])
  have r: "0 \<le> ?r" "?r < ?M" using b c by auto
  have l: "uint (lo a + lo b) = ?r" using c by (simp add: uint_plus_if')
  have "uint (u128w (u128_add a b)) = (uint (hi a) + (uint (hi b) + ?k)) mod ?M * ?M + ?r"
    using l by (simp add: u128_add_def uint_u128 uint_word_ariths Let_def mod_simps)
  also have "\<dots> = ((uint (hi a) + (uint (hi b) + ?k)) * ?M + ?r) mod (?M * ?M)" by (rule digits_mod [OF r, symmetric])
  also have "\<dots> = uint (u128w a + u128w b)" by (simp add: uint_word_ariths uint_u128 algebra_simps)
  finally show "uint (u128w (u128_add a b)) = uint (u128w a + u128w b)" .
qed

lemma u128_not_eq [u128_simps]: "u128w (u128_not a) = NOT (u128w a)"
  by (rule bit_word_eqI) (auto simp: bit_u128 bit_simps u128_not_def)

lemma u128_inc_eq [u128_simps]: "u128w (u128_inc a) = u128w a + 1"
proof -
  have "lo a + 1 = 0 \<longleftrightarrow> lo a + 1 < lo a"
    by (simp add: less_le inc_less_eq_self_iff_eq eq_neg_iff_add_eq_0)
  then have "u128_inc a = u128_add a (of_halves 0 1)" by (simp add: u128_inc_def u128_add_def Let_def)
  moreover have "u128w (of_halves 0 1) = 1" by (simp add: u128w_def)
  ultimately show ?thesis by (simp add: u128_add_eq)
qed

lemma u128_neg_eq [u128_simps]: "u128w (u128_neg a) = - u128w a"
  using u128_inc_eq [of "u128_not a"] u128_not_eq [of a] by (simp add: u128_neg_def u128_not_def minus_eq_not_plus_1)

lemma u128_sub_eq [u128_simps]: "u128w (u128_sub a b) = u128w a - u128w b"
  by (simp add: u128_sub_def u128_add_eq u128_neg_eq)

lemma u128_dec_eq [u128_simps]: "u128w (u128_dec a) = u128w a - 1"
proof -
  have "u128_inc (u128_dec a) = a" by (simp add: u128_inc_def u128_dec_def)
  with u128_inc_eq [of "u128_dec a"] show ?thesis by simp
qed

lemma u128_or_eq_eq [u128_simps]: "u128w (u128_or_eq a b) = u128w a OR u128w b"
  by (rule bit_word_eqI) (auto simp: bit_u128 bit_simps u128_or_eq_def)

lemma u128_and_eq_eq [u128_simps]: "u128w (u128_and_eq a b) = u128w a AND u128w b"
  by (rule bit_word_eqI) (auto simp: bit_u128 bit_simps u128_and_eq_def)

lemma u128_xor_eq_eq [u128_simps]: "u128w (u128_xor_eq a b) = u128w a XOR u128w b"
  by (rule bit_word_eqI) (auto simp: bit_u128 bit_simps u128_xor_eq_def)

lemma u128_of [u128_simps]:
  "u128w (of_uint64 x) = ucast x" "u128w (of_uint32 y) = ucast y" "u128w (of_halves 0 0) = 0"
  by (auto simp: of_uint64_def of_uint32_def bit_u128 bit_simps intro!: bit_word_eqI dest: bit_less split: if_splits)

lemma u128_of_int [u128_simps]: "u128w (of_int64 x) = scast x" "u128w (of_int32 y) = scast y"
proof -
  have s: "sint x < 0 \<longleftrightarrow> bit x 63" "sint y < 0 \<longleftrightarrow> bit y 31" using bit_last_iff [of x] bit_last_iff [of y] by simp_all
  have e: "n = 63" if "63 \<le> n" "n < 64" for n :: nat using that by simp
  show "u128w (of_int64 x) = scast x"
    by (rule bit_word_eqI) (auto simp: bit_u128 of_int64_def bit_simps s min_def dest: e)
  show "u128w (of_int32 y) = scast y"
    by (rule bit_word_eqI) (auto simp: bit_u128 of_int32_def bit_simps s min_def)
qed

lemma u128_ge_iff [u128_simps]: "u128_ge a b \<longleftrightarrow> u128w b \<le> u128w a"
  by (auto simp: u128_ge_def u128_gt_def u128_less_iff order.order_iff_strict u128_inject)

lemma u128_le_iff [u128_simps]: "u128_le a b \<longleftrightarrow> u128w a \<le> u128w b"
  by (auto simp: u128_le_def u128_less_iff order.order_iff_strict u128_inject)

lemma u128_zero_iff [u128_simps]: "u128_is_zero a \<longleftrightarrow> u128w a = 0"
  using u128_inject [of a "of_halves 0 0"] 
  by (auto simp: u128_of u128_is_zero_def intro: uint128.equality)

lemma to_integer_eq: "to_integer a = (if u128w a < 2 ^ 32 then Inr (ucast (u128w a)) else Inl Assert_exception)"
proof -
  have b: "0 \<le> uint (lo a)" "0 \<le> uint (hi a)" by simp_all
  have lo: "lo a = ucast (ucast (lo a) :: 32 word) \<longleftrightarrow> uint (lo a) < 2 ^ 32"
    using b pos_mod_bound [of "2 ^ 32" "uint (lo a)"] mod_pos_pos_trivial [of "uint (lo a)" "2 ^ 32"]
    by (auto simp: word_uint_eq_iff unsigned_ucast_eq take_bit_eq_mod uint_mod_distrib)
  have c: "ucast (u128w a) = (ucast (lo a) :: 32 word)" by (rule bit_word_eqI) (auto simp: bit_simps bit_u128)
  have "u128w a < 2 ^ 32 \<longleftrightarrow> hi a = 0 \<and> uint (lo a) < 2 ^ 32"
  proof -
    have "uint (hi a) * 2 ^ 64 + uint (lo a) < 2 ^ 32 \<longleftrightarrow> uint (hi a) = 0 \<and> uint (lo a) < 2 ^ 32"
    proof (cases "uint (hi a) = 0")
      case False
      with b(2) have "1 \<le> uint (hi a)" by linarith
      then have "1 * 2 ^ 64 \<le> uint (hi a) * 2 ^ 64" by (intro mult_right_mono) auto
      also have "\<dots> \<le> uint (hi a) * 2 ^ 64 + uint (lo a)" using b by simp
      finally show ?thesis using False by simp
    qed simp
    then show ?thesis by (simp add: word_less_def uint_u128 word_uint_eq_iff)
  qed
  with lo c show ?thesis by (auto simp: to_integer_def Let_def)
qed

lemma shl_halves_eq:
  assumes "n < 64"
  shows "u128w (shl_halves n a) = push_bit n (u128w a)"
  using assms by (intro bit_word_eqI) (auto simp: shl_halves_def bit_u128 bit_simps Let_def ac_simps dest: bit_less)

lemma shr_halves_eq:
  assumes "n < 64"
  shows "u128w (shr_halves n a) = drop_bit n (u128w a)"
  using assms by (intro bit_word_eqI) (auto simp: shr_halves_def bit_u128 bit_simps Let_def ac_simps dest: bit_less)

lemma shl_word: "u128w (of_halves (lo a) 0) = push_bit 64 (u128w a)"
  by (rule bit_word_eqI) (auto simp: bit_u128 bit_simps)

lemma shr_word: "u128w (of_halves 0 (hi a)) = drop_bit 64 (u128w a)"
  by (rule bit_word_eqI) (auto simp: bit_u128 bit_simps dest: bit_less)

lemma shift_amount:
  assumes "\<not> u128_ge r (of_int32 128)"
  shows "\<exists>w. to_integer r = Inr w \<and> unat w = unat (u128w r) \<and> unat w < 128"
proof -
  have s: "u128w (of_int32 128) = 128" by code_simp
  with assms have l: "u128w r < 128" by (simp add: u128_ge_iff)
  then have "u128w r < 2 ^ 32" "unat (u128w r) < 128" by (simp_all add: word_less_nat_alt)
  then show ?thesis by (auto simp: to_integer_eq unsigned_ucast_eq take_bit_nat_eq_self)
qed

lemma u128_shl_eq: "\<exists>c. u128_shl a r = Inr c \<and> u128w c = push_bit (unat (u128w r)) (u128w a)"
proof (cases "u128_ge r (of_int32 128)")
  case True
  then have "128 \<le> unat (u128w r)" by (simp add: u128_ge_iff u128_of_int word_le_nat_alt)
  then have "push_bit (unat (u128w r)) (u128w a) = 0" by (intro bit_word_eqI) (auto simp: bit_simps)
  with True show ?thesis by (simp add: u128_shl_def u128_of)
next
  case False
  with shift_amount [OF False] show ?thesis
    by (auto simp: u128_shl_def Let_def bindE_def shl_halves_eq shl_word)
qed

lemma u128_shr_eq: "\<exists>c. u128_shr a r = Inr c \<and> u128w c = drop_bit (unat (u128w r)) (u128w a)"
proof (cases "u128_ge r (of_int32 128)")
  case True
  then have "128 \<le> unat (u128w r)" by (simp add: u128_ge_iff u128_of_int word_le_nat_alt)
  then have "drop_bit (unat (u128w r)) (u128w a) = 0" by (intro bit_word_eqI) (auto simp: bit_simps dest: bit_less)
  with True show ?thesis by (simp add: u128_shr_def u128_of)
next
  case False
  with shift_amount [OF False] show ?thesis by (auto simp: u128_shr_def Let_def bindE_def shr_halves_eq shr_word)
qed

section \<open>Multiplication\<close>

text \<open>The shift of \<open>operator*=\<close> by 32 cannot throw; \<open>shl32\<close> is \<open>operator<<=\<close> at that amount.\<close>

definition shl32 :: "uint128 \<Rightarrow> uint128" where
  "shl32 a = (case u128_shl a (of_int32 0x20) of Inl _ \<Rightarrow> a | Inr r \<Rightarrow> r)"

definition u128_mul :: "uint128 \<Rightarrow> uint128 \<Rightarrow> uint128" where
  "u128_mul a b =
     (let limb = (\<lambda>x :: 64 word. ucast (ucast x :: 32 word) :: 64 word);
          a0 = limb (lo a); a1 = limb (drop_bit 0x20 (lo a)); a2 = limb (hi a); a3 = limb (drop_bit 0x20 (hi a));
          b0 = limb (lo b); b1 = limb (drop_bit 0x20 (lo b)); b2 = limb (hi b); b3 = limb (drop_bit 0x20 (hi b));
          r = of_halves 0 (a3 * b0);
          r = u128_add r (of_uint64 (a2 * b1));
          r = u128_add r (of_uint64 (a1 * b2));
          r = u128_add r (of_uint64 (a0 * b3));
          r = shl32 r;
          r = u128_add r (of_uint64 (a2 * b0));
          r = u128_add r (of_uint64 (a1 * b1));
          r = u128_add r (of_uint64 (a0 * b2));
          r = shl32 r;
          r = u128_add r (of_uint64 (a1 * b0));
          r = u128_add r (of_uint64 (a0 * b1));
          r = shl32 r
      in u128_add r (of_uint64 (a0 * b0)))"

definition full_product :: "uint128 \<Rightarrow> uint128 \<Rightarrow> uint128 \<times> uint128" where
  "full_product a b =
     (let s = u128_mul (of_uint64 (lo a)) (of_uint64 (lo b));
          r = u128_mul (of_uint64 (hi a)) (of_uint64 (lo b));
          q = u128_mul (of_uint64 (lo a)) (of_uint64 (hi b));
          p = u128_mul (of_uint64 (hi a)) (of_uint64 (hi b));
          y0 = lo s;
          acc = u128_add (u128_add (of_uint64 (hi s)) (of_uint64 (lo q))) (of_uint64 (lo r));
          y1 = lo acc;
          acc = u128_add (u128_add (u128_add (of_uint64 (hi acc)) (of_uint64 (hi q))) (of_uint64 (hi r))) (of_uint64 (lo p));
          y2 = lo acc;
          y3 = hi acc + hi p
      in (of_halves y3 y2, of_halves y1 y0))"

lemma shl32_eq [u128_simps]: "u128w (shl32 a) = u128w a * 2 ^ 32"
proof -
  have "unat (u128w (of_int32 0x20)) = 32" by code_simp
  with u128_shl_eq [of a "of_int32 0x20"] show ?thesis by (auto simp: shl32_def push_bit_eq_mult)
qed

definition limb :: "64 word \<Rightarrow> 64 word" where
  "limb x = ucast (ucast x :: 32 word)"

lemma uint_limb: "uint (limb x) = uint x mod 2 ^ 32" "0 \<le> uint (limb x)" "uint (limb x) < 2 ^ 32"
  by (simp_all add: limb_def unsigned_ucast_eq take_bit_eq_mod uint_mod_distrib)

lemma ucast_limb_mult: "ucast (limb x * limb y) = (ucast (limb x) * ucast (limb y) :: 128 word)"
proof (rule word_uint_eqI)
  have "uint (limb x) * uint (limb y) < 2 ^ 32 * 2 ^ 32" using uint_limb by (intro mult_strict_mono) auto
  then show "uint (ucast (limb x * limb y) :: 128 word) = uint (ucast (limb x) * ucast (limb y) :: 128 word)"
    using uint_limb by (simp add: uint_word_ariths unsigned_ucast_eq take_bit_eq_mod)
qed

lemma div_int_less: "0 \<le> x \<Longrightarrow> x < 2 ^ 64 \<Longrightarrow> x div 2 ^ 32 mod 2 ^ 32 = x div (2 ^ 32 :: int)"
  by simp

lemma u128_limbs:
  "u128w a = ucast (limb (lo a)) + ucast (limb (drop_bit 32 (lo a))) * 2 ^ 32 +
     ucast (limb (hi a)) * 2 ^ 64 + ucast (limb (drop_bit 32 (hi a))) * 2 ^ 96"
proof -
  have half: "(ucast x :: 128 word) = ucast (limb x) + ucast (limb (drop_bit 32 x)) * 2 ^ 32" for x :: "64 word"
  proof (rule word_uint_eqI)
    have x: "0 \<le> uint x" "uint x < 2 ^ 64" using uint64_less by auto
    have d: "uint (limb (drop_bit 32 x)) = uint x div 2 ^ 32"
      using x div_int_less [of "uint x"] by (simp add: uint_limb(1) unsigned_drop_bit_eq drop_bit_eq_div uint_div_distrib)
    have "uint x mod 2 ^ 32 + uint x div 2 ^ 32 * 2 ^ 32 = uint x" by simp
    then show "uint (ucast x :: 128 word) = uint (ucast (limb x) + ucast (limb (drop_bit 32 x)) * 2 ^ 32 :: 128 word)"
      using x d uint_limb(1) [of x] by (simp add: uint_word_ariths unsigned_ucast_eq take_bit_eq_mod mod_simps)
  qed
  have "u128w a = ucast (hi a) * 2 ^ 64 + ucast (lo a)"
    by (rule word_uint_eqI) (use uint64_less [of "hi a"] uint64_less [of "lo a"] in
      \<open>simp add: uint_u128 uint_word_ariths unsigned_ucast_eq take_bit_eq_mod\<close>)
  then show ?thesis using half [of "hi a"] half [of "lo a"] by (simp add: algebra_simps)
qed

lemma u128_mul_eq [u128_simps]: "u128w (u128_mul a b) = u128w a * u128w b"
proof -
  have z: "u128w (of_halves 0 x) = ucast x" for x using u128_of(1) [of x] by (simp add: of_uint64_def)
  have o: "340282366920938463463374607431768211456 = (0 :: 128 word)" "1461501637330902918203684832716283019655932542976 = (0 :: 128 word)"
    "6277101735386680763835789423207666416102355444464034512896 = (0 :: 128 word)" by (rule word_uint_eqI, simp)+
  show ?thesis
    unfolding u128_mul_def Let_def limb_def [symmetric] u128_simps z ucast_limb_mult
    unfolding u128_limbs [of a] u128_limbs [of b] by (simp add: algebra_simps o)
qed


lemma mul_halves: "uint (hi c) * 2 ^ 64 + uint (lo c) = uint x * uint y" if "c = u128_mul (of_uint64 x) (of_uint64 y)" for x y
proof -
  have b: "uint x * uint y < 2 ^ 64 * 2 ^ 64" using uint64_less by (intro mult_strict_mono) auto
  have "uint (u128w c) = uint x * uint y"
    using b uint64_less [of x] uint64_less [of y]
    by (simp add: that u128_simps uint_word_ariths unsigned_ucast_eq take_bit_eq_mod)
  then show ?thesis by (simp add: uint_u128)
qed

lemma add_halves:
  assumes "uint (u128w a) + uint x < 2 ^ 128"
  shows "uint (u128w (u128_add a (of_uint64 x))) = uint (u128w a) + uint x"
  using assms uint64_less [of x] by (simp add: u128_simps uint_word_ariths unsigned_ucast_eq take_bit_eq_mod)

lemma top_digit_less:
  fixes k M w x y T :: int
  assumes "T = (k * M + w) * (M * M) + x * M + y" "T < (M * M) * (M * M)" "0 \<le> w" "0 \<le> x" "0 \<le> y" "0 < M"
  shows "k < M"
proof (rule ccontr)
  assume "\<not> k < M"
  then have "M * (M * M * M) \<le> k * (M * M * M)" using assms(6) by (intro mult_right_mono) auto
  moreover have "k * (M * M * M) \<le> T" using assms by (simp add: algebra_simps)
  ultimately show False using assms(2) by (simp add: algebra_simps)
qed

lemma full_product_eq:
  assumes "full_product a b = (h, l)"
  shows "uint (u128w h) * 2 ^ 128 + uint (u128w l) = uint (u128w a) * uint (u128w b)"
proof -
  define s r q p where "s = u128_mul (of_uint64 (lo a)) (of_uint64 (lo b))" and "r = u128_mul (of_uint64 (hi a)) (of_uint64 (lo b))"
    and "q = u128_mul (of_uint64 (lo a)) (of_uint64 (hi b))" and "p = u128_mul (of_uint64 (hi a)) (of_uint64 (hi b))"
  define c1 where "c1 = u128_add (u128_add (of_uint64 (hi s)) (of_uint64 (lo q))) (of_uint64 (lo r))"
  define c2 where "c2 = u128_add (u128_add (u128_add (of_uint64 (hi c1)) (of_uint64 (hi q))) (of_uint64 (hi r))) (of_uint64 (lo p))"
  note bs = uint64_less
  have o: "uint (u128w (of_uint64 x)) = uint x" for x
    using bs [of x] by (simp add: u128_simps unsigned_ucast_eq take_bit_eq_mod)
  have c1: "uint (hi c1) * 2 ^ 64 + uint (lo c1) = uint (hi s) + uint (lo q) + uint (lo r)"
    unfolding uint_u128 [symmetric] c1_def using bs [of "hi s"] bs [of "lo q"] bs [of "lo r"] by (simp add: add_halves o)
  have c2: "uint (hi c2) * 2 ^ 64 + uint (lo c2) = uint (hi c1) + uint (hi q) + uint (hi r) + uint (lo p)"
    unfolding uint_u128 [symmetric] c2_def using bs [of "hi c1"] bs [of "hi q"] bs [of "hi r"] bs [of "lo p"]
    by (simp add: add_halves o)
  have hl: "h = of_halves (hi c2 + hi p) (lo c2)" "l = of_halves (lo c1) (lo s)"
    using assms by (simp_all add: full_product_def Let_def s_def r_def q_def p_def c1_def c2_def)
  let ?P = "uint (u128w a) * uint (u128w b)" and ?T = "(uint (hi c2) + uint (hi p)) * 2 ^ 64 + uint (lo c2)"
  have "?P = ?T * 2 ^ 128 + uint (lo c1) * 2 ^ 64 + uint (lo s)"
    using mul_halves [OF s_def] mul_halves [OF r_def] mul_halves [OF q_def] mul_halves [OF p_def] c1 c2
    unfolding uint_u128 by algebra
  moreover have "?P < 2 ^ 128 * 2 ^ 128" using unsigned_less [of "u128w a"] unsigned_less [of "u128w b"] by (intro mult_strict_mono) auto
  moreover have "0 \<le> uint (lo c1)" "0 \<le> uint (lo s)" "0 \<le> uint (lo c2)" "0 \<le> uint (hi c2)" "0 \<le> uint (hi p)" by simp_all
  ultimately have "uint (hi c2) + uint (hi p) < 2 ^ 64"
    using top_digit_less [of ?P "uint (hi c2) + uint (hi p)" "2 ^ 64" "uint (lo c2)" "uint (lo c1)" "uint (lo s)"] by simp
  then have "uint (hi c2 + hi p) = uint (hi c2) + uint (hi p)" by (simp add: uint_plus_if')
  with \<open>?P = _\<close> show ?thesis by (simp add: hl uint_u128)
qed


section \<open>Population count\<close>

definition popcount_masks :: "64 word list" where
  "popcount_masks = [0x5555555555555555, 0x3333333333333333, 0x0F0F0F0F0F0F0F0F, 0x00FF00FF00FF00FF, 0x0000FFFF0000FFFF,
     0x00000000FFFFFFFF]"

fun popcount_loop :: "64 word list \<Rightarrow> nat \<Rightarrow> 64 word \<Rightarrow> 64 word" where
  "popcount_loop [] w x = x"
| "popcount_loop (m # ms) w x = popcount_loop ms (w + w) ((x AND m) + (drop_bit w x AND m))"

definition popcount_64 :: "64 word \<Rightarrow> 8 word" where
  "popcount_64 x = ucast (popcount_loop popcount_masks 1 x)"

definition popcount :: "uint128 \<Rightarrow> 8 word" where
  "popcount a = popcount_64 (lo a) + popcount_64 (hi a)"

text \<open>The sum of the first \<open>n\<close> fields of width \<open>w\<close>, the mask of the even fields, and one round of the loop.\<close>

primrec field_sum :: "nat \<Rightarrow> nat \<Rightarrow> int \<Rightarrow> int" where
  "field_sum w 0 x = 0"
| "field_sum w (Suc n) x = take_bit w x + field_sum w n (drop_bit w x)"

primrec even_fields :: "nat \<Rightarrow> nat \<Rightarrow> int" where
  "even_fields w 0 = 0"
| "even_fields w (Suc n) = mask w + push_bit (2 * w) (even_fields w n)"

definition pair_fields :: "nat \<Rightarrow> int \<Rightarrow> int \<Rightarrow> int" where
  "pair_fields w m x = (x AND m) + (drop_bit w x AND m)"

lemma and_even_fields:
  "x AND even_fields w (Suc n) = take_bit w x + push_bit (2 * w) (drop_bit (2 * w) x AND even_fields w n)"
proof -
  let ?m = "even_fields w n"
  have e: "even_fields w (Suc n) = mask w OR push_bit (2 * w) ?m"
    by (simp add: disjunctive_add_eq_or bit_eq_iff bit_simps)
  have "x AND even_fields w (Suc n) = take_bit w x OR push_bit (2 * w) (drop_bit (2 * w) x AND ?m)"
    unfolding e by (rule bit_eqI) (auto simp: bit_simps)
  also have "\<dots> = take_bit w x + push_bit (2 * w) (drop_bit (2 * w) x AND ?m)"
    by (rule disjunctive_add_eq_or [symmetric]) (auto simp: bit_eq_iff bit_simps)
  finally show ?thesis .
qed

lemma pair_fields_Suc:
  "pair_fields w (even_fields w (Suc n)) x =
     (take_bit w x + take_bit w (drop_bit w x)) + 2 ^ (2 * w) * pair_fields w (even_fields w n) (drop_bit (2 * w) x)"
  unfolding pair_fields_def and_even_fields by (simp add: push_bit_eq_mult algebra_simps)

lemma field_sum_pair:
  assumes "0 < w"
  shows "field_sum (2 * w) n (pair_fields w (even_fields w n) x) = field_sum w (2 * n) x"
proof (induction n arbitrary: x)
  case (Suc n)
  let ?a = "take_bit w x + take_bit w (drop_bit w x)" and ?r = "pair_fields w (even_fields w n) (drop_bit (2 * w) x)"
  have "take_bit w x < 2 ^ w" "take_bit w (drop_bit w x) < 2 ^ w" by simp_all
  moreover have "2 * 2 ^ w \<le> (2 ^ (2 * w) :: int)" using assms power_increasing [of "Suc w" "2 * w" "2 :: int"] by simp
  ultimately have a: "?a < 2 ^ (2 * w)" by linarith
  have "take_bit (2 * w) (?a + 2 ^ (2 * w) * ?r) = ?a" "drop_bit (2 * w) (?a + 2 ^ (2 * w) * ?r) = ?r"
    using a by (simp_all add: take_bit_eq_mod drop_bit_eq_div)
  then have "field_sum (2 * w) (Suc n) (pair_fields w (even_fields w (Suc n)) x) = ?a + field_sum (2 * w) n ?r"
    by (simp only: field_sum.simps pair_fields_Suc)
  also have "\<dots> = field_sum w (2 * Suc n) x" using Suc.IH [of "drop_bit (2 * w) x"] by (simp add: mult_2)
  finally show ?case .
qed simp

lemma even_fields_nonneg: "0 \<le> even_fields w n"
  by (induction n) auto

lemma popcount_round:
  assumes "uint m = even_fields w n" "even_fields w n + even_fields w n < 2 ^ 64"
  shows "uint ((x AND m) + (drop_bit w x AND m)) = pair_fields w (even_fields w n) (uint (x :: 64 word))"
proof -
  have a: "uint (y AND m) = uint y AND even_fields w n" for y by (simp add: unsigned_and_eq assms(1))
  have le: "uint (y AND m) \<le> even_fields w n" for y unfolding a by (rule AND_upper2 [OF even_fields_nonneg])
  have d: "uint (drop_bit w x) = drop_bit w (uint x)" using uint64_less [of x] by (simp add: unsigned_drop_bit_eq take_bit_int_eq_self)
  have "uint (x AND m) + uint (drop_bit w x AND m) < 2 ^ 64"
    using le [of x] le [of "drop_bit w x"] assms(2) by linarith
  then show ?thesis using a [of x] a [of "drop_bit w x"] d by (simp add: uint_plus_if' pair_fields_def)
qed

lemma popcount_masks_fields:
  "map uint popcount_masks =
     [even_fields 1 32, even_fields 2 16, even_fields 4 8, even_fields 8 4, even_fields 16 2, even_fields 32 1]"
  by code_simp

lemma popcount_loop_step:
  assumes "\<And>y. uint (popcount_loop ms w' y) = field_sum w' n (uint y)"
    "uint m = even_fields w n" "even_fields w n + even_fields w n < 2 ^ 64" "0 < w" "w' = 2 * w" "n' = 2 * n"
  shows "uint (popcount_loop (m # ms) w x) = field_sum w n' (uint x)"
  using assms(1) field_sum_pair [OF assms(4)] by (simp add: popcount_round [OF assms(2,3)] assms(5,6) mult_2)

lemma popcount_loop_sum: "uint (popcount_loop popcount_masks 1 x) = field_sum 1 64 (uint x)"
proof -
  have b: "\<forall>(w, n) \<in> set [(1, 32), (2, 16), (4, 8), (8, 4), (16, 2), (32, 1)]. even_fields w n + even_fields w n < 2 ^ 64"
    by code_simp
  note m = popcount_masks_fields [unfolded popcount_masks_def list.map list.inject]
  have "uint (popcount_loop [] 64 y) = field_sum 64 1 (uint y)" for y
    using uint64_less [of y] by (simp add: take_bit_eq_mod)
  note s = popcount_loop_step [OF this, of _ 32 2] 
  note s = popcount_loop_step [OF s, of _ _ 16 4] 
  note s = popcount_loop_step [OF s, of _ _ _ 8 8]
  note s = popcount_loop_step [OF s, of _ _ _ _ 4 16]
  note s = popcount_loop_step [OF s, of _ _ _ _ _ 2 32]
  note s = popcount_loop_step [OF s, of _ _ _ _ _ _ 1 64]
  show ?thesis unfolding popcount_masks_def using m b by (intro s) simp_all
qed

lemma bit_int_less: "0 \<le> k \<Longrightarrow> k < 2 ^ n \<Longrightarrow> bit (k :: int) i \<Longrightarrow> i < n"
  by (metis bit_take_bit_iff take_bit_int_eq_self)

lemma field_sum_bits:
  assumes "0 \<le> k" "k < 2 ^ n"
  shows "field_sum 1 n k = int (card {i. bit k i})"
  using assms
proof (induction n arbitrary: k)
  case 0
  then have "k = 0" by simp
  then show ?case by simp
next
  case (Suc n)
  have "drop_bit 1 k < 2 ^ n" "0 \<le> drop_bit 1 k" using Suc.prems by (simp_all add: drop_bit_eq_div)
  note ih = Suc.IH [OF this(2,1)]
  have fin: "finite {i. bit (drop_bit 1 k) i}" 
    by (rule finite_subset [of _ "{..<n}"])
      (use bit_int_less [OF \<open>0 \<le> drop_bit 1 k\<close> \<open>drop_bit 1 k < 2 ^ n\<close>] in blast, simp)
  have "{i. bit k i} = (if odd k then {0} else {}) \<union> Suc ` {i. bit (drop_bit 1 k) i}"
    by (auto simp: bit_simps image_iff bit_0 split: if_splits) (metis bit_0 not0_implies_Suc)+
  then have "card {i. bit k i} = of_bool (odd k) + card {i. bit (drop_bit 1 k) i}"
    using fin by (simp add: card_image)
  then show ?case using ih by (simp add: take_bit_Suc mod_2_eq_odd)
qed

lemma popcount_64_card: "uint (popcount_64 x) = int (card {i. bit x i})" "card {i. bit x i} \<le> 64"
proof -
  have sub: "{i. bit x i} \<subseteq> {..<64}" by (auto dest: bit_less)
  then show c: "card {i. bit x i} \<le> 64" using card_mono [OF finite_lessThan sub] by simp
  have "field_sum 1 64 (uint x) = int (card {i. bit (uint x) i})"
    using uint64_less [of x] by (intro field_sum_bits) auto
  with popcount_loop_sum [of x] have "uint (popcount_loop popcount_masks 1 x) = int (card {i. bit x i})" by (simp add: bit_simps)
  with c show "uint (popcount_64 x) = int (card {i. bit x i})"
    by (simp add: popcount_64_def unsigned_ucast_eq take_bit_eq_mod)
qed

lemma popcount_card: "unat (popcount a) = card {i. bit (u128w a) i}"
proof -
  have fin: "finite {i. bit x i}" for x :: "64 word" by (rule finite_subset [of _ "{..<64}"]) (auto dest: bit_less)
  have "{i. bit (u128w a) i} = {i. bit (lo a) i} \<union> (\<lambda>i. i + 64) ` {i. bit (hi a) i}"
    by (auto simp: bit_u128 image_iff dest: bit_less split: if_splits) (metis le_add_diff_inverse2 linorder_not_less)
  moreover have "{i. bit (lo a) i} \<inter> (\<lambda>i. i + 64) ` {i. bit (hi a) i} = {}" by (auto dest: bit_less)
  ultimately have "card {i. bit (u128w a) i} = card {i. bit (lo a) i} + card {i. bit (hi a) i}"
    using fin by (simp add: card_Un_disjoint card_image)
  moreover have "uint (popcount a) = uint (popcount_64 (lo a)) + uint (popcount_64 (hi a))"
    using popcount_64_card [of "lo a"] popcount_64_card [of "hi a"] by (simp add: popcount_def uint_plus_if')
  ultimately have "uint (popcount a) = int (card {i. bit (u128w a) i})" using popcount_64_card(1) by simp
  then show ?thesis by (metis nat_int unat_eq_nat_uint)
qed

section \<open>Division\<close>

text \<open>\<open>divide\<close>: shift the divisor up while it fits, then subtract it at every place on the way down. The shifts by one and by
  127 cannot throw.\<close>

definition shl1 :: "uint128 \<Rightarrow> uint128" where
  "shl1 a = (case u128_shl a (of_int32 1) of Inl _ \<Rightarrow> a | Inr r \<Rightarrow> r)"

definition shr1 :: "uint128 \<Rightarrow> uint128" where
  "shr1 a = (case u128_shr a (of_int32 1) of Inl _ \<Rightarrow> a | Inr r \<Rightarrow> r)"

definition top_bit_clear :: "uint128 \<Rightarrow> bool" where
  "top_bit_clear d = (case u128_shr d (of_int32 127) of Inl _ \<Rightarrow> False
     | Inr r \<Rightarrow> u128_and_eq r (of_int32 1) = of_int32 0)"

partial_function (option) divide_up :: "uint128 \<Rightarrow> uint128 \<Rightarrow> uint128 \<Rightarrow> (uint128 \<times> uint128) option" where
  "divide_up n x d =
     (if u128_ge n d \<and> top_bit_clear d then divide_up n (shl1 x) (shl1 d) else Some (x, d))"

partial_function (option) divide_down ::
  "uint128 \<Rightarrow> uint128 \<Rightarrow> uint128 \<Rightarrow> uint128 \<Rightarrow> (uint128 \<times> uint128) option" where
  "divide_down n x d answer =
     (if x \<noteq> of_int32 0 then
        let (n', answer') = (if u128_ge n d then (u128_sub n d, u128_or_eq answer x) else (n, answer))
        in divide_down n' (shr1 x) (shr1 d) answer'
      else Some (answer, n))"

definition divide128 :: "uint128 \<Rightarrow> uint128 \<Rightarrow> (uint128 \<times> uint128) result option" where
  "divide128 numerator denominator =
     (if denominator = of_int32 0 then Some (Inl Std_exception)
      else case divide_up numerator (of_int32 1) denominator of
        None \<Rightarrow> None
      | Some (x, d) \<Rightarrow> map_option Inr (divide_down numerator x d (of_int32 0)))"

declare divide_up.simps [code] divide_down.simps [code]

lemma shift_one [u128_simps]: "u128w (shl1 a) = 2 * u128w a" "u128w (shr1 a) = drop_bit 1 (u128w a)"
proof -
  have "unat (u128w (of_int32 1)) = 1" by code_simp
  with u128_shl_eq [of a "of_int32 1"] u128_shr_eq [of a "of_int32 1"]
  show "u128w (shl1 a) = 2 * u128w a" "u128w (shr1 a) = drop_bit 1 (u128w a)" by (auto simp: shl1_def shr1_def push_bit_eq_mult)
qed

lemma top_bit_clear_iff: "top_bit_clear d \<longleftrightarrow> uint (u128w d) < 2 ^ 127"
proof -
  have v: "unat (u128w (of_int32 127)) = 127" "u128w (of_int32 1) = 1" "u128w (of_int32 0) = 0" by code_simp+
  obtain r where r: "u128_shr d (of_int32 127) = Inr r" "u128w r = drop_bit 127 (u128w d)"
    using u128_shr_eq [of d "of_int32 127"] v by auto
  have "top_bit_clear d \<longleftrightarrow> drop_bit 127 (u128w d) AND 1 = 0"
    using r v by (simp add: top_bit_clear_def u128_inject [symmetric] u128_and_eq_eq)
  also have "\<dots> \<longleftrightarrow> \<not> bit (u128w d) 127" by (simp add: and_one_eq bit_simps mod_2_eq_odd flip: bit_0)
  also have "\<dots> \<longleftrightarrow> uint (u128w d) < 2 ^ 127"
  proof -
    have "take_bit 127 (uint (u128w d)) = uint (u128w d) \<longleftrightarrow> \<not> bit (uint (u128w d)) 127"
      using bit_imp_le_length [of "u128w d"] by (auto simp: bit_eq_iff bit_simps) (metis less_antisym numeral_eq_Suc pred_numeral_simps(2,3) Suc_numeral semiring_norm(26-28))
    then show ?thesis by (simp add: take_bit_int_eq_self_iff bit_simps)
  qed
  finally show ?thesis .
qed


abbreviation u128_val :: "uint128 \<Rightarrow> int" where
  "u128_val a \<equiv> uint (u128w a)"

lemma u128_val_bounds: "0 \<le> u128_val a" "u128_val a < 2 ^ 128"
  using unsigned_less [of "u128w a"] by auto

lemma u128_val_ge: "u128_ge a b \<longleftrightarrow> u128_val b \<le> u128_val a"
  by (simp add: u128_ge_iff word_le_def)

lemma u128_val_shl1: "u128_val a < 2 ^ 127 \<Longrightarrow> u128_val (shl1 a) = 2 * u128_val a"
  by (simp add: u128_simps uint_word_ariths)

lemma u128_val_shr1: "u128_val (shr1 a) = u128_val a div 2"
  by (simp add: u128_simps uint_div_distrib drop_bit_Suc flip: One_nat_def) (simp add: drop_bit_eq_div uint_div_distrib)

lemma u128_val_sub: "u128_val b \<le> u128_val a \<Longrightarrow> u128_val (u128_sub a b) = u128_val a - u128_val b"
  by (simp add: u128_simps uint_sub_if')

lemma u128_val_const: "u128_val (of_int32 0) = 0" "u128_val (of_int32 1) = 1" "u128_val (of_int32 10) = 10"
  by code_simp+

lemma u128_val_eq_iff: "a = b \<longleftrightarrow> u128_val a = u128_val b"
  by (metis u128_inject word_uint_eqI)

lemma u128_val_or:
  assumes "u128_val a = 2 ^ (k + 1) * m" "u128_val x = 2 ^ k"
  shows "u128_val (u128_or_eq a x) = u128_val a + 2 ^ k"
proof -
  have "push_bit j m OR push_bit k 1 = push_bit j m + (push_bit k 1 :: int)" if "k < j" for j
    using that by (intro disjunctive_add_eq_or [symmetric] bit_eqI) (auto simp: bit_simps)
  from this [of "k + 1"] have "2 ^ (k + 1) * m OR 2 ^ k = 2 ^ (k + 1) * m + (2 ^ k :: int)" by (simp add: push_bit_eq_mult mult.commute)
  with assms show ?thesis by (simp add: u128_simps unsigned_or_eq)
qed

lemma divide_up_ok:
  assumes "0 < d0" "u128_val d = d0 * 2 ^ k" "u128_val x = 2 ^ k"
  shows "\<exists>j x' d'. divide_up n x d = Some (x', d') \<and> u128_val x' = 2 ^ j \<and> u128_val d' = d0 * 2 ^ j \<and>
    u128_val n < 2 * u128_val d'"
  using assms
proof (induction "128 - k" arbitrary: k x d rule: less_induct)
  case less
  show ?case
  proof (cases "u128_ge n d \<and> top_bit_clear d")
    case True
    then have t: "u128_val d < 2 ^ 127" by (simp add: top_bit_clear_iff)
    have "1 * 2 ^ k \<le> d0 * 2 ^ k" using less.prems by (intro mult_right_mono) auto
    with t less.prems have x: "u128_val x < 2 ^ 127" "(2 :: int) ^ k < 2 ^ 127" by linarith+
    then have k: "k < 127" by (metis one_less_numeral_iff power_less_imp_less_exp semiring_norm(76))
    have "\<exists>j x' d'. divide_up n (shl1 x) (shl1 d) = Some (x', d') \<and> u128_val x' = 2 ^ j \<and> u128_val d' = d0 * 2 ^ j \<and>
        u128_val n < 2 * u128_val d'"
      using less.hyps [of "k + 1" "shl1 d" "shl1 x"] less.prems k u128_val_shl1 [OF t] u128_val_shl1 [OF x(1)] by simp
    with True show ?thesis by (simp add: divide_up.simps [of n x d])
  next
    case False
    then consider "u128_val n < u128_val d" | "2 ^ 127 \<le> u128_val d" by (auto simp: u128_val_ge top_bit_clear_iff)
    then have "u128_val n < 2 * u128_val d"
      using u128_val_bounds(1) [of n] u128_val_bounds(2) [of n] by cases (linarith, simp)
    with False less.prems show ?thesis by (auto simp: divide_up.simps [of n x d])
  qed
qed

lemma divide_down_ok:
  assumes "0 < d0" "u128_val x = 2 ^ k" "u128_val d = d0 * 2 ^ k" "u128_val n < 2 * u128_val d" "u128_val ans = 2 ^ (k + 1) * m"
  shows "\<exists>q r. divide_down n x d ans = Some (q, r) \<and> u128_val q = u128_val ans + u128_val n div d0 \<and> u128_val r = u128_val n mod d0"
  using assms(2-)
proof (induction k arbitrary: x d n ans m)
  case 0
  define n' ans' where "n' = (if u128_ge n d then u128_sub n d else n)" and "ans' = (if u128_ge n d then u128_or_eq ans x else ans)"
  have x: "x \<noteq> of_int32 0" "shr1 x = of_int32 0" using 0 by (auto simp: u128_val_eq_iff u128_val_const u128_val_shr1)
  have "divide_down n x d ans = Some (ans', n')"
    using x by (simp add: divide_down.simps [of n x] divide_down.simps [of _ "of_int32 0"] n'_def ans'_def)
  moreover have "u128_val n' = u128_val n mod d0 \<and> u128_val ans' = u128_val ans + u128_val n div d0"
  proof (cases "d0 \<le> u128_val n")
    case True
    have "u128_val n = 1 * d0 + (u128_val n - d0)" by simp
    moreover have "0 \<le> u128_val n - d0" "u128_val n - d0 < d0" using True 0 by auto
    ultimately have "u128_val n div d0 = 1" "u128_val n mod d0 = u128_val n - d0"
      by (metis div_mult_self3 div_pos_pos_trivial add.commute assms(1) less_irrefl add_0 add.right_neutral, metis mod_mult_self3 mod_pos_pos_trivial)
    with True 0 show ?thesis using u128_val_or [of ans 0 m x] u128_val_sub [of d n]
      by (simp add: n'_def ans'_def u128_val_ge)
  next
    case False
    with 0 show ?thesis using u128_val_bounds(1) [of n] by (simp add: n'_def ans'_def u128_val_ge)
  qed
  ultimately show ?case by blast
next
  case (Suc k)
  define b where "b = u128_ge n d"
  define n' ans' where "n' = (if b then u128_sub n d else n)" and "ans' = (if b then u128_or_eq ans x else ans)"
  have x: "x \<noteq> of_int32 0" "u128_val (shr1 x) = 2 ^ k" "u128_val (shr1 d) = d0 * 2 ^ k"
    using Suc.prems by (auto simp: u128_val_eq_iff u128_val_const u128_val_shr1)
  have n': "u128_val n' = u128_val n - of_bool b * (d0 * 2 ^ Suc k)" "u128_val n' < 2 * u128_val (shr1 d)"
    using Suc.prems u128_val_sub [of d n] x by (auto simp: n'_def b_def u128_val_ge)
  have ans': "u128_val ans' = u128_val ans + of_bool b * 2 ^ Suc k" "u128_val ans' = 2 ^ (k + 1) * (2 * m + of_bool b)"
    using Suc.prems u128_val_or [of ans "Suc k" m x] by (auto simp: ans'_def b_def algebra_simps)
  from Suc.IH [OF x(2,3) n'(2) ans'(2)] obtain q r where ih: "divide_down n' (shr1 x) (shr1 d) ans' = Some (q, r)"
    "u128_val q = u128_val ans' + u128_val n' div d0" "u128_val r = u128_val n' mod d0" by blast
  have "divide_down n x d ans = Some (q, r)"
    using x(1) ih(1) by (simp add: divide_down.simps [of n x] n'_def ans'_def b_def split: if_splits)
  moreover have "u128_val n = u128_val n' + (of_bool b * 2 ^ Suc k) * d0" using n' by (simp add: algebra_simps)
  ultimately show ?case using ih ans' assms(1) by simp
qed

lemma divide_ok:
  "divide128 n d = (if u128_val d = 0 then Some (Inl Std_exception) else divide128 n d)"
  "u128_val d \<noteq> 0 \<Longrightarrow> \<exists>q r. divide128 n d = Some (Inr (q, r)) \<and> u128_val q = u128_val n div u128_val d \<and> u128_val r = u128_val n mod u128_val d"
proof -
  have z: "d = of_int32 0 \<longleftrightarrow> u128_val d = 0" by (simp add: u128_val_eq_iff u128_val_const)
  then show "divide128 n d = (if u128_val d = 0 then Some (Inl Std_exception) else divide128 n d)" by (simp add: divide128_def)
  assume nz: "u128_val d \<noteq> 0"
  then have p: "0 < u128_val d" using u128_val_bounds(1) [of d] by linarith
  from divide_up_ok [OF p, of d 0 "of_int32 1" n] obtain j x' d' where
    u: "divide_up n (of_int32 1) d = Some (x', d')" "u128_val x' = 2 ^ j" "u128_val d' = u128_val d * 2 ^ j"
      "u128_val n < 2 * u128_val d'" by (auto simp: u128_val_const)
  from divide_down_ok [OF p u(2,3,4), of "of_int32 0" 0] u(1) z nz
  show "\<exists>q r. divide128 n d = Some (Inr (q, r)) \<and> u128_val q = u128_val n div u128_val d \<and> u128_val r = u128_val n mod u128_val d"
    by (auto simp: divide128_def u128_val_const)
qed

section \<open>Strings\<close>

text \<open>\<open>operator std::string\<close> fills a buffer of 128 characters from the end; \<open>uint128( const std::string& )\<close> reads an optional
  sign, an optional radix prefix (\<open>0\<close> or \<open>0x\<close>) and digits up to the first character that is none.\<close>

definition digit_char :: "nat \<Rightarrow> char" where
  "digit_char d = ''0123456789abcdefghijklmnopqrstuvwxyz'' ! d"

fun u128_digits :: "nat \<Rightarrow> uint128 \<Rightarrow> string \<Rightarrow> string result option" where
  "u128_digits i ii buf =
     (if ii \<noteq> of_int32 0 \<and> i \<noteq> 0 then
        (case divide128 ii (of_int32 10) of
           None \<Rightarrow> None
         | Some (Inl e) \<Rightarrow> Some (Inl e)
         | Some (Inr (q, remainder)) \<Rightarrow>
             (case to_integer remainder of
                Inl e \<Rightarrow> Some (Inl e)
              | Inr d \<Rightarrow> u128_digits (i - 1) q (digit_char (unat d) # buf)))
      else Some (Inr buf))"

declare u128_digits.simps [simp del]

definition u128_to_string :: "uint128 \<Rightarrow> string result option" where
  "u128_to_string a = (if a = of_int32 0 then Some (Inr ''0'') else u128_digits 127 a [])"

definition char_digit :: "nat \<Rightarrow> char \<Rightarrow> nat option" where
  "char_digit radix ch =
     (let c = of_char ch :: nat in
      if 65 \<le> c \<and> c \<le> 90 then (if c - 65 + 10 < radix then Some (c - 65 + 10) else None)
      else if 97 \<le> c \<and> c \<le> 122 then (if c - 97 + 10 < radix then Some (c - 97 + 10) else None)
      else if 48 \<le> c \<and> c \<le> 57 then (if c - 48 < radix then Some (c - 48) else None)
      else None)"

primrec parse_digits :: "nat \<Rightarrow> string \<Rightarrow> uint128 \<Rightarrow> uint128" where
  "parse_digits radix [] r = r"
| "parse_digits radix (ch # cs) r = (case char_digit radix ch of
     None \<Rightarrow> r
   | Some n \<Rightarrow> parse_digits radix cs (u128_add (u128_mul r (of_int32 (of_nat radix))) (of_uint32 (of_nat n))))"

definition parse_radix :: "string \<Rightarrow> uint128" where
  "parse_radix cs = (case cs of
     [] \<Rightarrow> of_halves 0 0
   | c # cs' \<Rightarrow>
       if c = CHR ''0'' then
         (case cs' of
            [] \<Rightarrow> parse_digits 8 [] (of_halves 0 0)
          | x # cs'' \<Rightarrow> if x = CHR ''x'' then parse_digits 16 cs'' (of_halves 0 0) else parse_digits 8 cs' (of_halves 0 0))
       else parse_digits 10 cs (of_halves 0 0))"

definition u128_of_string :: "string \<Rightarrow> uint128" where
  "u128_of_string sz = (case sz of
     [] \<Rightarrow> of_halves 0 0
   | c # cs \<Rightarrow> if c = CHR ''-'' then u128_neg (parse_radix cs) else parse_radix sz)"

definition is_decimal :: "string \<Rightarrow> bool" where
  "is_decimal ds \<longleftrightarrow> (\<forall>c \<in> set ds. char_digit 10 c \<noteq> None)"

definition dec_value :: "string \<Rightarrow> int" where
  "dec_value ds = foldl (\<lambda>v c. v * 10 + int (the (char_digit 10 c))) 0 ds"

lemma dec_value_snoc [simp]: "dec_value (ds @ [c]) = dec_value ds * 10 + int (the (char_digit 10 c))" "dec_value [] = 0"
  by (simp_all add: dec_value_def)

lemma foldl_dec: "foldl (\<lambda>v c. v * 10 + int (the (char_digit 10 c))) v ds = v * 10 ^ length ds + dec_value ds"
  by (induction ds rule: rev_induct) (simp_all add: algebra_simps)

lemma dec_value_Cons [simp]: "dec_value (c # ds) = int (the (char_digit 10 c)) * 10 ^ length ds + dec_value ds"
  using foldl_dec [of "int (the (char_digit 10 c))" ds] by (simp add: dec_value_def)

lemma parse_decimal:
  assumes "is_decimal ds"
  shows "u128w (parse_digits 10 ds r) = u128w r * 10 ^ length ds + of_int (dec_value ds)"
  using assms
proof (induction ds arbitrary: r)
  case (Cons c ds)
  then obtain n where n: "char_digit 10 c = Some n" "is_decimal ds" by (auto simp: is_decimal_def)
  then have "n < 10" by (auto simp: char_digit_def Let_def split: if_splits)
  have "u128w (of_int32 10) = 10" by code_simp
  moreover have "u128w (of_uint32 (of_nat n)) = of_nat n"
    using \<open>n < 10\<close> by (auto simp: u128_of word_uint_eq_iff unsigned_ucast_eq unsigned_of_nat take_bit_eq_mod)
  ultimately show ?case using n Cons.IH [of "u128_add (u128_mul r (of_int32 10)) (of_uint32 (of_nat n))"]
    by (simp add: u128_add_eq u128_mul_eq algebra_simps)
qed (simp add: is_decimal_def)

lemma digit_char_digit:
  assumes "d < 10"
  shows "char_digit 10 (digit_char d) = Some d" "digit_char d = CHR ''0'' \<longleftrightarrow> d = 0" "digit_char d \<noteq> CHR ''-''"
proof -
  have "\<forall>d \<in> set [0..<10]. char_digit 10 (digit_char d) = Some d \<and> (digit_char d = CHR ''0'' \<longleftrightarrow> d = 0) \<and> digit_char d \<noteq> CHR ''-''"
    by code_simp
  with assms show "char_digit 10 (digit_char d) = Some d" "digit_char d = CHR ''0'' \<longleftrightarrow> d = 0" "digit_char d \<noteq> CHR ''-''" by auto
qed

lemma u128_digits_ok:
  assumes "u128_val ii < 10 ^ i"
  shows "\<exists>ds. u128_digits i ii buf = Some (Inr (ds @ buf)) \<and> is_decimal ds \<and> dec_value ds = u128_val ii \<and>
    (u128_val ii \<noteq> 0 \<longrightarrow> ds \<noteq> [] \<and> hd ds \<noteq> CHR ''0'' \<and> hd ds \<noteq> CHR ''-'')"
  using assms
proof (induction i arbitrary: ii buf)
  case 0
  then have "u128_val ii = 0" using u128_val_bounds(1) [of ii] unfolding power_0 by linarith
  then show ?case by (simp add: u128_digits.simps is_decimal_def)
next
  case (Suc i)
  show ?case
  proof (cases "u128_val ii = 0")
    case True
    then have "ii = of_int32 0" by (simp add: u128_val_eq_iff u128_val_const)
    with True show ?thesis by (simp add: u128_digits.simps is_decimal_def)
  next
    case False
    then have nz: "ii \<noteq> of_int32 0" by (auto simp: u128_val_const)
    from divide_ok(2) [of "of_int32 10" ii] obtain q r where
      d: "divide128 ii (of_int32 10) = Some (Inr (q, r))" "u128_val q = u128_val ii div 10" "u128_val r = u128_val ii mod 10"
      by (auto simp: u128_val_const)
    then have r10: "u128_val r < 10" by simp
    then have t: "to_integer r = Inr (ucast (u128w r))" by (simp add: to_integer_eq word_less_def)
    define k where "k = unat (ucast (u128w r) :: 32 word)"
    have v: "int (unat (u128w r)) = u128_val r" by simp
    then have "unat (u128w r) < 10" using r10 by linarith
    then have "k = unat (u128w r)" by (simp add: k_def unsigned_ucast_eq take_bit_nat_eq_self)
    then have k: "int k = u128_val ii mod 10" "k < 10" using v d(3) r10 \<open>unat (u128w r) < 10\<close> by simp_all
    have q: "u128_val q < 10 ^ i" using Suc.prems d(2) by simp
    from Suc.IH [OF q, of "digit_char k # buf"] obtain ds where
      ds: "u128_digits i q (digit_char k # buf) = Some (Inr (ds @ digit_char k # buf))" "is_decimal ds" "dec_value ds = u128_val q"
        "u128_val q \<noteq> 0 \<Longrightarrow> ds \<noteq> [] \<and> hd ds \<noteq> CHR ''0'' \<and> hd ds \<noteq> CHR ''-''" by blast
    note dig = digit_char_digit [OF k(2)]
    have "u128_digits (Suc i) ii buf = Some (Inr ((ds @ [digit_char k]) @ buf))"
      using nz d(1) t ds(1) by (simp add: u128_digits.simps [of "Suc i"] k_def)
    moreover have "is_decimal (ds @ [digit_char k])" using ds(2) dig by (auto simp: is_decimal_def)
    moreover have "dec_value (ds @ [digit_char k]) = u128_val ii" using ds(3) d(2) k(1) dig(1) by simp
    moreover have "hd (ds @ [digit_char k]) \<noteq> CHR ''0'' \<and> hd (ds @ [digit_char k]) \<noteq> CHR ''-''"
    proof (cases "u128_val q = 0")
      case True
      with d(2) False k(1) have "k \<noteq> 0" by auto
      moreover have "ds = []" using True ds(1) by (simp add: u128_digits.simps u128_val_eq_iff [of q] u128_val_const)
      ultimately show ?thesis using dig by simp
    qed (use ds(4) in \<open>simp add: hd_append\<close>)
    ultimately show ?thesis by (metis Nil_is_append_conv not_Cons_self2)
  qed
qed

section \<open>Properties\<close>

text \<open>C16: the two-halves arithmetic computes 128-bit word arithmetic. Addition, subtraction, multiplication, negation, increment,
  decrement, the bitwise assignments, both shifts (which never throw) and the comparisons agree with the operations on
  \<open>128 word\<close>, and the representation is unique.\<close>

theorem uint128_refines_word:
  "u128w (u128_add a b) = u128w a + u128w b \<and> u128w (u128_sub a b) = u128w a - u128w b \<and> u128w (u128_mul a b) = u128w a * u128w b \<and>
   u128w (u128_neg a) = - u128w a \<and> u128w (u128_inc a) = u128w a + 1 \<and> u128w (u128_dec a) = u128w a - 1 \<and>
   u128w (u128_not a) = NOT (u128w a) \<and> u128w (u128_or_eq a b) = u128w a OR u128w b \<and>
   u128w (u128_and_eq a b) = u128w a AND u128w b \<and> u128w (u128_xor_eq a b) = u128w a XOR u128w b \<and>
   (\<exists>c. u128_shl a b = Inr c \<and> u128w c = push_bit (unat (u128w b)) (u128w a)) \<and>
   (\<exists>c. u128_shr a b = Inr c \<and> u128w c = drop_bit (unat (u128w b)) (u128w a)) \<and>
   (u128_less a b \<longleftrightarrow> u128w a < u128w b) \<and> (u128_ge a b \<longleftrightarrow> u128w b \<le> u128w a) \<and> (u128w a = u128w b \<longleftrightarrow> a = b)"
  using u128_shl_eq [of a b] u128_shr_eq [of a b] by (simp add: u128_simps u128_inject)

text \<open>C17: binary long division ends and is right. \<open>divide\<close> throws exactly for a zero divisor; for every other divisor both loops
  end, and quotient and remainder are those of the division of the values.\<close>

theorem divide_correct:
  "(divide128 n d = Some (Inl Std_exception) \<longleftrightarrow> u128_val d = 0) \<and>
   (u128_val d = 0 \<or> (\<exists>q r. divide128 n d = Some (Inr (q, r)) \<and> u128_val q = u128_val n div u128_val d \<and>
      u128_val r = u128_val n mod u128_val d))"
  using divide_ok(1) [of n d] divide_ok(2) [of d n] by (cases "u128_val d = 0") auto

text \<open>C33: the full product of two 128-bit integers is exact: the two result words hold the 256-bit product.\<close>

theorem full_product_exact:
  "case full_product a b of (h, l) \<Rightarrow> u128_val h * 2 ^ 128 + u128_val l = u128_val a * u128_val b"
  using full_product_eq [of a b] by (cases "full_product a b") simp

text \<open>C34: the decimal string of a 128-bit integer reads back. The conversion always ends, never throws and never runs out of the
  buffer, and the string constructor returns the same integer.\<close>

theorem uint128_string_roundtrip: "\<exists>s. u128_to_string a = Some (Inr s) \<and> u128_of_string s = a"
proof (cases "u128_val a = 0")
  case True
  then have a: "a = of_int32 0" by (simp add: u128_val_eq_iff u128_val_const)
  have "u128_of_string ''0'' = of_int32 0" by code_simp
  with a show ?thesis by (simp add: u128_to_string_def)
next
  case False
  have "u128_val a < 10 ^ 127" using u128_val_bounds(2) [of a] by simp
  from u128_digits_ok [OF this, of "[]"] False obtain ds where
    ds: "u128_digits 127 a [] = Some (Inr ds)" "is_decimal ds" "dec_value ds = u128_val a" "ds \<noteq> []" "hd ds \<noteq> CHR ''0''"
      "hd ds \<noteq> CHR ''-''" by auto
  have "u128_of_string ds = parse_digits 10 ds (of_halves 0 0)"
    using ds(4-6) by (cases ds) (simp_all add: u128_of_string_def parse_radix_def)
  moreover have "u128w (parse_digits 10 ds (of_halves 0 0)) = u128w a" using parse_decimal [OF ds(2)] ds(3) by (simp add: u128_of)
  ultimately have "u128_of_string ds = a" by (simp add: u128_inject)
  moreover have "u128_to_string a = Some (Inr ds)" using False ds(1) by (auto simp: u128_to_string_def u128_val_const)
  ultimately show ?thesis by blast
qed

end
