(* ===== verification/Witness_Schedule.thy ===== *)
theory Witness_Schedule
  imports Balances Fork_Db Uint128 "HOL-Library.Multiset"
begin

text \<open>Slots, the shuffled witness schedule and the per-block update of the global properties (\<open>db_witness_schedule.cpp\<close>,
  the first part of \<open>db_update.cpp\<close>, \<open>deposit_witness_pay\<close> of \<open>db_balance.cpp\<close>). Times, slot and block numbers are 32-bit
  words, absolute slots 64-bit words, the filled-slot window is the 128-bit integer of \<open>Uint128\<close>. A node holds the object
  database, the global property objects, the witnesses and the fork database.\<close>

unbundle bit_operations_syntax

section \<open>Objects\<close>

record dynamic_global_property_object =
  head_block_number :: "32 word"
  head_block_id :: block_id_type
  dgp_time :: "32 word"
  current_witness :: nat
  current_transaction_count :: "32 word"
  next_maintenance_time :: "32 word"
  witness_budget :: share_type
  recently_missed_count :: "32 word"
  current_aslot :: "64 word"
  recent_slots_filled :: uint128
  dynamic_flags :: "32 word"
  last_irreversible_block_num :: "32 word"

record global_property_object =
  gp_block_interval :: "8 word"
  maintenance_skip_slots :: "8 word"
  witness_pay_per_block :: share_type
  witness_pay_vesting_seconds :: nat
  active_witnesses :: "nat list"

record witness_object =
  wit_id :: nat
  witness_account :: nat
  last_aslot :: "64 word"
  pay_vb :: "nat option"
  last_confirmed_block_num :: "32 word"

record node =
  objects_db :: database
  dgp :: dynamic_global_property_object
  gpo :: global_property_object
  current_shuffled_witnesses :: "nat list"
  witnesses :: "witness_object table"
  last_checkpoint :: "32 word option"
  skip_undo_history_check :: bool
  undo_max_size :: nat
  node_fork_db :: fork_database
  block_summaries :: "block_id_type list"

definition maintenance_flag :: "32 word" where
  "maintenance_flag = 0x01"

definition GRAPHENE_MAX_UNDO_HISTORY :: "32 word" where
  "GRAPHENE_MAX_UNDO_HISTORY = 10000"

definition GRAPHENE_RECENTLY_MISSED_COUNT_INCREMENT :: "32 word" where
  "GRAPHENE_RECENTLY_MISSED_COUNT_INCREMENT = 4"

definition GRAPHENE_RECENTLY_MISSED_COUNT_DECREMENT :: "32 word" where
  "GRAPHENE_RECENTLY_MISSED_COUNT_DECREMENT = 3"

definition GRAPHENE_IRREVERSIBLE_THRESHOLD :: int where
  "GRAPHENE_IRREVERSIBLE_THRESHOLD = 7000"

section \<open>Slots\<close>

definition slot_interval :: "node \<Rightarrow> 32 word" where
  "slot_interval s = ucast (gp_block_interval (gpo s))"

definition get_scheduled_witness :: "32 word \<Rightarrow> node \<Rightarrow> nat result" where
  "get_scheduled_witness slot_num s =
     (let aslot = current_aslot (dgp s) + ucast slot_num; ws = current_shuffled_witnesses s
      in if ws = [] then Inl Undefined_behaviour else Inr (ws ! (unat aslot mod length ws)))"

definition get_slot_time :: "32 word \<Rightarrow> node \<Rightarrow> 32 word result" where
  "get_slot_time slot_num s =
     (if slot_num = 0 then Inr 0
      else if head_block_number (dgp s) = 0 then Inr (dgp_time (dgp s) + slot_num * slot_interval s)
      else if slot_interval s = 0 then Inl Undefined_behaviour
      else
        let head_slot_time = dgp_time (dgp s) div slot_interval s * slot_interval s;
            n = (if dynamic_flags (dgp s) AND maintenance_flag \<noteq> 0 then slot_num + ucast (maintenance_skip_slots (gpo s)) else slot_num)
        in Inr (head_slot_time + n * slot_interval s))"

definition get_slot_at_time :: "32 word \<Rightarrow> node \<Rightarrow> 32 word result" where
  "get_slot_at_time t s =
     bindE (get_slot_time 1 s) (\<lambda>first_slot_time.
     if t < first_slot_time then Inr 0
     else if slot_interval s = 0 then Inl Undefined_behaviour
     else Inr ((t - first_slot_time) div slot_interval s + 1))"

definition witness_participation_rate :: "node \<Rightarrow> 32 word" where
  "witness_participation_rate s =
     ucast ((10000 :: 64 word) * ucast (popcount (recent_slots_filled (dgp s))) div 128)"

section \<open>The shuffle\<close>

definition shuffle_random :: "64 word \<Rightarrow> 32 word \<Rightarrow> 64 word" where
  "shuffle_random now_hi i =
     (let k = now_hi + ucast i * 2685821657736338717;
          k = k XOR drop_bit 12 k;
          k = k XOR push_bit 25 k;
          k = k XOR drop_bit 27 k
      in k * 2685821657736338717)"

definition shuffle_index :: "64 word \<Rightarrow> nat \<Rightarrow> nat \<Rightarrow> nat" where
  "shuffle_index now_hi sz i =
     (let jmax = of_nat (sz - i) :: 32 word
      in unat (ucast (ucast (of_nat i :: 32 word) + shuffle_random now_hi (of_nat i) mod ucast jmax) :: 32 word))"

definition shuffle_swap :: "64 word \<Rightarrow> nat \<Rightarrow> nat list \<Rightarrow> nat list" where
  "shuffle_swap now_hi i ws = (let j = shuffle_index now_hi (length ws) i in ws[i := ws ! j, j := ws ! i])"

definition shuffle :: "64 word \<Rightarrow> nat list \<Rightarrow> nat list" where
  "shuffle now_hi ws = fold (shuffle_swap now_hi) [0..<length ws] ws"

definition update_witness_schedule :: "node \<Rightarrow> node result" where
  "update_witness_schedule s =
     (if active_witnesses (gpo s) = [] then Inl Undefined_behaviour
      else if unat (head_block_number (dgp s)) mod length (active_witnesses (gpo s)) = 0
      then Inr (s\<lparr>current_shuffled_witnesses :=
             shuffle (push_bit 32 (ucast (dgp_time (dgp s)))) (active_witnesses (gpo s))\<rparr>)
      else Inr s)"

section \<open>Updates after a block\<close>

definition new_missed_count :: "'tx signed_block \<Rightarrow> 32 word \<Rightarrow> node \<Rightarrow> 32 word" where
  "new_missed_count b missed_blocks s =
     (let c = recently_missed_count (dgp s) in
      if block_num b = 1 then 0
      else if (case last_checkpoint s of None \<Rightarrow> False | Some cp \<Rightarrow> cp \<ge> block_num b) then 0
      else if missed_blocks \<noteq> 0 then c + GRAPHENE_RECENTLY_MISSED_COUNT_INCREMENT * missed_blocks
      else if c > GRAPHENE_RECENTLY_MISSED_COUNT_INCREMENT then c - GRAPHENE_RECENTLY_MISSED_COUNT_DECREMENT
      else if c > 0 then c - 1
      else c)"

definition fill_slot :: "32 word \<Rightarrow> uint128 \<Rightarrow> uint128 result" where
  "fill_slot missed_blocks x =
     bindE (u128_shl x (of_int32 1)) (\<lambda>y. u128_shl (u128_add y (of_int32 1)) (of_uint32 missed_blocks))"

text \<open>The macro \<open>assert(missed_blocks != 0)\<close> before the decrement is compiled out of a release build, which is the one modelled: a block in
  no slot, which only a skipped schedule check lets through, wraps around.\<close>

definition update_global_dynamic_data :: "'tx signed_block \<Rightarrow> node \<Rightarrow> node result" where
  "update_global_dynamic_data b s =
     bindE (get_slot_at_time (timestamp b) s) (\<lambda>slot.
     let missed_blocks = slot - 1 in
     bindE (fill_slot missed_blocks (recent_slots_filled (dgp s))) (\<lambda>filled.
     let d = (dgp s)\<lparr>recently_missed_count := new_missed_count b missed_blocks s,
           head_block_number := block_num b, head_block_id := block_id b, dgp_time := timestamp b,
           current_witness := witness b, current_transaction_count := of_nat (length (transactions b)),
           recent_slots_filled := filled, current_aslot := current_aslot (dgp s) + ucast (missed_blocks + 1)\<rparr>;
         n = head_block_number d - last_irreversible_block_num d;
         s1 = s\<lparr>dgp := d, objects_db := (objects_db s)\<lparr>head_block_time := unat (timestamp b)\<rparr>\<rparr>
     in if \<not> skip_undo_history_check s \<and> \<not> n < GRAPHENE_MAX_UNDO_HISTORY then Inl Undo_database_exception
        else Inr (s1\<lparr>undo_max_size := unat (n + 1), node_fork_db := set_max_size (n + 1) (node_fork_db s1)\<rparr>)))"

fun decimal :: "nat \<Rightarrow> string" where
  "decimal n = (if n < 10 then [char_of (48 + n)] else decimal (n div 10) @ [char_of (48 + n mod 10)])"

declare decimal.simps [simp del]

definition deposit_witness_pay :: "witness_object \<Rightarrow> asset \<Rightarrow> node \<Rightarrow> node result" where
  "deposit_witness_pay wit a s =
     (if amount a = 0 then Inr s
      else bindE (deposit_lazy_vesting (pay_vb wit) a (witness_pay_vesting_seconds (gpo s)) (witness_account wit)
        (''1.6.'' @ decimal (wit_id wit)) True (objects_db s)) (\<lambda>(db', new_vbid).
        let s' = s\<lparr>objects_db := db'\<rparr> in
        case new_vbid of
          None \<Rightarrow> Inr s'
        | Some i \<Rightarrow> Inr (s'\<lparr>witnesses := tmodify wit_id (wit_id wit) (\<lambda>w. w\<lparr>pay_vb := Some i\<rparr>) (witnesses s')\<rparr>)))"

definition update_signing_witness :: "nat \<Rightarrow> 'tx signed_block \<Rightarrow> node \<Rightarrow> node result" where
  "update_signing_witness signing_witness b s =
     bindE (tget wit_id signing_witness (witnesses s)) (\<lambda>wit.
     bindE (get_slot_at_time (timestamp b) s) (\<lambda>slot.
     let new_block_aslot = current_aslot (dgp s) + ucast slot;
         witness_pay = min (witness_pay_per_block (gpo s)) (witness_budget (dgp s)) in
     bindE (safe_sub (witness_budget (dgp s)) witness_pay) (\<lambda>budget.
     bindE (deposit_witness_pay wit (asset_of witness_pay core_asset) (s\<lparr>dgp := (dgp s)\<lparr>witness_budget := budget\<rparr>\<rparr>)) (\<lambda>s1.
     Inr (s1\<lparr>witnesses := tmodify wit_id signing_witness
       (\<lambda>w. w\<lparr>last_aslot := new_block_aslot, last_confirmed_block_num := block_num b\<rparr>) (witnesses s1)\<rparr>)))))"

definition irreversible_offset :: "nat \<Rightarrow> nat" where
  "irreversible_offset n = nat ((10000 - GRAPHENE_IRREVERSIBLE_THRESHOLD) * int n div 10000)"

text \<open>\<open>std::nth_element\<close> leaves at the offset the number that sorting would put there.\<close>

definition update_last_irreversible_block :: "node \<Rightarrow> node result" where
  "update_last_irreversible_block s =
     bindE (foldE (\<lambda>i ws. bindE (tget wit_id i (witnesses s)) (\<lambda>w. Inr (ws @ [w]))) (active_witnesses (gpo s)) []) (\<lambda>wit_objs.
     let nums = sort (map last_confirmed_block_num wit_objs); offset = irreversible_offset (length wit_objs) in
     if wit_objs = [] then Inl Undefined_behaviour
     else if nums ! offset > last_irreversible_block_num (dgp s)
     then Inr (s\<lparr>dgp := (dgp s)\<lparr>last_irreversible_block_num := nums ! offset\<rparr>\<rparr>)
     else Inr s)"

definition update_maintenance_flag :: "bool \<Rightarrow> node \<Rightarrow> node" where
  "update_maintenance_flag new_maintenance_flag s =
     s\<lparr>dgp := (dgp s)\<lparr>dynamic_flags := (dynamic_flags (dgp s) AND NOT maintenance_flag) OR
        (if new_maintenance_flag then maintenance_flag else 0)\<rparr>\<rparr>"


section \<open>Slots and times\<close>

lemma get_slot_time_shift:
  assumes "get_slot_time 1 s = Inr first" "n \<noteq> 0"
  shows "get_slot_time n s = Inr (first + (n - 1) * slot_interval s)"
  using assms by (auto simp: get_slot_time_def Let_def algebra_simps split: if_splits)

lemma word_div_mult_le: "unat (x div y * y) = unat x div unat y * unat (y :: 32 word)"
proof -
  have "unat x div unat y * unat y \<le> unat x" by (rule div_times_less_eq_dividend)
  also have "\<dots> < 2 ^ 32" using unsigned_less [of x] by simp
  finally show ?thesis by (simp add: unat_word_ariths unat_div_distrib mod_simps)
qed

lemma slot_time_roundtrip:
  assumes "get_slot_time 1 s = Inr first" "slot_interval s \<noteq> 0" "n \<noteq> 0"
    "unat first + (unat n - 1) * unat (slot_interval s) < 2 ^ 32"
  shows "\<exists>t. get_slot_time n s = Inr t \<and> get_slot_at_time t s = Inr n"
proof -
  let ?i = "slot_interval s" and ?m = "n - 1"
  have m: "unat ?m = unat n - 1" using assms(3) by (simp add: unat_minus_one)
  then have p: "unat (?m * ?i) = unat ?m * unat ?i" using assms(4) by (simp add: unat_word_ariths)
  have "\<not> first + ?m * ?i < first"
    using assms(4) p m by (simp add: word_less_nat_alt unat_word_ariths)
  moreover have "?m * ?i div ?i = ?m" 
    using assms(2) by (simp add: word_unat_eq_iff unat_div_distrib p)
  ultimately show ?thesis
    using get_slot_time_shift [OF assms(1,3)] assms(1,2) by (simp add: get_slot_at_time_def)
qed

lemma slot_at_time_bounds:
  assumes "get_slot_time 1 s = Inr first" "slot_interval s \<noteq> 0" "0 < first" "first \<le> t"
  shows "\<exists>n t'. get_slot_at_time t s = Inr n \<and> get_slot_time n s = Inr t' \<and> t' \<le> t \<and> t - t' < slot_interval s"
proof -
  let ?i = "slot_interval s" and ?d = "t - first"
  let ?q = "?d div ?i"
  have d: "unat ?d = unat t - unat first" using assms(4) by (simp add: unat_sub)
  have q: "unat (?q * ?i) = unat ?d div unat ?i * unat ?i" by (rule word_div_mult_le)
  have le: "unat (?q * ?i) \<le> unat ?d" unfolding q by (rule div_times_less_eq_dividend)
  have f: "0 < unat first" "unat first \<le> unat t" using assms(3,4) by (simp_all add: word_less_nat_alt word_le_nat_alt)
  have t32: "unat t < 2 ^ 32" using unsigned_less [of t] by simp
  have "unat ?q \<le> unat ?d" by (simp add: unat_div_distrib)
  also have "\<dots> < 2 ^ 32 - 1" using d f t32 by simp
  finally have nz: "?q + 1 \<noteq> 0" by (auto simp: eq_neg_iff_add_eq_0 [symmetric] unsigned_minus_1_eq_mask mask_eq_exp_minus_1)
  let ?t = "first + ?q * ?i"
  have ut: "unat ?t = unat first + unat (?q * ?i)" using le d f t32 by (simp add: unat_word_ariths)
  then have "?t \<le> t" using le d f by (simp add: word_le_nat_alt)
  moreover from this have "unat (t - ?t) = unat ?d - unat ?d div unat ?i * unat ?i" using ut d q by (simp add: unat_sub)
  then have "unat (t - ?t) = unat ?d mod unat ?i" by (simp add: minus_div_mult_eq_mod)
  then have "t - ?t < ?i" using assms(2) by (simp add: word_less_nat_alt unat_gt_0)
  moreover have "get_slot_at_time t s = Inr (?q + 1)" using assms by (auto simp: get_slot_at_time_def not_less)
  moreover have "get_slot_time (?q + 1) s = Inr ?t" using get_slot_time_shift [OF assms(1) nz] by simp
  ultimately show ?thesis by blast
qed

section \<open>The schedule\<close>

lemma shuffle_index_bounds:
  assumes "i < sz" "sz < 2 ^ 32"
  shows "i \<le> shuffle_index h sz i" "shuffle_index h sz i < sz"
proof -
  define d where "d = sz - i"
  have d: "i + d = sz" "0 < d" "d < 2 ^ 32" using assms by (simp_all add: d_def)
  let ?j = "of_nat d :: 32 word" and ?k = "shuffle_random h (of_nat i)"
  have j: "unat (ucast ?j :: 64 word) = d" using assms d by (simp add: unsigned_ucast_eq unat_of_nat take_bit_nat_eq_self)
  then have r: "unat (?k mod ucast ?j) < d" using d by (simp add: unat_mod_distrib)
  have i: "unat (ucast (of_nat i :: 32 word) :: 64 word) = i" using assms by (simp add: unsigned_ucast_eq unat_of_nat take_bit_nat_eq_self)
  have "unat (ucast (of_nat i :: 32 word) + ?k mod ucast ?j) = i + unat (?k mod ucast ?j)"
    using r i d assms by (simp add: unat_word_ariths)
  then have "shuffle_index h sz i = i + unat (?k mod ucast ?j)"
    using r d assms by (simp add: shuffle_index_def Let_def d_def [symmetric] unsigned_ucast_eq take_bit_nat_eq_self)
  with r d show "i \<le> shuffle_index h sz i" "shuffle_index h sz i < sz" by simp_all
qed

lemma shuffle_swap_mset:
  assumes "i < length ws" "length ws < 2 ^ 32"
  shows "mset (shuffle_swap h i ws) = mset ws" "length (shuffle_swap h i ws) = length ws"
  using shuffle_index_bounds [OF assms, of h] assms(1) mset_swap [of "shuffle_index h (length ws) i" ws i]
  by (simp_all add: shuffle_swap_def Let_def)

lemma shuffle_mset:
  assumes "length ws < 2 ^ 32"
  shows "mset (shuffle h ws) = mset ws"
proof -
  have "mset (fold (shuffle_swap h) ks ws') = mset ws \<and> length (fold (shuffle_swap h) ks ws') = length ws"
    if "set ks \<subseteq> {..<length ws}" "mset ws' = mset ws" "length ws' = length ws" for ks ws'
    using that
  proof (induction ks arbitrary: ws')
    case (Cons i js)
    then show ?case using shuffle_swap_mset [of i ws' h] assms by simp
  qed simp
  from this [of "[0..<length ws]" ws] show ?thesis by (simp add: shuffle_def atLeast0LessThan)
qed

lemma rotate_schedule:
  assumes "ws \<noteq> []"
  shows "map (\<lambda>i. ws ! ((a + i) mod length ws)) [0..<length ws] = rotate a ws"
  using assms by (intro nth_equalityI) (simp_all add: nth_rotate)

lemma mset_rotate_eq: "mset (rotate n xs) = mset xs"
proof -
  have "mset (rotate1 ys) = mset ys" for ys :: "'a list" by (cases ys) simp_all
  then show ?thesis by (induction n) simp_all
qed

lemma consecutive_slots:
  assumes "current_shuffled_witnesses s = ws" "ws \<noteq> []" "unat (current_aslot (dgp s)) + k + length ws < 2 ^ 64" "k + length ws < 2 ^ 32"
  shows "map (\<lambda>i. get_scheduled_witness (of_nat (k + i)) s) [0..<length ws] =
    map Inr (rotate (unat (current_aslot (dgp s)) + k) ws)"
proof -
  have "get_scheduled_witness (of_nat (k + i)) s = Inr (ws ! ((unat (current_aslot (dgp s)) + k + i) mod length ws))" if "i < length ws" for i
  proof -
    have "unat (ucast (of_nat (k + i) :: 32 word) :: 64 word) = k + i"
      using that assms(4) by (simp add: unsigned_ucast_eq unat_of_nat take_bit_nat_eq_self del: of_nat_add)
    then have "unat (current_aslot (dgp s) + ucast (of_nat (k + i) :: 32 word)) = unat (current_aslot (dgp s)) + k + i"
      using that assms(3) by (simp add: unat_word_ariths del: of_nat_add)
    then show ?thesis using assms(1,2) by (simp add: get_scheduled_witness_def Let_def del: of_nat_add)
  qed
  then have "map (\<lambda>i. get_scheduled_witness (of_nat (k + i)) s) [0..<length ws] =
      map Inr (map (\<lambda>i. ws ! ((unat (current_aslot (dgp s)) + k + i) mod length ws)) [0..<length ws])" by simp
  then show ?thesis using rotate_schedule [OF assms(2), of "unat (current_aslot (dgp s)) + k"] by simp
qed

section \<open>Irreversible blocks\<close>

lemma sorted_suffix_count:
  fixes xs :: "'a :: linorder list"
  assumes "m < length xs"
  shows "length xs - m \<le> length (filter (\<lambda>x. sort xs ! m \<le> x) xs)"
proof -
  let ?ys = "sort xs"
  have "\<forall>x \<in> set (drop m ?ys). ?ys ! m \<le> x"
    using assms by (auto simp: in_set_conv_nth intro!: sorted_nth_mono)
  then have "filter (\<lambda>x. ?ys ! m \<le> x) (drop m ?ys) = drop m ?ys" by (simp add: filter_id_conv)
  moreover have "filter (\<lambda>x. ?ys ! m \<le> x) ?ys = filter (\<lambda>x. ?ys ! m \<le> x) (take m ?ys) @ filter (\<lambda>x. ?ys ! m \<le> x) (drop m ?ys)"
    by (metis append_take_drop_id filter_append)
  ultimately have "length xs - m \<le> length (filter (\<lambda>x. ?ys ! m \<le> x) ?ys)" by simp
  moreover have "length (filter P ?ys) = length (filter P xs)" for P
    by (metis mset_filter mset_sort size_mset)
  ultimately show ?thesis by simp
qed

lemma irreversible_offset_bound: "7000 * n \<le> 10000 * (n - irreversible_offset n)" "0 < n \<Longrightarrow> irreversible_offset n < n"
proof -
  have e: "irreversible_offset n = 3000 * n div 10000"
    by (simp add: irreversible_offset_def GRAPHENE_IRREVERSIBLE_THRESHOLD_def nat_div_distrib nat_mult_distrib)
  have "10000 * (3000 * n div 10000) \<le> 3000 * n" by (rule times_div_less_eq_dividend)
  then show "7000 * n \<le> 10000 * (n - irreversible_offset n)" "0 < n \<Longrightarrow> irreversible_offset n < n"
    by (simp_all add: e)
qed

lemma collect_witnesses:
  assumes "foldE (\<lambda>i ws. bindE (tget wit_id i t) (\<lambda>w. Inr (ws @ [w]))) ids acc = Inr ws"
  shows "\<exists>vs. ws = acc @ vs \<and> map Some vs = map (\<lambda>i. tfind wit_id i t) ids"
  using assms
proof (induction ids arbitrary: acc)
  case (Cons i ids)
  then obtain w where w: "tfind wit_id i t = Some w"
    "foldE (\<lambda>i ws. bindE (tget wit_id i t) (\<lambda>w. Inr (ws @ [w]))) ids (acc @ [w]) = Inr ws" by auto
  from Cons.IH [OF w(2)] obtain vs where "ws = (acc @ [w]) @ vs" "map Some vs = map (\<lambda>i. tfind wit_id i t) ids" by blast
  with w(1) show ?case by (intro exI [of _ "w # vs"]) simp
qed simp

lemma length_filter_map: "length (filter P xs) = length (filter id (map P xs))"
  by (simp add: filter_map comp_def)

definition confirmed_at_least :: "32 word \<Rightarrow> node \<Rightarrow> nat list" where
  "confirmed_at_least n s = filter (\<lambda>i. case tfind wit_id i (witnesses s) of None \<Rightarrow> False
     | Some w \<Rightarrow> n \<le> last_confirmed_block_num w) (active_witnesses (gpo s))"

lemma last_irreversible_cases:
  assumes "update_last_irreversible_block s = Inr s'"
  shows "s' = s \<or> (\<exists>n. s' = s\<lparr>dgp := (dgp s)\<lparr>last_irreversible_block_num := n\<rparr>\<rparr> \<and> last_irreversible_block_num (dgp s) < n \<and>
    7000 * length (active_witnesses (gpo s)) \<le> 10000 * length (confirmed_at_least n s))"
proof -
  from assms obtain ws where ws: "foldE (\<lambda>i ws. bindE (tget wit_id i (witnesses s)) (\<lambda>w. Inr (ws @ [w]))) (active_witnesses (gpo s)) [] = Inr ws"
    by (auto simp: update_last_irreversible_block_def)
  from collect_witnesses [OF this] have vs: "map Some ws = map (\<lambda>i. tfind wit_id i (witnesses s)) (active_witnesses (gpo s))" by auto
  define n where "n = sort (map last_confirmed_block_num ws) ! irreversible_offset (length ws)"
  have len: "length (active_witnesses (gpo s)) = length ws" using vs by (metis length_map)
  have "map (\<lambda>i. case tfind wit_id i (witnesses s) of None \<Rightarrow> False | Some w \<Rightarrow> n \<le> last_confirmed_block_num w) (active_witnesses (gpo s)) =
      map (\<lambda>w. n \<le> last_confirmed_block_num w) ws"
    using arg_cong [OF vs, of "map (\<lambda>x. case x of None \<Rightarrow> False | Some w \<Rightarrow> n \<le> last_confirmed_block_num w)"] by (simp add: comp_def)
  then have c: "length (confirmed_at_least n s) = length (filter (\<lambda>w. n \<le> last_confirmed_block_num w) ws)"
    unfolding confirmed_at_least_def length_filter_map [of _ "active_witnesses _"] length_filter_map [of _ ws] by simp
  show ?thesis
  proof (cases "ws \<noteq> [] \<and> last_irreversible_block_num (dgp s) < n")
    case True
    then have off: "irreversible_offset (length ws) < length ws" by (intro irreversible_offset_bound) simp
    have "length ws - irreversible_offset (length ws) \<le> length (filter (\<lambda>w. n \<le> last_confirmed_block_num w) ws)"
      using sorted_suffix_count [of "irreversible_offset (length ws)" "map last_confirmed_block_num ws"] off
      by (simp add: n_def filter_map comp_def)
    then have "7000 * length ws \<le> 10000 * length (confirmed_at_least n s)"
      using irreversible_offset_bound(1) [of "length ws"] c by linarith
    moreover have "s' = s\<lparr>dgp := (dgp s)\<lparr>last_irreversible_block_num := n\<rparr>\<rparr>"
      using assms ws True by (simp add: update_last_irreversible_block_def n_def Let_def)
    ultimately show ?thesis using True len by auto
  qed (use assms ws in \<open>auto simp: update_last_irreversible_block_def n_def Let_def\<close>)
qed

section \<open>The window of filled slots\<close>

lemma fill_slot_bits:
  "\<exists>y. fill_slot m x = Inr y \<and> (\<forall>k < 128. bit (u128w y) k \<longleftrightarrow> k = unat m \<or> unat m < k \<and> bit (u128w x) (k - unat m - 1))"
proof -
  have one: "u128w (of_int32 1) = 1" "unat (u128w (of_int32 1)) = 1" by code_simp+
  obtain y where y: "u128_shl x (of_int32 1) = Inr y" "u128w y = push_bit 1 (u128w x)"
    using u128_shl_eq [of x "of_int32 1"] one by auto
  have a: "u128w (u128_add y (of_int32 1)) = push_bit 1 (u128w x) OR 1"
    unfolding u128_add_eq one(1) y(2) by (rule disjunctive_add_eq_or, rule bit_word_eqI) (auto simp: bit_simps simp del: push_bit_Suc push_bit_of_1)
  have m: "unat (u128w (of_uint32 m)) = unat m"
    using unsigned_less [of m, where ?'a = nat] by (simp add: u128_of unsigned_ucast_eq take_bit_nat_eq_self)
  obtain z where z: "u128_shl (u128_add y (of_int32 1)) (of_uint32 m) = Inr z" "u128w z = push_bit (unat m) (push_bit 1 (u128w x) OR 1)"
    using u128_shl_eq [of "u128_add y (of_int32 1)" "of_uint32 m"] m a by auto
  define p where "p = push_bit 1 (u128w x)"
  have p: "bit p k \<longleftrightarrow> 0 < k \<and> k < 128 \<and> bit (u128w x) (k - 1)" for k unfolding p_def bit_push_bit_iff by auto
  have "bit (u128w z) k \<longleftrightarrow> k = unat m \<or> unat m < k \<and> bit (u128w x) (k - unat m - 1)" if "k < 128" for k
    using that z(2) [folded p_def] by (auto simp: bit_simps p)
  with y(1) z(1) show ?thesis by (auto simp: fill_slot_def)
qed

text \<open>\<open>F\<close> holds the absolute slots that were filled; the window shows the last 128 of them.\<close>

definition filled_window :: "nat set \<Rightarrow> node \<Rightarrow> bool" where
  "filled_window F s \<longleftrightarrow> F \<subseteq> {..unat (current_aslot (dgp s))} \<and>
     (\<forall>k < 128. k \<le> unat (current_aslot (dgp s)) \<longrightarrow>
        bit (u128w (recent_slots_filled (dgp s))) k = (unat (current_aslot (dgp s)) - k \<in> F))"

lemma update_global_dynamic_data_dgp:
  assumes "update_global_dynamic_data b s = Inr s'" "get_slot_at_time (timestamp b) s = Inr slot"
  shows "fill_slot (slot - 1) (recent_slots_filled (dgp s)) = Inr (recent_slots_filled (dgp s'))"
    "current_aslot (dgp s') = current_aslot (dgp s) + ucast slot" "head_block_number (dgp s') = block_num b"
    "dgp_time (dgp s') = timestamp b" "last_irreversible_block_num (dgp s') = last_irreversible_block_num (dgp s)"
    "undo_max_size s' = unat (block_num b - last_irreversible_block_num (dgp s) + 1)"
    "node_fork_db s' = set_max_size (block_num b - last_irreversible_block_num (dgp s) + 1) (node_fork_db s)"
  using assms by (auto simp: update_global_dynamic_data_def Let_def split: if_splits)

lemma filled_window_step:
  assumes "filled_window F s" "update_global_dynamic_data b s = Inr s'" "get_slot_at_time (timestamp b) s = Inr slot" "slot \<noteq> 0"
    "unat (current_aslot (dgp s)) + unat slot < 2 ^ 64"
  shows "filled_window (insert (unat (current_aslot (dgp s)) + 1) F) s'"
proof -
  let ?a = "unat (current_aslot (dgp s))" and ?a' = "unat (current_aslot (dgp s'))" and ?m = "unat slot - 1"
  note d = update_global_dynamic_data_dgp [OF assms(2,3)]
  have a: "?a' = ?a + unat slot" using d(2) assms(5) by (simp add: unat_word_ariths unsigned_ucast_eq take_bit_nat_eq_self)
  have m: "unat (slot - 1) = ?m" "0 < unat slot" using assms(4) by (simp_all add: unat_minus_one unat_gt_0)
  obtain y where y: "fill_slot (slot - 1) (recent_slots_filled (dgp s)) = Inr y"
    "\<And>k. k < 128 \<Longrightarrow> bit (u128w y) k \<longleftrightarrow> k = ?m \<or> ?m < k \<and> bit (u128w (recent_slots_filled (dgp s))) (k - ?m - 1)"
    using fill_slot_bits [of "slot - 1" "recent_slots_filled (dgp s)"] m by auto
  have F: "F \<subseteq> {..?a}" "\<And>k. k < 128 \<Longrightarrow> k \<le> ?a \<Longrightarrow> bit (u128w (recent_slots_filled (dgp s))) k = (?a - k \<in> F)"
    using assms(1) by (auto simp: filled_window_def)
  have "bit (u128w y) k = (?a' - k \<in> insert (?a + 1) F)" if k: "k < 128" "k \<le> ?a'" for k
  proof (cases k ?m rule: linorder_cases)
    case greater
    with F(2) [of "k - ?m - 1"] k a m have "bit (u128w (recent_slots_filled (dgp s))) (k - ?m - 1) = (?a - (k - ?m - 1) \<in> F)" by auto
    moreover have "?a - (k - ?m - 1) = ?a' - k" "?a' - k \<noteq> ?a + 1" using greater a m by auto
    ultimately show ?thesis using y(2) [OF k(1)] greater by simp
  qed (use y(2) [OF k(1)] F(1) a m k in auto)
  moreover have "recent_slots_filled (dgp s') = y" using d(1) y(1) by simp
  ultimately show ?thesis using F(1) a m by (auto simp: filled_window_def)
qed

lemma participation_rate_window:
  assumes "filled_window F s" "127 \<le> unat (current_aslot (dgp s))"
  shows "unat (witness_participation_rate s) =
    10000 * card (F \<inter> {unat (current_aslot (dgp s)) - 127..unat (current_aslot (dgp s))}) div 128"
proof -
  let ?a = "unat (current_aslot (dgp s))" and ?x = "u128w (recent_slots_filled (dgp s))"
  have "{k. bit ?x k} = {k. k < 128 \<and> ?a - k \<in> F}"
    using assms bit_imp_le_length [of ?x] unfolding filled_window_def by auto
  moreover have "bij_betw (\<lambda>k. ?a - k) {k. k < 128 \<and> ?a - k \<in> F} (F \<inter> {?a - 127..?a})"
    using assms unfolding filled_window_def by (intro bij_betw_byWitness [where f' = "\<lambda>j. ?a - j"]) auto
  ultimately have "bij_betw (\<lambda>k. ?a - k) {k. bit ?x k} (F \<inter> {?a - 127..?a})" by simp
  then have c: "card {k. bit ?x k} = card (F \<inter> {?a - 127..?a})" by (rule bij_betw_same_card)
  have "{k. bit ?x k} \<subseteq> {..<128}" using bit_imp_le_length [of ?x] by auto
  then have b: "card {k. bit ?x k} \<le> 128" using card_mono [of "{..<128 :: nat}"] by auto
  have p: "unat (popcount (recent_slots_filled (dgp s))) = card {k. bit ?x k}" by (rule popcount_card)
  then have u: "unat (ucast (popcount (recent_slots_filled (dgp s))) :: 64 word) = card {k. bit ?x k}"
    using b by (simp add: unsigned_ucast_eq take_bit_nat_eq_self)
  then have w: "unat ((10000 :: 64 word) * ucast (popcount (recent_slots_filled (dgp s)))) = 10000 * card {k. bit ?x k}"
    using b by (simp add: unat_word_ariths)
  have "10000 * card {k. bit ?x k} div 128 \<le> 10000" using b by simp
  then show ?thesis
    using c w b by (simp add: witness_participation_rate_def unsigned_ucast_eq unat_div_distrib take_bit_nat_eq_self)
qed

section \<open>Witness pay\<close>

lemma deposit_lazy_vesting_orders:
  assumes "deposit_lazy_vesting ovbid x secs owner descr req s = Inr (s', nid)"
  shows "limit_orders s' = limit_orders s"
  using assms by (auto simp: deposit_lazy_vesting_def Let_def split: if_splits option.splits)

lemma tfind_replace:
  assumes "oid r = i"
  shows "tfind oid j (tmodify oid i (\<lambda>_. r) t) = (if j = i then map_option (\<lambda>_. r) (tfind oid j t) else tfind oid j t)"
proof -
  let ?f = "\<lambda>x. if oid x = i then r else x"
  have "tmodify oid i (\<lambda>_. r) t = tmodify oid i ?f t" by (simp add: tmodify_def cong: if_cong)
  moreover have "oid (?f x) = oid x" for x using assms by simp
  ultimately show ?thesis using tfind_modify [of oid ?f j i t] by (auto simp: map_option_case dest: tfind_id split: option.splits)
qed

text \<open>A deposit into a vesting balance raises the balance of one vesting object of the owner, old or new, and nothing else changes.\<close>

definition vesting_deposited :: "nat \<Rightarrow> nat \<Rightarrow> asset \<Rightarrow> database \<Rightarrow> database \<Rightarrow> bool" where
  "vesting_deposited i owner x s s' \<longleftrightarrow>
     (\<exists>v. tfind vb_id i (vestings s') = Some v \<and> vb_owner v = owner \<and> asset_id (vb_balance v) = asset_id x \<and>
        amount (vb_balance v) = (case tfind vb_id i (vestings s) of None \<Rightarrow> 0 | Some old \<Rightarrow> amount (vb_balance old)) + amount x) \<and>
     (\<forall>j. j \<noteq> i \<longrightarrow> tfind vb_id j (vestings s') = tfind vb_id j (vestings s)) \<and>
     s' = s\<lparr>vestings := vestings s'\<rparr>"

lemma vb_deposit_fields: "vb_deposit now x v = Inr v' \<Longrightarrow> vb_id v' = vb_id v \<and> vb_owner v' = vb_owner v \<and>
    asset_id (vb_balance v') = asset_id x \<and> amount (vb_balance v') = amount (vb_balance v) + amount x"
  by (auto simp: vb_deposit_def)

lemma deposit_lazy_vesting_deposits:
  assumes "table_wf vb_id (vestings s)" "deposit_lazy_vesting ovbid x secs owner descr True s = Inr (s', nid)" "amount x \<noteq> 0"
  shows "\<exists>i. vesting_deposited i owner x s s' \<and> (case nid of None \<Rightarrow> ovbid = Some i | Some n \<Rightarrow> n = i)"
proof (cases "\<exists>i v. ovbid = Some i \<and> tfind vb_id i (vestings s) = Some v \<and> lazy_vesting_reusable v secs owner descr")
  case True
  then obtain i v where v: "ovbid = Some i" "tfind vb_id i (vestings s) = Some v" "lazy_vesting_reusable v secs owner descr"
    by blast
  with assms(2,3) obtain v' where v': "vb_deposit (head_block_time s) x v = Inr v'"
      "s' = s\<lparr>vestings := tmodify vb_id i (\<lambda>_. v') (vestings s)\<rparr>" "nid = None"
    by (auto simp: deposit_lazy_vesting_def Let_def)
  with vb_deposit_fields [OF v'(1)] tfind_id [OF v(2)] v have "vesting_deposited i owner x s s'"
    by (simp add: vesting_deposited_def tfind_replace lazy_vesting_reusable_def)
  with v(1) v'(3) show ?thesis by auto
next
  case False
  let ?mk = "\<lambda>i. \<lparr>vb_id = i, vb_owner = owner, vb_balance = x, vb_create_time = head_block_time s, vb_update_time = 0,
    vb_policy = Cdd \<lparr>vesting_seconds = secs, coin_seconds_earned = u128 0, start_claim = 0,
      coin_seconds_earned_last_update = head_block_time s\<rparr>, vb_describe = Some descr\<rparr>"
  have mk: "s' = s\<lparr>vestings := tcreate ?mk (vestings s)\<rparr> \<and> nid = Some (next_id (vestings s))"
    using False assms(2,3) by (cases ovbid) (auto simp: deposit_lazy_vesting_def Let_def split: if_splits)
  have "tfind vb_id (next_id (vestings s)) (vestings s) = None"
    using tfind_lt_next [OF assms(1)] by (cases "tfind vb_id (next_id (vestings s)) (vestings s)") auto
  then have "vesting_deposited (next_id (vestings s)) owner x s s'"
    unfolding mk [THEN conjunct1] by (simp add: vesting_deposited_def tfind_create [OF assms(1)])
  with mk show ?thesis by auto
qed

lemma deposit_witness_pay_deposits:
  assumes "table_wf vb_id (vestings (objects_db s))" "deposit_witness_pay wit x s = Inr s'" "tfind wit_id w (witnesses s) = Some wit"
    "amount x \<noteq> 0"
  shows "\<exists>i wit'. vesting_deposited i (witness_account wit) x (objects_db s) (objects_db s') \<and>
    tfind wit_id w (witnesses s') = Some wit' \<and> pay_vb wit' = Some i"
proof -
  have w: "wit_id wit = w" by (rule tfind_id [OF assms(3)])
  from assms(2,4) obtain db' nid where d: "deposit_lazy_vesting (pay_vb wit) x (witness_pay_vesting_seconds (gpo s)) (witness_account wit)
      (''1.6.'' @ decimal (wit_id wit)) True (objects_db s) = Inr (db', nid)"
    "(case nid of None \<Rightarrow> Inr (s\<lparr>objects_db := db'\<rparr>)
      | Some i \<Rightarrow> Inr (s\<lparr>objects_db := db', witnesses := tmodify wit_id (wit_id wit) (\<lambda>w. w\<lparr>pay_vb := Some i\<rparr>) (witnesses s)\<rparr>)) =
     (Inr s' :: node result)"
    by (auto simp: deposit_witness_pay_def Let_def)
  from deposit_lazy_vesting_deposits [OF assms(1) d(1) assms(4)] obtain i where
    i: "vesting_deposited i (witness_account wit) x (objects_db s) db'" "case nid of None \<Rightarrow> pay_vb wit = Some i | Some n \<Rightarrow> n = i" by blast
  then show ?thesis using d(2) assms(3) w by (cases nid) (auto simp: tfind_modify)
qed

lemma deposit_witness_pay_effect:
  assumes "db_wf (objects_db s)" "deposit_witness_pay w x s = Inr s'"
  shows "db_wf (objects_db s')" "imbalance a (objects_db s') = imbalance a (objects_db s) + amt a x" "dgp s' = dgp s" "gpo s' = gpo s"
proof -
  have *: "db_wf (objects_db s') \<and> imbalance a (objects_db s') = imbalance a (objects_db s) + amt a x \<and> dgp s' = dgp s \<and> gpo s' = gpo s"
  proof (cases "amount x = 0")
    case True
    with assms show ?thesis by (simp add: deposit_witness_pay_def amt_def)
  next
    case False
    with assms(2) obtain db' nid where d: "deposit_lazy_vesting (pay_vb w) x (witness_pay_vesting_seconds (gpo s)) (witness_account w)
        (''1.6.'' @ decimal (wit_id w)) True (objects_db s) = Inr (db', nid)" "objects_db s' = db'" "dgp s' = dgp s" "gpo s' = gpo s"
      by (auto simp: deposit_witness_pay_def Let_def split: option.splits)
    with deposit_lazy_vesting_flow [OF assms(1) d(1)] deposit_lazy_vesting_orders [OF d(1)] show ?thesis
      by (cases "a = core_asset") (auto simp: flow_def)
  qed
  then show "db_wf (objects_db s')" "imbalance a (objects_db s') = imbalance a (objects_db s) + amt a x" "dgp s' = dgp s" "gpo s' = gpo s"
    by auto
qed

lemma update_signing_witness_effect:
  assumes "db_wf (objects_db s)" "update_signing_witness w b s = Inr s'"
  shows "db_wf (objects_db s')"
    "imbalance a (objects_db s') + amt a (asset_of (witness_budget (dgp s')) core_asset) =
     imbalance a (objects_db s) + amt a (asset_of (witness_budget (dgp s)) core_asset)"
proof -
  define p where "p = min (witness_pay_per_block (gpo s)) (witness_budget (dgp s))"
  from assms(2) obtain wit slot budget s1 where u:
    "safe_sub (witness_budget (dgp s)) p = Inr budget"
    "deposit_witness_pay wit (asset_of p core_asset) (s\<lparr>dgp := (dgp s)\<lparr>witness_budget := budget\<rparr>\<rparr>) = Inr s1"
    "objects_db s' = objects_db s1" "dgp s' = dgp s1"
    by (auto simp: update_signing_witness_def Let_def p_def [symmetric] simp del: safe_sub_Inr)
  note e = deposit_witness_pay_effect [OF _ u(2)]
  show "db_wf (objects_db s')" using e(1) assms(1) u(3) by simp
  show "imbalance a (objects_db s') + amt a (asset_of (witness_budget (dgp s')) core_asset) =
     imbalance a (objects_db s) + amt a (asset_of (witness_budget (dgp s)) core_asset)"
    using e(2) [of a] e(3) u assms(1) by (simp add: amt_def asset_of_def)
qed

lemma update_signing_witness_pays:
  assumes "db_wf (objects_db s)" "update_signing_witness w b s = Inr s'" "p = min (witness_pay_per_block (gpo s)) (witness_budget (dgp s))"
  shows "witness_budget (dgp s') = witness_budget (dgp s) - p"
    "p = 0 \<Longrightarrow> objects_db s' = objects_db s"
    "p \<noteq> 0 \<Longrightarrow> \<exists>wit wit' i. tfind wit_id w (witnesses s) = Some wit \<and> tfind wit_id w (witnesses s') = Some wit' \<and> pay_vb wit' = Some i \<and>
      vesting_deposited i (witness_account wit) (asset_of p core_asset) (objects_db s) (objects_db s')"
proof -
  from assms(2) obtain wit budget s1 f where u: "tfind wit_id w (witnesses s) = Some wit"
    "safe_sub (witness_budget (dgp s)) p = Inr budget"
    "deposit_witness_pay wit (asset_of p core_asset) (s\<lparr>dgp := (dgp s)\<lparr>witness_budget := budget\<rparr>\<rparr>) = Inr s1"
    "s' = s1\<lparr>witnesses := tmodify wit_id w f (witnesses s1)\<rparr>" "\<And>x. wit_id (f x) = wit_id x" "\<And>x. pay_vb (f x) = pay_vb x"
    by (auto simp: update_signing_witness_def Let_def assms(3) [symmetric] simp del: safe_sub_Inr)
  show "witness_budget (dgp s') = witness_budget (dgp s) - p"
    using deposit_witness_pay_effect(3) [OF _ u(3)] u(2,4) assms(1) by simp
  show "objects_db s' = objects_db s" if "p = 0" using that u(3,4) by (auto simp: deposit_witness_pay_def asset_of_def)
  assume "p \<noteq> 0"
  moreover have "table_wf vb_id (vestings (objects_db s))" using assms(1) by (simp add: db_wf_def)
  ultimately obtain i wit' where "vesting_deposited i (witness_account wit) (asset_of p core_asset) (objects_db s) (objects_db s1)"
    "tfind wit_id w (witnesses s1) = Some wit'" "pay_vb wit' = Some i"
    using deposit_witness_pay_deposits [OF _ u(3), of w] u(1) by (auto simp: asset_of_def)
  then show "\<exists>wit wit' i. tfind wit_id w (witnesses s) = Some wit \<and> tfind wit_id w (witnesses s') = Some wit' \<and> pay_vb wit' = Some i \<and>
      vesting_deposited i (witness_account wit) (asset_of p core_asset) (objects_db s) (objects_db s')"
    using u by (auto simp: tfind_modify)
qed

section \<open>Properties\<close>

definition demo_witness :: "nat \<Rightarrow> 32 word \<Rightarrow> witness_object" where
  "demo_witness i n = \<lparr>wit_id = i, witness_account = 2, last_aslot = 0, pay_vb = None, last_confirmed_block_num = n\<rparr>"

definition demo_node :: node where
  "demo_node = \<lparr>objects_db = demo_db,
     dgp = \<lparr>head_block_number = 6, head_block_id = [endian_reverse_u32 6, 1, 0, 0, 0], dgp_time = 13, current_witness = 1,
       current_transaction_count = 0, next_maintenance_time = 100, witness_budget = 50, recently_missed_count = 0,
       current_aslot = 6, recent_slots_filled = of_halves 0 0x7E, dynamic_flags = 0, last_irreversible_block_num = 3\<rparr>,
     gpo = \<lparr>gp_block_interval = 2, maintenance_skip_slots = 3, witness_pay_per_block = 10, witness_pay_vesting_seconds = 60,
       active_witnesses = [1, 2, 3]\<rparr>,
     current_shuffled_witnesses = [3, 1, 2],
     witnesses = \<lparr>next_id = 4, rows = [demo_witness 1 6, demo_witness 2 4, demo_witness 3 5]\<rparr>,
     last_checkpoint = None, skip_undo_history_check = False, undo_max_size = 4, node_fork_db = fork_empty,
     block_summaries = replicate 8 null_block_id\<rparr>"

text \<open>C35: slot numbers and slot times are inverse to each other. As long as the time of the slot fits 32 bits, the slot at the
  time of slot \<open>n\<close> is \<open>n\<close>; and any time from the first slot on lies in the slot it is mapped to, less than one block
  interval after its start.\<close>

theorem slot_time_inverse:
  assumes "get_slot_time 1 s = Inr first" "slot_interval s \<noteq> 0" "0 < first"
  shows "(n \<noteq> 0 \<and> unat first + (unat n - 1) * unat (slot_interval s) < 2 ^ 32 \<longrightarrow>
      (\<exists>t. get_slot_time n s = Inr t \<and> get_slot_at_time t s = Inr n)) \<and>
    (first \<le> t \<longrightarrow> (\<exists>m t'. get_slot_at_time t s = Inr m \<and> get_slot_time m s = Inr t' \<and> t' \<le> t \<and> t - t' < slot_interval s)) \<and>
    (t < first \<longrightarrow> get_slot_at_time t s = Inr 0)"
  using slot_time_roundtrip [OF assms(1,2)] slot_at_time_bounds [OF assms] assms(1) by (simp add: get_slot_at_time_def)

theorem slot_time_inverse_witness:
  "(\<exists>t. get_slot_time 5 demo_node = Inr t \<and> get_slot_at_time t demo_node = Inr 5) \<and>
   (\<exists>m t'. get_slot_at_time 25 demo_node = Inr m \<and> get_slot_time m demo_node = Inr t' \<and> t' \<le> 25 \<and> 25 - t' < slot_interval demo_node)"
proof -
  have "get_slot_time 1 demo_node = Inr 14" "slot_interval demo_node = 2" by code_simp+
  then show ?thesis using slot_time_inverse [of demo_node 14 5 25] by simp
qed

text \<open>C10: the schedule is fair. After the schedule is shuffled, any run of as many consecutive slots as there are active witnesses
  schedules every active witness exactly once.\<close>

theorem schedule_round_fair:
  assumes "update_witness_schedule s = Inr s'" "unat (head_block_number (dgp s)) mod length (active_witnesses (gpo s)) = 0"
    "k + length (active_witnesses (gpo s)) < 2 ^ 32"
    "unat (current_aslot (dgp s)) + k + length (active_witnesses (gpo s)) < 2 ^ 64"
  shows "mset (map (\<lambda>i. get_scheduled_witness (of_nat (k + i)) s') [0..<length (active_witnesses (gpo s))]) =
    mset (map Inr (active_witnesses (gpo s)))"
proof -
  let ?ws = "active_witnesses (gpo s)" and ?h = "push_bit 32 (ucast (dgp_time (dgp s)))"
  from assms(1,2) have s': "?ws \<noteq> []" "s' = s\<lparr>current_shuffled_witnesses := shuffle ?h ?ws\<rparr>"
    by (auto simp: update_witness_schedule_def split: if_splits)
  have m: "mset (shuffle ?h ?ws) = mset ?ws" using shuffle_mset assms(3) by simp
  then have l: "length (shuffle ?h ?ws) = length ?ws" by (rule mset_eq_length)
  then have ne: "shuffle ?h ?ws \<noteq> []" using s'(1) by auto
  have "map (\<lambda>i. get_scheduled_witness (of_nat (k + i)) s') [0..<length ?ws] =
      map Inr (rotate (unat (current_aslot (dgp s)) + k) (shuffle ?h ?ws))"
    using consecutive_slots [OF _ ne, of s' k] s'(2) assms(3,4) l by simp
  then show ?thesis using m by (simp add: mset_rotate_eq)
qed

theorem schedule_round_fair_witness:
  "\<exists>s'. update_witness_schedule demo_node = Inr s' \<and>
    mset [get_scheduled_witness 2 s', get_scheduled_witness 3 s', get_scheduled_witness 4 s'] = mset [Inr 1, Inr 2, Inr 3]"
proof -
  have "case update_witness_schedule demo_node of Inl _ \<Rightarrow> False | Inr _ \<Rightarrow> True" by code_simp
  then obtain s' where s': "update_witness_schedule demo_node = Inr s'" by (auto split: sum.splits)
  have f: "unat (head_block_number (dgp demo_node)) = 6" "active_witnesses (gpo demo_node) = [1, 2, 3]"
    "unat (current_aslot (dgp demo_node)) = 6" by code_simp+
  show ?thesis using schedule_round_fair [OF s', of 2] s' f by simp
qed

text \<open>C11: a block becomes irreversible only with seventy percent. The last irreversible block number never decreases, and when it
  grows to \<open>n\<close>, at least seventy percent of the active witnesses have confirmed a block numbered \<open>n\<close> or higher.\<close>

theorem irreversible_block_supermajority:
  assumes "update_last_irreversible_block s = Inr s'"
  shows "last_irreversible_block_num (dgp s) \<le> last_irreversible_block_num (dgp s') \<and>
    (last_irreversible_block_num (dgp s') = last_irreversible_block_num (dgp s) \<or>
     7000 * length (active_witnesses (gpo s)) \<le> 10000 * length (confirmed_at_least (last_irreversible_block_num (dgp s')) s))"
  using last_irreversible_cases [OF assms] by auto

theorem irreversible_block_supermajority_witness:
  "\<exists>s'. update_last_irreversible_block demo_node = Inr s' \<and> last_irreversible_block_num (dgp s') = 4 \<and>
    21000 \<le> 10000 * length (confirmed_at_least 4 demo_node)"
proof -
  have "case update_last_irreversible_block demo_node of Inl _ \<Rightarrow> False | Inr s' \<Rightarrow> last_irreversible_block_num (dgp s') = 4" by code_simp
  then obtain s' where s': "update_last_irreversible_block demo_node = Inr s'" "last_irreversible_block_num (dgp s') = 4"
    by (auto split: sum.splits)
  have "last_irreversible_block_num (dgp demo_node) = 3" "length (active_witnesses (gpo demo_node)) = 3" by code_simp+
  with irreversible_block_supermajority [OF s'(1)] s' show ?thesis by auto
qed

text \<open>C36: the participation window counts one slot per block, but not the block's own slot. When the window agrees with the set of
  recorded slots, it does so after a block that comes \<open>slot\<close> slots later with the slot right after the previous block
  added (the first missed one if slots were missed), and the participation rate is the recorded share of the last 128
  slots.\<close>

theorem participation_window:
  assumes "filled_window F s" "update_global_dynamic_data b s = Inr s'" "get_slot_at_time (timestamp b) s = Inr slot" "slot \<noteq> 0"
    "unat (current_aslot (dgp s)) + unat slot < 2 ^ 64"
  shows "filled_window (insert (unat (current_aslot (dgp s)) + 1) F) s' \<and>
    unat (current_aslot (dgp s')) = unat (current_aslot (dgp s)) + unat slot \<and>
    (127 \<le> unat (current_aslot (dgp s')) \<longrightarrow> unat (witness_participation_rate s') =
       10000 * card (insert (unat (current_aslot (dgp s)) + 1) F \<inter>
         {unat (current_aslot (dgp s')) - 127..unat (current_aslot (dgp s'))}) div 128)"
proof -
  have "unat (current_aslot (dgp s')) = unat (current_aslot (dgp s)) + unat slot"
    using update_global_dynamic_data_dgp(2) [OF assms(2,3)] assms(5)
    by (simp add: unat_word_ariths unsigned_ucast_eq take_bit_nat_eq_self)
  then show ?thesis using filled_window_step [OF assms] participation_rate_window by blast
qed

definition demo_next_block :: "unit signed_block" where
  "demo_next_block = \<lparr>previous = [endian_reverse_u32 6, 1, 0, 0, 0], timestamp = 18, witness = 2, transaction_merkle_root = [], extensions = None,
     witness_signature = [], block_id = [endian_reverse_u32 7, 5, 0, 0, 0], transactions = []\<rparr>"

lemma demo_window: "filled_window {0, 1, 2, 3, 4, 5} demo_node"
proof -
  have a: "unat (current_aslot (dgp demo_node)) = 6" by code_simp
  have "\<forall>k \<in> set [0..<7]. bit (u128w (recent_slots_filled (dgp demo_node))) k = (6 - k \<in> {0, 1, 2, 3, 4, 5 :: nat})" by code_simp
  with a show ?thesis by (auto simp: filled_window_def)
qed

theorem participation_window_witness:
  "\<exists>s'. update_global_dynamic_data demo_next_block demo_node = Inr s' \<and> filled_window {0, 1, 2, 3, 4, 5, 7} s' \<and>
    unat (current_aslot (dgp s')) = 9"
proof -
  have "get_slot_at_time (timestamp demo_next_block) demo_node = Inr 3 \<and>
      (case update_global_dynamic_data demo_next_block demo_node of Inl _ \<Rightarrow> False | Inr s' \<Rightarrow> True)" by code_simp
  then obtain s' where s': "get_slot_at_time (timestamp demo_next_block) demo_node = Inr 3"
    "update_global_dynamic_data demo_next_block demo_node = Inr s'" by (auto split: sum.splits)
  have a: "unat (current_aslot (dgp demo_node)) = 6" by code_simp
  have "insert 7 {0, 1, 2, 3, 4, 5 :: nat} = {0, 1, 2, 3, 4, 5, 7}" by auto
  with participation_window [OF demo_window s'(2,1)] a s' show ?thesis by simp
qed

text \<open>C37: paying the signing witness moves core out of the budget into the vesting balance of its account. The pay is the pay per
  block, or the whole budget when that is less, and the budget loses exactly the pay. A pay of zero changes no object. Any other
  pay is added to the one vesting balance that the witness refers to afterwards, its old one or a new one; that balance belongs to the
  account of the witness and holds core, every other vesting balance and every other table is unchanged. So for every asset the sum of the
  imbalance and the remaining budget is unchanged, and the database stays well-formed.\<close>

theorem witness_pay_conserves:
  assumes "db_wf (objects_db s)" "update_signing_witness w b s = Inr s'"
  defines "p \<equiv> min (witness_pay_per_block (gpo s)) (witness_budget (dgp s))"
  shows "db_wf (objects_db s') \<and> imbalance a (objects_db s') + amt a (asset_of (witness_budget (dgp s')) core_asset) =
      imbalance a (objects_db s) + amt a (asset_of (witness_budget (dgp s)) core_asset) \<and>
    witness_budget (dgp s') = witness_budget (dgp s) - p \<and>
    (p = 0 \<longrightarrow> objects_db s' = objects_db s) \<and>
    (p \<noteq> 0 \<longrightarrow> (\<exists>wit wit' i v. tfind wit_id w (witnesses s) = Some wit \<and> tfind wit_id w (witnesses s') = Some wit' \<and>
       pay_vb wit' = Some i \<and> tfind vb_id i (vestings (objects_db s')) = Some v \<and>
       vb_owner v = witness_account wit \<and> asset_id (vb_balance v) = core_asset \<and>
       amount (vb_balance v) = (case tfind vb_id i (vestings (objects_db s)) of None \<Rightarrow> 0 | Some old \<Rightarrow> amount (vb_balance old)) + p \<and>
       (\<forall>j. j \<noteq> i \<longrightarrow> tfind vb_id j (vestings (objects_db s')) = tfind vb_id j (vestings (objects_db s))) \<and>
       objects_db s' = (objects_db s)\<lparr>vestings := vestings (objects_db s')\<rparr>))"
  using update_signing_witness_effect [OF assms(1,2)] update_signing_witness_pays [OF assms(1,2), of p]
  by (simp add: p_def vesting_deposited_def asset_of_def) blast

theorem witness_pay_conserves_witness:
  "\<exists>s' wit' i v. update_signing_witness 2 demo_next_block demo_node = Inr s' \<and> db_wf (objects_db s') \<and> witness_budget (dgp s') = 40 \<and>
    imbalance 0 (objects_db s') = imbalance 0 demo_db + 10 \<and> tfind wit_id 2 (witnesses s') = Some wit' \<and> pay_vb wit' = Some i \<and>
    tfind vb_id i (vestings (objects_db s')) = Some v \<and> vb_owner v = 2"
proof -
  have "case update_signing_witness 2 demo_next_block demo_node of Inl _ \<Rightarrow> False | Inr s' \<Rightarrow> witness_budget (dgp s') = 40" by code_simp
  then obtain s' where s': "update_signing_witness 2 demo_next_block demo_node = Inr s'" "witness_budget (dgp s') = 40"
    by (auto split: sum.splits)
  have d: "objects_db demo_node = demo_db" "witness_budget (dgp demo_node) = 50" "witness_pay_per_block (gpo demo_node) = 10"
    by (simp_all add: demo_node_def)
  have w: "tfind wit_id 2 (witnesses demo_node) = Some (demo_witness 2 4)" "witness_account (demo_witness 2 4) = 2" by code_simp+
  from witness_pay_conserves [OF _ s'(1), of 0] demo_db_facts(2) s' d
  have "db_wf (objects_db s') \<and> imbalance 0 (objects_db s') = imbalance 0 demo_db + 10" by (simp add: amt_def asset_of_def core_asset_def)
  moreover from witness_pay_conserves [OF _ s'(1), of 0] demo_db_facts(2) d w
  have "\<exists>wit' i v. tfind wit_id 2 (witnesses s') = Some wit' \<and> pay_vb wit' = Some i \<and>
    tfind vb_id i (vestings (objects_db s')) = Some v \<and> vb_owner v = 2" by (auto simp: min_def)
  ultimately show ?thesis using s' by blast
qed

end
