(* ===== verification/Apply_Block.thy ===== *)
theory Apply_Block
  imports Witness_Schedule
begin

text \<open>The application of a block (\<open>apply_block\<close>, \<open>_apply_block\<close>, \<open>validate_block_header\<close> and \<open>create_block_summary\<close> of \<open>db_block.cpp\<close>):
  the header checks, the transactions, the updates of \<open>Witness_Schedule\<close> in the order of the code, and the block summary. The
  transaction evaluators, the chain maintenance and the removal of expired objects are the functions of the record \<open>apply_hooks\<close>, as are
  the elliptic-curve check of the signature and the hashes of the merkle root; the theorems name what they rely on. The end of
  \<open>_apply_block\<close> is left out: the updates a debugging node may have been given for the block, which are none on a chain
  node, and the signals to the observers of the database (\<open>applied_block\<close>, \<open>notify_changed_objects\<close>).\<close>

unbundle bit_operations_syntax

section \<open>Skip flags\<close>

definition skip_witness_signature :: "32 word" where "skip_witness_signature = push_bit 0 1"

definition skip_authority_check :: "32 word" where "skip_authority_check = push_bit 6 1"

definition skip_merkle_check :: "32 word" where "skip_merkle_check = push_bit 7 1"

definition skip_undo_check :: "32 word" where "skip_undo_check = push_bit 9 1"

definition skip_witness_schedule_check :: "32 word" where "skip_witness_schedule_check = push_bit 10 1"

section \<open>The code around\<close>

record 'tx apply_hooks =
  merkle_root_of :: "'tx signed_block \<Rightarrow> 32 word list"
  signee_ok :: "'tx signed_block \<Rightarrow> witness_object \<Rightarrow> bool"
  has_results :: "'tx \<Rightarrow> bool"
  hook_transaction :: "'tx \<Rightarrow> 32 word \<Rightarrow> node \<Rightarrow> node result"
  hook_maintenance :: "'tx signed_block \<Rightarrow> node \<Rightarrow> node result"
  hook_expire :: "node \<Rightarrow> node result"

section \<open>Applying a block\<close>

definition validate_block_header :: "'tx apply_hooks \<Rightarrow> 32 word \<Rightarrow> 'tx signed_block \<Rightarrow> node \<Rightarrow> witness_object result" where
  "validate_block_header h skip b s =
     (if \<not> head_block_id (dgp s) = previous b then Inl Assert_exception
      else if \<not> dgp_time (dgp s) < timestamp b then Inl Assert_exception
      else bindE (tget wit_id (witness b) (witnesses s)) (\<lambda>w.
        if skip AND skip_witness_signature = 0 \<and> \<not> signee_ok h b w then Inl Assert_exception
        else if skip AND skip_witness_schedule_check = 0
        then bindE (get_slot_at_time (timestamp b) s) (\<lambda>slot_num.
             if \<not> slot_num > 0 then Inl Assert_exception
             else bindE (get_scheduled_witness slot_num s) (\<lambda>scheduled_witness.
                  if \<not> witness b = scheduled_witness then Inl Assert_exception else Inr w))
        else Inr w))"

definition create_block_summary :: "'tx signed_block \<Rightarrow> node \<Rightarrow> node result" where
  "create_block_summary b s =
     (let sid = unat (block_num b AND 0xffff)
      in if sid < length (block_summaries s) then Inr (s\<lparr>block_summaries := (block_summaries s)[sid := block_id b]\<rparr>)
         else Inl Assert_exception)"

text \<open>\<open>_apply_block\<close> up to the call of \<open>update_global_dynamic_data\<close>, which sets the size of the undo history and of the fork
  database, and what follows.\<close>

definition apply_transactions :: "'tx apply_hooks \<Rightarrow> 32 word \<Rightarrow> 'tx list \<Rightarrow> node \<Rightarrow> node result" where
  "apply_transactions h skip =
     foldE (\<lambda>tx s. if \<not> has_results h tx then Inl Assert_exception else hook_transaction h tx (skip OR skip_authority_check) s)"

definition apply_block_first :: "'tx apply_hooks \<Rightarrow> 32 word \<Rightarrow> 'tx signed_block \<Rightarrow> node \<Rightarrow> node result" where
  "apply_block_first h skip b s =
     (if \<not> (skip AND skip_merkle_check \<noteq> 0 \<or> transaction_merkle_root b = merkle_root_of h b) then Inl Assert_exception
      else bindE (validate_block_header h skip b s) (\<lambda>_.
           bindE (apply_transactions h skip (transactions b) s) (update_global_dynamic_data b)))"

definition apply_block_second :: "'tx apply_hooks \<Rightarrow> 'tx signed_block \<Rightarrow> bool \<Rightarrow> node \<Rightarrow> node result" where
  "apply_block_second h b maint_needed s =
     bindE (update_signing_witness (witness b) b s) (\<lambda>s1.
     bindE (update_last_irreversible_block s1) (\<lambda>s2.
     bindE (if maint_needed then hook_maintenance h b s2 else Inr s2) (\<lambda>s3.
     bindE (create_block_summary b s3) (\<lambda>s4.
     bindE (hook_expire h s4) (\<lambda>s5.
     update_witness_schedule (update_maintenance_flag maint_needed s5))))))"

text \<open>The result comes with the new size of the two histories, once it was set: that change is not undone when the block fails.\<close>

definition do_apply_block :: "'tx apply_hooks \<Rightarrow> 32 word \<Rightarrow> 'tx signed_block \<Rightarrow> node \<Rightarrow> 32 word option \<times> node result" where
  "do_apply_block h skip b s =
     (let maint_needed = (next_maintenance_time (dgp s) \<le> timestamp b); s0 = s\<lparr>skip_undo_history_check := (skip AND skip_undo_check \<noteq> 0)\<rparr>
      in case apply_block_first h skip b s0 of
           Inl e \<Rightarrow> (None, Inl e)
         | Inr s1 \<Rightarrow> (Some (of_nat (undo_max_size s1)),
             bindE (apply_block_second h b maint_needed s1) (\<lambda>s2. Inr (s2\<lparr>skip_undo_history_check := skip_undo_history_check s\<rparr>))))"

text \<open>The checkpoints are sorted by block number. \<open>update_global_dynamic_data\<close> reads the number of the last one, which the node
  carries as \<open>last_checkpoint\<close>.\<close>

definition apply_block ::
  "'tx apply_hooks \<Rightarrow> (32 word \<times> block_id_type) list \<Rightarrow> 32 word \<Rightarrow> 'tx signed_block \<Rightarrow> node \<Rightarrow> 32 word option \<times> node result" where
  "apply_block h checkpoints skip b s =
     (let s0 = s\<lparr>last_checkpoint := (if checkpoints = [] then None else Some (fst (last checkpoints)))\<rparr>
      in if checkpoints \<noteq> [] \<and> snd (last checkpoints) \<noteq> null_block_id
         then if (case map_of checkpoints (block_num b) of None \<Rightarrow> False | Some i \<Rightarrow> block_id b \<noteq> i) then (None, Inl Assert_exception)
              else do_apply_block h (if fst (last checkpoints) \<ge> block_num b then NOT 0 else skip) b s0
         else do_apply_block h skip b s0)"

section \<open>What the phases keep\<close>

definition same_head :: "node \<Rightarrow> node \<Rightarrow> bool" where
  "same_head s s' \<longleftrightarrow> head_block_id (dgp s') = head_block_id (dgp s) \<and> head_block_number (dgp s') = head_block_number (dgp s) \<and>
     dgp_time (dgp s') = dgp_time (dgp s)"

text \<open>No evaluator, no maintenance step and no removal of expired objects writes the fields of the head block or the block summaries.\<close>

definition hooks_keep_head :: "'tx apply_hooks \<Rightarrow> bool" where
  "hooks_keep_head h \<longleftrightarrow>
     (\<forall>tx sk s s'. hook_transaction h tx sk s = Inr s' \<longrightarrow> same_head s s') \<and>
     (\<forall>b s s'. hook_maintenance h b s = Inr s' \<longrightarrow> same_head s s') \<and>
     (\<forall>s s'. hook_expire h s = Inr s' \<longrightarrow> same_head s s' \<and> block_summaries s' = block_summaries s)"

lemma same_head_refl [simp]: "same_head s s"
  by (simp add: same_head_def)

lemma same_head_trans [trans]: "same_head s s' \<Longrightarrow> same_head s' s'' \<Longrightarrow> same_head s s''"
  by (simp add: same_head_def)

lemma deposit_witness_pay_head: "deposit_witness_pay w a s = Inr s' \<Longrightarrow> dgp s' = dgp s"
  by (auto simp: deposit_witness_pay_def Let_def split: if_splits prod.splits option.splits)

lemma update_signing_witness_head: "update_signing_witness w b s = Inr s' \<Longrightarrow> same_head s s'"
  by (auto simp: update_signing_witness_def same_head_def Let_def dest!: deposit_witness_pay_head)

lemma update_last_irreversible_block_head: "update_last_irreversible_block s = Inr s' \<Longrightarrow> same_head s s'"
  by (auto simp: update_last_irreversible_block_def same_head_def Let_def split: if_splits)

lemma update_witness_schedule_head: "update_witness_schedule s = Inr s' \<Longrightarrow> same_head s s' \<and> block_summaries s' = block_summaries s"
  by (auto simp: update_witness_schedule_def same_head_def split: if_splits)

lemma update_maintenance_flag_head: "same_head s (update_maintenance_flag m s)" "block_summaries (update_maintenance_flag m s) = block_summaries s"
  by (simp_all add: update_maintenance_flag_def same_head_def)

lemma create_block_summary_head:
  "create_block_summary b s = Inr s' \<Longrightarrow> same_head s s' \<and> unat (block_num b AND 0xffff) < length (block_summaries s') \<and>
    block_summaries s' ! unat (block_num b AND 0xffff) = block_id b"
  by (auto simp: create_block_summary_def same_head_def Let_def split: if_splits)

lemma apply_transactions_head:
  assumes "hooks_keep_head h" "apply_transactions h skip txs s = Inr s'"
  shows "same_head s s'"
  using assms(2) unfolding apply_transactions_def
proof (induction txs arbitrary: s)
  case (Cons tx txs)
  then obtain s1 where s1: "hook_transaction h tx (skip OR skip_authority_check) s = Inr s1"
    "foldE (\<lambda>tx s. if \<not> has_results h tx then Inl Assert_exception else hook_transaction h tx (skip OR skip_authority_check) s) txs s1 = Inr s'"
    by (auto split: if_splits)
  from s1(1) assms(1) have "same_head s s1" by (auto simp: hooks_keep_head_def)
  with Cons.IH [OF s1(2)] show ?case by (blast intro: same_head_trans)
qed simp

lemma update_global_head:
  "update_global_dynamic_data b s = Inr s' \<Longrightarrow> head_block_id (dgp s') = block_id b \<and> head_block_number (dgp s') = block_num b \<and>
    dgp_time (dgp s') = timestamp b"
  by (auto simp: update_global_dynamic_data_def Let_def split: if_splits)

lemma apply_block_second_head:
  assumes "hooks_keep_head h" "apply_block_second h b m s = Inr s'"
  shows "same_head s s' \<and> unat (block_num b AND 0xffff) < length (block_summaries s') \<and>
    block_summaries s' ! unat (block_num b AND 0xffff) = block_id b"
proof -
  from assms(2) obtain s1 s2 s3 s4 s5 where s: "update_signing_witness (witness b) b s = Inr s1" "update_last_irreversible_block s1 = Inr s2"
    "(if m then hook_maintenance h b s2 else Inr s2) = Inr s3" "create_block_summary b s3 = Inr s4" "hook_expire h s4 = Inr s5"
    "update_witness_schedule (update_maintenance_flag m s5) = Inr s'"
    by (auto simp: apply_block_second_def)
  have "same_head s2 s3" using s(3) assms(1) by (auto simp: hooks_keep_head_def split: if_splits)
  moreover have "same_head s4 s5" "block_summaries s5 = block_summaries s4" using s(5) assms(1) by (auto simp: hooks_keep_head_def)
  moreover note update_signing_witness_head [OF s(1)] update_last_irreversible_block_head [OF s(2)] create_block_summary_head [OF s(4)]
    update_witness_schedule_head [OF s(6)] update_maintenance_flag_head [where s = s5 and m = m]
  ultimately show ?thesis by (simp add: same_head_def)
qed


text \<open>The skip flags in force: all of them up to the last checkpoint.\<close>

definition skip_in_force :: "(32 word \<times> block_id_type) list \<Rightarrow> 32 word \<Rightarrow> 'tx signed_block \<Rightarrow> 32 word" where
  "skip_in_force checkpoints skip b =
     (if checkpoints \<noteq> [] \<and> snd (last checkpoints) \<noteq> null_block_id \<and> fst (last checkpoints) \<ge> block_num b then NOT 0 else skip)"

lemma apply_block_run:
  assumes "apply_block h checkpoints skip b s = (lim, Inr s')"
  shows "\<exists>cp. do_apply_block h (skip_in_force checkpoints skip b) b (s\<lparr>last_checkpoint := cp\<rparr>) = (lim, Inr s')"
  using assms by (auto simp: apply_block_def skip_in_force_def Let_def split: if_splits option.splits)

lemma do_apply_block_run:
  assumes "do_apply_block h skip b s = (lim, Inr s')"
  obtains s1 s2 where "apply_block_first h skip b (s\<lparr>skip_undo_history_check := (skip AND skip_undo_check \<noteq> 0)\<rparr>) = Inr s1"
    "apply_block_second h b (next_maintenance_time (dgp s) \<le> timestamp b) s1 = Inr s2" "lim = Some (of_nat (undo_max_size s1))"
    "s' = s2\<lparr>skip_undo_history_check := skip_undo_history_check s\<rparr>"
  using assms by (auto simp: do_apply_block_def Let_def split: sum.splits)

lemma slot_of_flag [simp]: "get_slot_at_time t (s\<lparr>skip_undo_history_check := x\<rparr>) = get_slot_at_time t s"
  "get_scheduled_witness n (s\<lparr>skip_undo_history_check := x\<rparr>) = get_scheduled_witness n s"
  "get_slot_at_time t (s\<lparr>last_checkpoint := y\<rparr>) = get_slot_at_time t s"
  "get_scheduled_witness n (s\<lparr>last_checkpoint := y\<rparr>) = get_scheduled_witness n s"
  by (simp_all add: get_slot_at_time_def get_slot_time_def slot_interval_def get_scheduled_witness_def)

lemma apply_block_head:
  assumes "hooks_keep_head h" "apply_block h checkpoints skip b s = (lim, Inr s')"
  shows "head_block_id (dgp s) = previous b \<and> head_block_id (dgp s') = block_id b \<and> head_block_number (dgp s') = block_num b \<and>
    dgp_time (dgp s) < dgp_time (dgp s') \<and> dgp_time (dgp s') = timestamp b \<and>
    unat (block_num b AND 0xffff) < length (block_summaries s') \<and> block_summaries s' ! unat (block_num b AND 0xffff) = block_id b"
proof -
  obtain cp where run: "do_apply_block h (skip_in_force checkpoints skip b) b (s\<lparr>last_checkpoint := cp\<rparr>) = (lim, Inr s')"
    using apply_block_run [OF assms(2)] by blast
  from do_apply_block_run [OF run, simplified] obtain s1 s2 where
    f: "apply_block_first h (skip_in_force checkpoints skip b) b
      (s\<lparr>last_checkpoint := cp, skip_undo_history_check := (skip_in_force checkpoints skip b AND skip_undo_check \<noteq> 0)\<rparr>) = Inr s1" and
    g: "apply_block_second h b (next_maintenance_time (dgp s) \<le> timestamp b) s1 = Inr s2" and
    s': "s' = s2\<lparr>skip_undo_history_check := skip_undo_history_check s\<rparr>" by blast
  from f obtain s0 where "update_global_dynamic_data b s0 = Inr s1" "head_block_id (dgp s) = previous b" "dgp_time (dgp s) < timestamp b"
    by (auto simp: apply_block_first_def validate_block_header_def split: if_splits)
  with update_global_head [of b s0 s1] apply_block_second_head [OF assms(1) g] s' show ?thesis by (simp add: same_head_def)
qed

section \<open>Properties\<close>

text \<open>C9: an applied block extends the chain in the slot of its witness. When \<open>apply_block\<close> succeeds, the block builds on the old head, is
  later than it, and becomes the head with its number, its time and its summary; and unless the schedule check is skipped (by
  the flags or a checkpoint), its time lies in a slot after the head and its witness is the one scheduled there; and a checkpoint for
  its number names its id. The evaluators, the maintenance and the removal of expired objects are assumed not to write
  the head fields.\<close>

theorem apply_block_extends_chain:
  assumes "hooks_keep_head h" "apply_block h checkpoints skip b s = (lim, Inr s')"
  shows "head_block_id (dgp s) = previous b \<and> head_block_id (dgp s') = block_id b \<and> head_block_number (dgp s') = block_num b \<and>
    dgp_time (dgp s) < dgp_time (dgp s') \<and> dgp_time (dgp s') = timestamp b \<and>
    block_summaries s' ! unat (block_num b AND 0xffff) = block_id b \<and>
    (skip_in_force checkpoints skip b AND skip_witness_schedule_check = 0 \<longrightarrow>
      (\<exists>slot > 0. get_slot_at_time (timestamp b) s = Inr slot \<and> get_scheduled_witness slot s = Inr (witness b))) \<and>
    (checkpoints \<noteq> [] \<longrightarrow> snd (last checkpoints) \<noteq> null_block_id \<longrightarrow> (\<forall>i. map_of checkpoints (block_num b) = Some i \<longrightarrow> block_id b = i))"
proof -
  obtain cp where run: "do_apply_block h (skip_in_force checkpoints skip b) b (s\<lparr>last_checkpoint := cp\<rparr>) = (lim, Inr s')"
    using apply_block_run [OF assms(2)] by blast
  from do_apply_block_run [OF run] obtain s1 where
    f: "apply_block_first h (skip_in_force checkpoints skip b) b
      (s\<lparr>last_checkpoint := cp, skip_undo_history_check := (skip_in_force checkpoints skip b AND skip_undo_check \<noteq> 0)\<rparr>) = Inr s1" by blast
  then have "skip_in_force checkpoints skip b AND skip_witness_schedule_check = 0 \<Longrightarrow>
      \<exists>slot > 0. get_slot_at_time (timestamp b) s = Inr slot \<and> get_scheduled_witness slot s = Inr (witness b)"
    by (auto simp: apply_block_first_def validate_block_header_def split: if_splits)
  moreover have "checkpoints \<noteq> [] \<longrightarrow> snd (last checkpoints) \<noteq> null_block_id \<longrightarrow> (\<forall>i. map_of checkpoints (block_num b) = Some i \<longrightarrow> block_id b = i)"
    using assms(2) by (auto simp: apply_block_def Let_def split: if_splits)
  ultimately show ?thesis using apply_block_head [OF assms] by blast
qed

definition demo_hooks :: "unit apply_hooks" where
  "demo_hooks = \<lparr>merkle_root_of = (\<lambda>_. []), signee_ok = (\<lambda>_ _. True), has_results = (\<lambda>_. True), hook_transaction = (\<lambda>_ _. Inr),
     hook_maintenance = (\<lambda>_. Inr), hook_expire = Inr\<rparr>"

definition next_block :: "unit signed_block" where
  "next_block = demo_next_block\<lparr>witness := 3\<rparr>"

theorem apply_block_extends_chain_witness:
  "\<exists>lim s'. apply_block demo_hooks [] 0 next_block demo_node = (lim, Inr s') \<and>
    head_block_id (dgp s') = [endian_reverse_u32 7, 5, 0, 0, 0] \<and> block_summaries s' ! 7 = [endian_reverse_u32 7, 5, 0, 0, 0] \<and>
    (\<exists>slot > 0. get_slot_at_time 18 demo_node = Inr slot \<and> get_scheduled_witness slot demo_node = Inr 3)"
proof -
  have "case snd (apply_block demo_hooks [] 0 next_block demo_node) of Inl _ \<Rightarrow> False | Inr _ \<Rightarrow> True" by code_simp
  then obtain lim s' where r: "apply_block demo_hooks [] 0 next_block demo_node = (lim, Inr s')"
    by (cases "apply_block demo_hooks [] 0 next_block demo_node") (auto split: sum.splits)
  have "hooks_keep_head demo_hooks" by (simp add: hooks_keep_head_def demo_hooks_def)
  note this [THEN apply_block_extends_chain, OF r]
  moreover have "block_id next_block = [endian_reverse_u32 7, 5, 0, 0, 0]" "timestamp next_block = 18" "witness next_block = 3"
    "unat (block_num next_block AND 0xffff) = 7" "skip_in_force [] 0 next_block AND skip_witness_schedule_check = 0" by code_simp+
  ultimately show ?thesis using r by auto
qed

end
