(* ===== verification/Raw.thy ===== *)
theory Raw
  imports Block
begin

text \<open>The binary serialization of \<open>fc/io/raw.hpp\<close>, \<open>fc/io/datastream.hpp\<close> and \<open>fc/io/varint.hpp\<close>: integers in the byte order of the
  machine (little endian), the two variable-length integers, \<open>optional\<close>, \<open>pair\<close>, \<open>vector\<close>, \<open>string\<close>, \<open>static_variant\<close>, and the
  reflected block types of \<open>protocol/block.hpp\<close>. \<open>pack\<close> returns the bytes it writes; \<open>unpack\<close> reads from a stream of bytes and
  returns the value with the bytes that are left. What a serialized type promises is the locale \<open>codec\<close>: \<open>unpack\<close> reads back
  what \<open>pack\<close> wrote and nothing else; it is interpreted for every type of a block header.\<close>

unbundle bit_operations_syntax

section \<open>Data streams\<close>

type_synonym bytes = "8 word list"

type_synonym 'a unpacker = "bytes \<Rightarrow> ('a \<times> bytes) result"

definition ds_read :: "nat \<Rightarrow> bytes unpacker" where
  "ds_read n bs = (if length bs \<ge> n then Inr (take n bs, drop n bs) else Inl Out_of_range_exception)"

definition bindU :: "'a unpacker \<Rightarrow> ('a \<Rightarrow> 'b unpacker) \<Rightarrow> 'b unpacker" where
  "bindU m f bs = bindE (m bs) (\<lambda>(x, rest). f x rest)"

definition retU :: "'a \<Rightarrow> 'a unpacker" where
  "retU x bs = Inr (x, bs)"

definition throwU :: "chain_error \<Rightarrow> 'a unpacker" where
  "throwU e bs = Inl e"

text \<open>The object representation of an integer of \<open>n\<close> bytes.\<close>

definition le_bytes :: "nat \<Rightarrow> 'a :: len word \<Rightarrow> bytes" where
  "le_bytes n w = map (\<lambda>i. ucast (drop_bit (8 * i) w)) [0..<n]"

primrec of_le_bytes :: "bytes \<Rightarrow> 'a :: len word" where
  "of_le_bytes [] = 0"
| "of_le_bytes (b # bs) = ucast b OR push_bit 8 (of_le_bytes bs)"

section \<open>Integers of fixed width\<close>

definition pack_u8 :: "8 word \<Rightarrow> bytes" where "pack_u8 v = le_bytes 1 v"

definition unpack_u8 :: "8 word unpacker" where "unpack_u8 = bindU (ds_read 1) (\<lambda>bs. retU (of_le_bytes bs))"

definition pack_u16 :: "16 word \<Rightarrow> bytes" where "pack_u16 v = le_bytes 2 v"

definition unpack_u16 :: "16 word unpacker" where "unpack_u16 = bindU (ds_read 2) (\<lambda>bs. retU (of_le_bytes bs))"

definition pack_u32 :: "32 word \<Rightarrow> bytes" where "pack_u32 v = le_bytes 4 v"

definition unpack_u32 :: "32 word unpacker" where "unpack_u32 = bindU (ds_read 4) (\<lambda>bs. retU (of_le_bytes bs))"

definition pack_u64 :: "64 word \<Rightarrow> bytes" where "pack_u64 v = le_bytes 8 v"

definition unpack_u64 :: "64 word unpacker" where "unpack_u64 = bindU (ds_read 8) (\<lambda>bs. retU (of_le_bytes bs))"

definition pack_bool :: "bool \<Rightarrow> bytes" where "pack_bool v = pack_u8 (if v then 1 else 0)"

definition unpack_bool :: "bool unpacker" where
  "unpack_bool = bindU unpack_u8 (\<lambda>b. if b AND NOT 1 \<noteq> 0 then throwU Assert_exception else retU (b \<noteq> 0))"

section \<open>Integers of variable width\<close>

text \<open>Both writers are this loop, over a \<open>uint64_t\<close> or a \<open>uint32_t\<close>; the terminating test is on the shifted value.\<close>

function pack_varint :: "'a :: len word \<Rightarrow> bytes" where
  "pack_varint val =
     (let b = ucast val AND 0x7F; val' = drop_bit 7 val
      in (b OR (if val' > 0 then 0x80 else 0)) # (if val' \<noteq> 0 then pack_varint val' else []))"
  by auto

termination
proof (relation "measure unat")
  fix val val' :: "'a word" and b :: "8 word"
  assume v: "val' = drop_bit 7 val" "val' \<noteq> 0"
  have "unat val' = drop_bit 7 (unat val)" unfolding v(1) by (rule unat_drop_bit_eq)
  moreover have "unat val' \<noteq> 0" using v(2) by (simp add: unsigned_eq_0_iff)
  ultimately show "(val', val) \<in> measure unat" by (simp add: drop_bit_eq_div)
qed simp

declare pack_varint.simps [simp del]

text \<open>Both readers: each group of seven bits is shifted as a \<open>uint32_t\<close>; a shift by 32 or more is undefined.\<close>

fun unpack_varint :: "'a :: len word \<Rightarrow> nat \<Rightarrow> 'a word unpacker" where
  "unpack_varint v by [] = Inl Out_of_range_exception"
| "unpack_varint v by (b # bs) =
     (if by \<ge> 32 then Inl Undefined_behaviour
      else let v' = v OR ucast (push_bit by (ucast (b AND 0x7F) :: 32 word))
           in if b AND 0x80 \<noteq> 0 then unpack_varint v' (by + 7) bs else Inr (v', bs))"

definition pack_unsigned_int :: "64 word \<Rightarrow> bytes" where
  "pack_unsigned_int v = pack_varint v"

definition unpack_unsigned_int :: "64 word unpacker" where
  "unpack_unsigned_int = bindU (unpack_varint (0 :: 64 word) 0) (\<lambda>v. retU (ucast (ucast v :: 32 word)))"

text \<open>\<open>signed_int\<close> holds an \<open>int32_t\<close>; its right shift is arithmetic. Negating the least \<open>int32_t\<close> is undefined.\<close>

text \<open>\<open>signed_int\<close> shifts a value that may be negative to the left, which the compilers of the source do in two's complement.\<close>

definition pack_signed_int :: "32 word \<Rightarrow> bytes" where
  "pack_signed_int v = pack_varint (push_bit 1 v XOR signed_drop_bit 31 v)"

definition unpack_signed_int :: "32 word unpacker" where
  "unpack_signed_int = bindU (unpack_varint (0 :: 32 word) 0) (\<lambda>v.
     let m = (drop_bit 1 v XOR drop_bit 31 v) + (v AND 0x01)
     in if v AND 0x01 \<noteq> 0 then (if m = 0x80000000 then throwU Undefined_behaviour else retU (- m)) else retU m)"

section \<open>Containers\<close>

definition MAX_ARRAY_ALLOC_SIZE :: "64 word" where
  "MAX_ARRAY_ALLOC_SIZE = 1024 * 1024 * 10"

definition pack_pair :: "('a \<Rightarrow> bytes) \<Rightarrow> ('b \<Rightarrow> bytes) \<Rightarrow> 'a \<times> 'b \<Rightarrow> bytes" where
  "pack_pair pa pb = (\<lambda>(x, y). pa x @ pb y)"

definition unpack_pair :: "'a unpacker \<Rightarrow> 'b unpacker \<Rightarrow> ('a \<times> 'b) unpacker" where
  "unpack_pair ua ub = bindU ua (\<lambda>x. bindU ub (\<lambda>y. retU (x, y)))"

definition pack_optional :: "('a \<Rightarrow> bytes) \<Rightarrow> 'a option \<Rightarrow> bytes" where
  "pack_optional pa v = pack_bool (v \<noteq> None) @ (case v of None \<Rightarrow> [] | Some x \<Rightarrow> pa x)"

definition unpack_optional :: "'a unpacker \<Rightarrow> 'a option unpacker" where
  "unpack_optional ua = bindU unpack_bool (\<lambda>b. if b then bindU ua (\<lambda>x. retU (Some x)) else retU None)"

text \<open>The size is cut to 32 bits before it is written.\<close>

definition pack_size_of :: "'a list \<Rightarrow> bytes" where
  "pack_size_of xs = pack_unsigned_int (ucast (of_nat (length xs) :: 32 word))"

definition pack_chars :: "bytes \<Rightarrow> bytes" where
  "pack_chars v = pack_size_of v @ v"

definition unpack_chars :: "bytes unpacker" where
  "unpack_chars = bindU unpack_unsigned_int (\<lambda>n. if \<not> n < MAX_ARRAY_ALLOC_SIZE then throwU Assert_exception else ds_read (unat n))"

definition pack_vector :: "('a \<Rightarrow> bytes) \<Rightarrow> 'a list \<Rightarrow> bytes" where
  "pack_vector pa xs = pack_size_of xs @ concat (map pa xs)"

primrec unpack_elems :: "'a unpacker \<Rightarrow> nat \<Rightarrow> 'a list unpacker" where
  "unpack_elems ua 0 = retU []"
| "unpack_elems ua (Suc n) = bindU ua (\<lambda>x. bindU (unpack_elems ua n) (\<lambda>xs. retU (x # xs)))"

text \<open>\<open>sz\<close> is the size of an element in memory.\<close>

definition unpack_vector :: "64 word \<Rightarrow> 'a unpacker \<Rightarrow> 'a list unpacker" where
  "unpack_vector sz ua = bindU unpack_unsigned_int (\<lambda>n.
     if \<not> n * sz < MAX_ARRAY_ALLOC_SIZE then throwU Assert_exception else unpack_elems ua (unat n))"

text \<open>A \<open>static_variant\<close> is the tag and the value; there is a packer and an unpacker per alternative. The tag read is compared as an
  \<open>int\<close>: a negative one passes the check, no alternative is constructed, and the destructor throws.\<close>

definition pack_static_variant :: "('a \<Rightarrow> bytes) list \<Rightarrow> nat \<times> 'a \<Rightarrow> bytes" where
  "pack_static_variant ps = (\<lambda>(w, x). pack_unsigned_int (of_nat w) @ (ps ! w) x)"

definition set_which :: "nat \<Rightarrow> 64 word \<Rightarrow> nat result" where
  "set_which count w =
     (let i = sint (ucast w :: 32 word)
      in if \<not> i < int count then Inl Assert_exception else if i < 0 then Inl Terminated else Inr (nat i))"

definition unpack_static_variant :: "'a unpacker list \<Rightarrow> (nat \<times> 'a) unpacker" where
  "unpack_static_variant us = bindU unpack_unsigned_int (\<lambda>w. case set_which (length us) w of
     Inl e \<Rightarrow> throwU e
   | Inr i \<Rightarrow> bindU (us ! i) (\<lambda>x. retU (i, x)))"

section \<open>Blocks\<close>

definition pack_words :: "32 word list \<Rightarrow> bytes" where
  "pack_words ws = concat (map (le_bytes 4) ws)"

fun words_of :: "bytes \<Rightarrow> 32 word list" where
  "words_of (a # b # c # d # bs) = of_le_bytes [a, b, c, d] # words_of bs"
| "words_of bs = []"

definition unpack_ripemd160 :: "32 word list unpacker" where
  "unpack_ripemd160 = bindU (ds_read 20) (\<lambda>bs. retU (words_of bs))"

definition pack_object_id :: "nat \<Rightarrow> bytes" where
  "pack_object_id i = pack_u64 (of_nat i)"

definition unpack_object_id :: "nat unpacker" where
  "unpack_object_id = bindU unpack_u64 (\<lambda>w. retU (unat w))"

definition pack_extensions :: "bytes list option \<Rightarrow> bytes" where
  "pack_extensions = pack_optional (pack_vector pack_chars)"

definition unpack_extensions :: "64 word \<Rightarrow> bytes list option unpacker" where
  "unpack_extensions sizeof_string = unpack_optional (unpack_vector sizeof_string unpack_chars)"

text \<open>The fields in the order of \<open>FC_REFLECT\<close>, the base class first.\<close>

definition pack_signed_block_header :: "'x signed_block_header_scheme \<Rightarrow> bytes" where
  "pack_signed_block_header b = pack_words (previous b) @ pack_u32 (timestamp b) @ pack_object_id (witness b) @
     pack_words (transaction_merkle_root b) @ pack_extensions (extensions b) @ witness_signature b"

definition unpack_signed_block_header :: "64 word \<Rightarrow> signed_block_header unpacker" where
  "unpack_signed_block_header sizeof_string =
     bindU unpack_ripemd160 (\<lambda>p. bindU unpack_u32 (\<lambda>t. bindU unpack_object_id (\<lambda>w. bindU unpack_ripemd160 (\<lambda>m.
     bindU (unpack_extensions sizeof_string) (\<lambda>e. bindU (ds_read 65) (\<lambda>g.
     retU \<lparr>previous = p, timestamp = t, witness = w, transaction_merkle_root = m, extensions = e, witness_signature = g\<rparr>))))))"

definition pack_signed_block :: "('tx \<Rightarrow> bytes) \<Rightarrow> 'tx signed_block \<Rightarrow> bytes" where
  "pack_signed_block ptx b = pack_signed_block_header b @ pack_words (block_id b) @ pack_vector ptx (transactions b)"

definition unpack_signed_block :: "64 word \<Rightarrow> 64 word \<Rightarrow> 'tx unpacker \<Rightarrow> 'tx signed_block unpacker" where
  "unpack_signed_block sizeof_string sizeof_tx utx =
     bindU (unpack_signed_block_header sizeof_string) (\<lambda>h. bindU unpack_ripemd160 (\<lambda>i. bindU (unpack_vector sizeof_tx utx) (\<lambda>txs.
     retU \<lparr>previous = previous h, timestamp = timestamp h, witness = witness h, transaction_merkle_root = transaction_merkle_root h,
       extensions = extensions h, witness_signature = witness_signature h, block_id = i, transactions = txs\<rparr>)))"

text \<open>\<open>unpack<T>(vector<char>)\<close>: nothing is read from an empty vector and the rest of a longer one is ignored.\<close>

definition unpack_from :: "'a \<Rightarrow> 'a unpacker \<Rightarrow> bytes \<Rightarrow> 'a result" where
  "unpack_from dflt u bs = (if bs = [] then Inr dflt else bindE (u bs) (\<lambda>(x, rest). Inr x))"

section \<open>Serialized types\<close>

locale codec =
  fixes pack :: "'a \<Rightarrow> bytes" and unpack :: "'a unpacker" and valid :: "'a \<Rightarrow> bool"
  assumes unpack_pack: "valid x \<Longrightarrow> unpack (pack x @ r) = Inr (x, r)"
begin

lemma pack_prefix_free:
  assumes "valid x" "valid y" "pack x @ r = pack y @ s"
  shows "x = y \<and> r = s"
proof -
  have "Inr (x, r) = unpack (pack y @ s)" using unpack_pack [OF assms(1), of r] unfolding assms(3) by (rule sym)
  then show ?thesis unfolding unpack_pack [OF assms(2)] by simp
qed

lemma unpack_elems_pack:
  assumes "\<forall>x \<in> set xs. valid x"
  shows "unpack_elems unpack (length xs) (concat (map pack xs) @ r) = Inr (xs, r)"
  using assms by (induction xs) (simp_all add: bindU_def retU_def unpack_pack)

end

lemma bit_of_le_bytes:
  "bit (of_le_bytes bs :: 'a :: len word) k \<longleftrightarrow> k < LENGTH('a) \<and> k div 8 < length bs \<and> bit (bs ! (k div 8)) (k mod 8)"
proof (induction bs arbitrary: k)
  case (Cons b bs)
  have *: "bit (of_le_bytes (b # bs) :: 'a word) k \<longleftrightarrow>
      k < LENGTH('a) \<and> (bit b k \<or> 8 \<le> k \<and> bit (of_le_bytes bs :: 'a word) (k - 8))"
    by (auto simp: bit_or_iff bit_push_bit_iff bit_ucast_iff)
  show ?case
  proof (cases "k < 8")
    case True
    then have "k div 8 = 0" "k mod 8 = k" by simp_all
    with True show ?thesis unfolding * by simp
  next
    case False
    then have d: "k div 8 = Suc ((k - 8) div 8)" "k mod 8 = (k - 8) mod 8" using le_div_geq [of 8 k] le_mod_geq [of 8 k] by simp_all
    have "\<not> bit b k" using False bit_imp_le_length [of b k] by auto
    then show ?thesis unfolding * d using False by (auto simp: Cons.IH)
  qed
qed simp

lemma length_le_bytes [simp]: "length (le_bytes n w) = n"
  by (simp add: le_bytes_def)

lemma of_le_bytes_le_bytes:
  fixes w :: "'a :: len word"
  assumes "LENGTH('a) = 8 * n"
  shows "of_le_bytes (le_bytes n w) = w"
proof (rule bit_word_eqI)
  fix k assume "k < LENGTH('a)"
  moreover from this assms have "k div 8 < n" by (simp add: less_mult_imp_div_less)
  moreover have "8 * (k div 8) + k mod 8 = k" by simp
  ultimately show "bit (of_le_bytes (le_bytes n w) :: 'a word) k = bit w k"
    by (auto simp: bit_of_le_bytes le_bytes_def bit_simps add.commute)
qed

lemma ds_read_append [simp]: "length bs = n \<Longrightarrow> ds_read n (bs @ r) = Inr (bs, r)"
  by (simp add: ds_read_def)

interpretation u8: codec pack_u8 unpack_u8 "\<lambda>_. True"
  by unfold_locales (simp add: pack_u8_def unpack_u8_def bindU_def retU_def of_le_bytes_le_bytes)

interpretation u16: codec pack_u16 unpack_u16 "\<lambda>_. True"
  by unfold_locales (simp add: pack_u16_def unpack_u16_def bindU_def retU_def of_le_bytes_le_bytes)

interpretation u32: codec pack_u32 unpack_u32 "\<lambda>_. True"
  by unfold_locales (simp add: pack_u32_def unpack_u32_def bindU_def retU_def of_le_bytes_le_bytes)

interpretation u64: codec pack_u64 unpack_u64 "\<lambda>_. True"
  by unfold_locales (simp add: pack_u64_def unpack_u64_def bindU_def retU_def of_le_bytes_le_bytes)

interpretation bool: codec pack_bool unpack_bool "\<lambda>_. True"
  by unfold_locales (simp add: pack_bool_def unpack_bool_def bindU_def retU_def u8.unpack_pack)

interpretation object_id: codec pack_object_id unpack_object_id "\<lambda>i. i < 2 ^ 64"
  by unfold_locales (simp add: pack_object_id_def unpack_object_id_def bindU_def retU_def u64.unpack_pack unsigned_of_nat take_bit_nat_eq_self)

lemma low_seven:
  fixes x :: "8 word"
  shows "((x AND 0x7F) OR 0x80) AND 0x7F = x AND 0x7F" "((x AND 0x7F) OR 0x80) AND 0x80 = 0x80" "(x AND 0x7F) AND 0x80 = 0"
  by (simp_all add: bit.conj_disj_distrib2 and.assoc)

lemma split_seven:
  fixes val :: "'a :: len word"
  shows "push_bit n (ucast ((ucast val :: 8 word) AND 0x7F) :: 32 word) OR push_bit (n + 7) (ucast (drop_bit 7 val)) = push_bit n (ucast val)"
proof (rule bit_word_eqI)
  fix k assume k: "k < LENGTH(32)"
  have m: "(0x7F :: 8 word) = mask 7" by (simp add: mask_eq_exp_minus_1)
  show "bit (push_bit n (ucast ((ucast val :: 8 word) AND 0x7F) :: 32 word) OR push_bit (n + 7) (ucast (drop_bit 7 val))) k =
      bit (push_bit n (ucast val :: 32 word)) k"
  proof (cases "n + 7 \<le> k")
    case True
    then have "7 + (k - (n + 7)) = k - n" by simp
    with True k show ?thesis unfolding m by (auto simp: bit_simps)
  next
    case False
    with k show ?thesis unfolding m by (auto simp: bit_simps)
  qed
qed

lemma unpack_varint_step:
  fixes val :: "'a :: len word" and v :: "'b :: len word"
  assumes "n < 32"
  shows "unpack_varint v n (pack_varint val @ r) =
    (let v' = v OR ucast (push_bit n (ucast (ucast val AND (0x7F :: 8 word)) :: 32 word)) in
     if drop_bit 7 val = 0 then Inr (v', r) else unpack_varint v' (n + 7) (pack_varint (drop_bit 7 val) @ r))"
proof -
  have *: "pack_varint val = ((ucast val AND 0x7F) OR (if drop_bit 7 val > 0 then 0x80 else 0)) #
      (if drop_bit 7 val \<noteq> 0 then pack_varint (drop_bit 7 val) else [])"
    by (subst pack_varint.simps) (simp only: Let_def)
  show ?thesis unfolding * using assms low_seven [of "ucast val"]
    by (cases "drop_bit 7 val = 0") (simp_all add: word_gt_0 Let_def)
qed

lemma unpack_pack_varint:
  fixes val :: "'a :: len word" and v :: "'b :: len word"
  assumes "unat val * 2 ^ n < 2 ^ 32" "n < 32"
  shows "unpack_varint v n (pack_varint val @ r) = Inr (v OR ucast (push_bit n (ucast val :: 32 word)), r)"
  using assms
proof (induction val arbitrary: v n rule: pack_varint.induct)
  case (1 val)
  let ?b = "ucast val AND (0x7F :: 8 word)" and ?val' = "drop_bit 7 val"
  have "unat ?val' = drop_bit 7 (unat val)" by (rule unat_drop_bit_eq)
  then have u: "unat ?val' = unat val div 128" unfolding drop_bit_eq_div by simp
  show ?case
  proof (cases "?val' = 0")
    case True
    have "push_bit n (ucast val :: 32 word) = push_bit n (ucast ?b)" using split_seven [of n val] unfolding True by simp
    with True "1.prems"(2) show ?thesis by (subst unpack_varint_step) (simp_all add: Let_def)
  next
    case False
    have "unat ?val' \<noteq> 0" using False by (simp add: unsigned_eq_0_iff)
    then have ge: "128 \<le> unat val" unfolding u by simp
    define p where "p = (2 :: nat) ^ n"
    have p7: "(2 :: nat) ^ (n + 7) = 128 * p" by (simp add: power_add p_def)
    have lt: "unat val * p < 2 ^ 32" using "1.prems"(1) by (simp only: p_def)
    have "128 * p \<le> unat val * p" using ge by (rule mult_right_mono) simp
    then have "(2 :: nat) ^ (n + 7) < 2 ^ 32" using lt unfolding p7 by linarith
    then have n: "n + 7 < 32" by (rule power_less_imp_less_exp [rotated]) simp
    have "unat ?val' * 2 ^ (n + 7) = (unat val div 128 * 128) * p" unfolding u p7 by (simp only: ac_simps)
    moreover have "(unat val div 128 * 128) * p \<le> unat val * p" by (rule mult_right_mono) simp_all
    ultimately have le: "unat ?val' * 2 ^ (n + 7) < 2 ^ 32" using lt by linarith
    let ?v = "v OR ucast (push_bit n (ucast ?b :: 32 word))"
    have "unpack_varint v n (pack_varint val @ r) = unpack_varint ?v (n + 7) (pack_varint ?val' @ r)"
      using False "1.prems"(2) by (subst unpack_varint_step) (simp_all add: Let_def)
    also have "\<dots> = Inr (?v OR ucast (push_bit (n + 7) (ucast ?val' :: 32 word)), r)"
      by (rule "1.IH" [OF refl refl False le n])
    also have "?v OR ucast (push_bit (n + 7) (ucast ?val' :: 32 word)) = v OR ucast (push_bit n (ucast val :: 32 word))"
      by (simp only: split_seven [of n val, symmetric] unsigned_or_eq or.assoc)
    finally show ?thesis .
  qed
qed

lemma unpack_pack_unsigned_int:
  assumes "unat x < 2 ^ 32"
  shows "unpack_unsigned_int (pack_unsigned_int x @ r) = Inr (x, r)"
proof -
  have "take_bit 32 (unat x) = unat x" using assms by (rule take_bit_nat_eq_self)
  then have "unat (ucast (ucast x :: 32 word) :: 64 word) = unat x" by (simp add: unsigned_ucast_eq unsigned_take_bit_eq)
  then have "(ucast (ucast x :: 32 word) :: 64 word) = x" by (rule word_unat_eq_iff [THEN iffD2])
  then show ?thesis using unpack_pack_varint [of x 0 "0 :: 64 word" r] assms
    by (simp add: unpack_unsigned_int_def pack_unsigned_int_def bindU_def retU_def)
qed

interpretation unsigned_int: codec pack_unsigned_int unpack_unsigned_int "\<lambda>x. unat x < 2 ^ 32"
  by unfold_locales (rule unpack_pack_unsigned_int)

lemma unpack_pack_size:
  assumes "length xs < 2 ^ 32"
  shows "unpack_unsigned_int (pack_size_of xs @ r) = Inr (of_nat (length xs), r)"
proof -
  have "unat (of_nat (length xs) :: 32 word) = length xs" using assms by (simp add: unsigned_of_nat take_bit_nat_eq_self)
  then have "(ucast (of_nat (length xs) :: 32 word) :: 64 word) = of_nat (length xs)" by (metis of_nat_unat)
  moreover have "unat (of_nat (length xs) :: 64 word) < 2 ^ 32" using assms by (simp add: unsigned_of_nat take_bit_nat_eq_self)
  ultimately show ?thesis unfolding pack_size_of_def by (simp add: unpack_pack_unsigned_int)
qed

lemma unat_size: "n < 2 ^ 32 \<Longrightarrow> unat (of_nat n :: 64 word) = n"
  by (simp add: unsigned_of_nat take_bit_nat_eq_self)

lemma max_alloc: "(x :: 64 word) < MAX_ARRAY_ALLOC_SIZE \<longleftrightarrow> unat x < 10485760"
  by (simp add: word_less_nat_alt MAX_ARRAY_ALLOC_SIZE_def)

definition chars_ok :: "bytes \<Rightarrow> bool" where
  "chars_ok v \<longleftrightarrow> length v < 10485760"

interpretation chars: codec pack_chars unpack_chars chars_ok
  by unfold_locales (simp add: chars_ok_def pack_chars_def unpack_chars_def bindU_def unpack_pack_size max_alloc unat_size)

definition vector_ok :: "64 word \<Rightarrow> ('a \<Rightarrow> bool) \<Rightarrow> 'a list \<Rightarrow> bool" where
  "vector_ok sz ok xs \<longleftrightarrow> length xs < 2 ^ 32 \<and> of_nat (length xs) * sz < MAX_ARRAY_ALLOC_SIZE \<and> (\<forall>x \<in> set xs. ok x)"

lemma codec_vector:
  assumes "codec p u ok"
  shows "codec (pack_vector p) (unpack_vector sz u) (vector_ok sz ok)"
  by unfold_locales (simp add: pack_vector_def unpack_vector_def vector_ok_def bindU_def unpack_pack_size unat_size
    codec.unpack_elems_pack [OF assms])

lemma codec_optional:
  assumes "codec p u ok"
  shows "codec (pack_optional p) (unpack_optional u) (case_option True ok)"
proof
  fix v :: "'a option" and r
  assume "case_option True ok v"
  then show "unpack_optional u (pack_optional p v @ r) = Inr (v, r)"
    by (cases v) (simp_all add: pack_optional_def unpack_optional_def bindU_def retU_def bool.unpack_pack codec.unpack_pack [OF assms])
qed

lemma codec_pair:
  assumes "codec p u ok" "codec q v ok'"
  shows "codec (pack_pair p q) (unpack_pair u v) (\<lambda>(x, y). ok x \<and> ok' y)"
  by unfold_locales (auto simp: pack_pair_def unpack_pair_def bindU_def retU_def codec.unpack_pack [OF assms(1)] codec.unpack_pack [OF assms(2)])

lemma set_which_ok:
  assumes "w < n" "n < 2 ^ 31"
  shows "set_which n (of_nat w) = Inr w"
proof -
  have "sint (ucast (of_nat w :: 64 word) :: 32 word) = int w"
    using assms by (simp add: sint_uint unsigned_of_nat unsigned_ucast_eq signed_take_bit_int_eq_self take_bit_nat_eq_self)
  then show ?thesis using assms by (simp add: set_which_def)
qed

lemma codec_static_variant:
  assumes "length ps = length us" "length us < 2 ^ 31" "\<And>i. i < length us \<Longrightarrow> codec (ps ! i) (us ! i) (oks i)"
  shows "codec (pack_static_variant ps) (unpack_static_variant us) (\<lambda>(w, x). w < length us \<and> oks w x)"
proof
  fix v :: "nat \<times> 'a" and r
  assume ok: "case v of (w, x) \<Rightarrow> w < length us \<and> oks w x"
  obtain w x where v: "v = (w, x)" by (cases v)
  have w: "w < length us" "oks w x" using ok v by simp_all
  have "unat (of_nat w :: 64 word) < 2 ^ 32" using w(1) assms(2) by (simp add: unat_size)
  then show "unpack_static_variant us (pack_static_variant ps v @ r) = Inr (v, r)"
    unfolding v using codec.unpack_pack [OF assms(3) [OF w(1)] w(2)] assms(1,2) w(1)
    by (simp add: pack_static_variant_def unpack_static_variant_def bindU_def retU_def unpack_pack_unsigned_int set_which_ok)
qed


section \<open>The serialized block types\<close>

lemma words_of_pack:
  "words_of (pack_words ws) = ws"
proof (induction ws)
  case (Cons w ws)
  have "[0..<4] = [0, 1, 2, 3 :: nat]" by (simp add: upt_rec)
  then obtain a b c d where le: "le_bytes 4 w = [a, b, c, d]" by (simp add: le_bytes_def)
  have "of_le_bytes [a, b, c, d] = w" using of_le_bytes_le_bytes [of 4 w] unfolding le by simp
  with Cons show ?case by (simp add: pack_words_def le)
qed (simp add: pack_words_def)

lemma length_pack_words [simp]: "length (pack_words ws) = 4 * length ws"
  by (induction ws) (simp_all add: pack_words_def)

interpretation ripemd160: codec pack_words unpack_ripemd160 "\<lambda>ws. length ws = 5"
  by unfold_locales (simp add: unpack_ripemd160_def bindU_def retU_def words_of_pack)

definition extensions_ok :: "64 word \<Rightarrow> bytes list option \<Rightarrow> bool" where
  "extensions_ok sizeof_string = case_option True (vector_ok sizeof_string chars_ok)"

interpretation extensions: codec pack_extensions "unpack_extensions sizeof_string" "extensions_ok sizeof_string"
  for sizeof_string
  unfolding pack_extensions_def unpack_extensions_def extensions_ok_def
  by (intro codec_optional codec_vector chars.codec_axioms)

definition header_ok :: "64 word \<Rightarrow> 'x signed_block_header_scheme \<Rightarrow> bool" where
  "header_ok sizeof_string b \<longleftrightarrow> length (previous b) = 5 \<and> witness b < 2 ^ 64 \<and> length (transaction_merkle_root b) = 5 \<and>
     extensions_ok sizeof_string (extensions b) \<and> length (witness_signature b) = 65"

lemma unpack_pack_header:
  assumes "header_ok sz b"
  shows "unpack_signed_block_header sz (pack_signed_block_header b @ r) =
    Inr (signed_block_header.truncate b, r)"
  using assms unfolding header_ok_def
  by (simp add: unpack_signed_block_header_def pack_signed_block_header_def bindU_def retU_def ripemd160.unpack_pack u32.unpack_pack
    object_id.unpack_pack extensions.unpack_pack signed_block_header.truncate_def)

interpretation header: codec pack_signed_block_header "unpack_signed_block_header sizeof_string" "header_ok sizeof_string"
  for sizeof_string
  by unfold_locales (simp add: unpack_pack_header signed_block_header.truncate_def)

definition block_ok :: "64 word \<Rightarrow> 64 word \<Rightarrow> ('tx \<Rightarrow> bool) \<Rightarrow> 'tx signed_block \<Rightarrow> bool" where
  "block_ok sizeof_string sizeof_tx ok b \<longleftrightarrow>
     header_ok sizeof_string b \<and> length (block_id b) = 5 \<and> vector_ok sizeof_tx ok (transactions b)"

lemma codec_signed_block:
  assumes "codec p u ok"
  shows "codec (pack_signed_block p) (unpack_signed_block sz sizeof_tx u) (block_ok sz sizeof_tx ok)"
proof
  fix b :: "'a signed_block" and r
  assume "block_ok sz sizeof_tx ok b"
  then have ok: "header_ok sz b" "length (block_id b) = 5" "vector_ok sizeof_tx ok (transactions b)" by (simp_all add: block_ok_def)
  show "unpack_signed_block sz sizeof_tx u (pack_signed_block p b @ r) = Inr (b, r)"
    using unpack_pack_header [OF ok(1)] ripemd160.unpack_pack [OF ok(2)] codec.unpack_pack [OF codec_vector [OF assms] ok(3)]
    by (simp add: unpack_signed_block_def pack_signed_block_def bindU_def retU_def signed_block_header.truncate_def)
qed

lemma pack_signed_block_nonempty: "length (previous b) = 5 \<Longrightarrow> pack_signed_block p b \<noteq> []"
  by (auto simp: pack_signed_block_def pack_signed_block_header_def pack_words_def le_bytes_def)

lemma sint_range_bits:
  fixes x :: "32 word"
  shows "- (2 ^ 30) \<le> sint x \<and> sint x < 2 ^ 30 \<longleftrightarrow> bit x 30 = bit x 31"
proof -
  have s: "bit (sint x) k \<longleftrightarrow> bit x (min k 31)" for k by (auto simp: bit_sint_iff min_def dest: bit_imp_le_length)
  have st: "bit (signed_take_bit 30 y) k = bit y (min k 30)" for y :: int and k by (simp add: bit_signed_take_bit_iff min.commute)
  have "- (2 ^ 30) \<le> sint x \<and> sint x < 2 ^ 30 \<longleftrightarrow> signed_take_bit 30 (sint x) = sint x"
    by (simp only: signed_take_bit_int_eq_self_iff)
  also have "\<dots> \<longleftrightarrow> (\<forall>k. bit (sint x) (min k 30) = bit (sint x) k)"
  proof
    assume e: "signed_take_bit 30 (sint x) = sint x"
    show "\<forall>k. bit (sint x) (min k 30) = bit (sint x) k"
    proof
      fix k
      show "bit (sint x) (min k 30) = bit (sint x) k" by (subst (2) e [symmetric]) (simp only: st)
    qed
  next
    assume "\<forall>k. bit (sint x) (min k 30) = bit (sint x) k"
    then show "signed_take_bit 30 (sint x) = sint x" by (intro bit_eqI) (simp only: st)
  qed
  also have "\<dots> \<longleftrightarrow> bit x 30 = bit x 31"
  proof
    assume "\<forall>k. bit (sint x) (min k 30) = bit (sint x) k"
    from this [rule_format, of 31] show "bit x 30 = bit x 31" by (simp add: s)
  next
    assume "bit x 30 = bit x 31"
    then have "bit x (min (min k 30) 31) = bit x (min k 31)" for k by (cases "k \<le> 30"; cases "k = 31") (auto simp: min_def)
    then show "\<forall>k. bit (sint x) (min k 30) = bit (sint x) k" unfolding s by blast
  qed
  finally show ?thesis .
qed

lemma bit_zigzag:
  fixes x :: "32 word"
  shows "bit (push_bit 1 x XOR signed_drop_bit 31 x) k \<longleftrightarrow> k < 32 \<and> ((1 \<le> k \<and> bit x (k - 1)) \<noteq> bit x 31)"
proof -
  have "bit x k \<Longrightarrow> k < 32" for k using bit_imp_le_length [of x k] by simp
  then show ?thesis unfolding bit_xor_iff bit_push_bit_iff bit_signed_drop_bit_iff by (cases k) auto
qed

lemma xor_one_neq: "w XOR 1 \<noteq> (w :: 'a :: len word)"
proof
  assume "w XOR 1 = w"
  then have "bit (w XOR 1) 0 = bit w 0" by (rule arg_cong)
  then show False unfolding bit_xor_iff bit_1_iff by simp
qed

lemma unpack_pack_signed:
  "unpack_signed_int (pack_signed_int x @ r) = Inr (x, r) \<longleftrightarrow> bit x 30 = bit x 31"
proof -
  define z where "z = push_bit 1 x XOR signed_drop_bit 31 x"
  have zb: "bit z k \<longleftrightarrow> k < 32 \<and> ((1 \<le> k \<and> bit x (k - 1)) \<noteq> bit x 31)" for k unfolding z_def by (rule bit_zigzag)
  let ?m = "(drop_bit 1 z XOR drop_bit 31 z) + (z AND 0x01)"
  have "unpack_varint (0 :: 32 word) 0 (pack_varint z @ r) = Inr (z, r)"
    using unpack_pack_varint [of z 0 "0 :: 32 word" r] unsigned_less [of z, where ?'a = nat] by simp
  moreover have "pack_signed_int x = pack_varint z" by (simp only: pack_signed_int_def z_def)
  ultimately have u: "unpack_signed_int (pack_signed_int x @ r) =
      (if z AND 0x01 \<noteq> 0 then (if ?m = 0x80000000 then Inl Undefined_behaviour else Inr (- ?m, r)) else Inr (?m, r))"
    by (simp add: unpack_signed_int_def bindU_def retU_def throwU_def Let_def)
  have one: "z AND 0x01 = of_bool (bit x 31)"
    by (rule bit_word_eqI) (auto simp: bit_and_iff zb bit_1_iff bit_of_bool_iff)
  have hi: "drop_bit 31 z = of_bool (bit x 30 \<noteq> bit x 31)"
    by (rule bit_word_eqI) (auto simp: bit_drop_bit_eq zb bit_of_bool_iff)
  show ?thesis
  proof (cases "bit x 31")
    case False
    have "drop_bit 1 z = x"
    proof (rule bit_word_eqI)
      fix k assume "k < LENGTH(32)"
      with False show "bit (drop_bit 1 z) k = bit x k" by (cases "k = 31") (auto simp: bit_drop_bit_eq zb)
    qed
    with False show ?thesis unfolding u one hi using xor_one_neq [of x] by (simp add: of_bool_def)
  next
    case True
    have lo: "drop_bit 1 z = NOT x"
    proof (rule bit_word_eqI)
      fix k assume "k < LENGTH(32)"
      with True show "bit (drop_bit 1 z) k = bit (NOT x) k" by (cases "k = 31") (auto simp: bit_drop_bit_eq zb bit_not_iff)
    qed
    define m where "m = (NOT x XOR of_bool (bit x 30 \<noteq> bit x 31)) + of_bool (bit x 31)"
    have nx: "NOT x + 1 = - x" by (simp only: minus_eq_not_plus_1)
    have "(m \<noteq> 0x80000000 \<and> - m = x) = (bit x 30 = bit x 31)"
    proof (cases "bit x 30")
      case True
      have "m = - x" using True \<open>bit x 31\<close> nx by (simp only: m_def) simp
      moreover have "- x \<noteq> 0x80000000"
      proof
        assume "- x = 0x80000000"
        then have "x = - 0x80000000" by (metis minus_minus)
        with True show False by simp
      qed
      ultimately show ?thesis using True \<open>bit x 31\<close> by simp
    next
      case False
      have "m \<noteq> - x" using False \<open>bit x 31\<close> xor_one_neq [of "NOT x"] by (simp only: m_def nx [symmetric]) simp
      then have "- m \<noteq> x" by (metis minus_minus)
      with False \<open>bit x 31\<close> show ?thesis by simp
    qed
    with True show ?thesis unfolding u one hi lo m_def by simp
  qed
qed

section \<open>Properties\<close>

text \<open>C39: an \<open>unsigned_int\<close> holds 64 bits, but what \<open>pack\<close> writes is read back by \<open>unpack\<close> exactly when the value is below 2^32;
  a larger one is read back truncated, or makes the reader shift past the width of its type.\<close>

theorem unsigned_int_roundtrip:
  "unpack_unsigned_int (pack_unsigned_int x @ r) = Inr (x, r) \<longleftrightarrow> unat x < 2 ^ 32"
proof
  assume "unpack_unsigned_int (pack_unsigned_int x @ r) = Inr (x, r)"
  then obtain v :: "64 word" where "x = ucast (ucast v :: 32 word)"
    by (auto simp: unpack_unsigned_int_def bindU_def retU_def)
  then show "unat x < 2 ^ 32" using unsigned_less [of "ucast v :: 32 word", where ?'a = nat] by (simp add: unsigned_ucast_eq unsigned_take_bit_eq)
qed (rule unpack_pack_unsigned_int)


text \<open>C38: a \<open>signed_int\<close> is read back from what was written for it exactly when it is at least -2^30 and below 2^30: for the rest of the
  32-bit range the reader, which mixes in bit 31 of the code, returns another number.\<close>

theorem signed_int_roundtrip:
  "unpack_signed_int (pack_signed_int x @ r) = Inr (x, r) \<longleftrightarrow> - (2 ^ 30) \<le> sint x \<and> sint x < 2 ^ 30"
  by (simp only: sint_range_bits unpack_pack_signed)

text \<open>C15: blocks. When the transactions have a codec that reads back what it wrote, so does the serialization of signed blocks, for every
  block whose ids and signature have their fixed lengths and whose containers are below the allocation limit; and no serialized
  block is a prefix of the serialization of another one.\<close>

theorem signed_block_roundtrip:
  assumes "\<And>tx rest. ok tx \<Longrightarrow> utx (ptx tx @ rest) = Inr (tx, rest)" "block_ok sizeof_string sizeof_tx ok b"
  shows "unpack_from dflt (unpack_signed_block sizeof_string sizeof_tx utx) (pack_signed_block ptx b @ rest) = Inr b \<and>
    (\<forall>c rest'. block_ok sizeof_string sizeof_tx ok c \<longrightarrow> pack_signed_block ptx b @ rest = pack_signed_block ptx c @ rest' \<longrightarrow> b = c)"
proof -
  have c: "codec (pack_signed_block ptx) (unpack_signed_block sizeof_string sizeof_tx utx) (block_ok sizeof_string sizeof_tx ok)"
    by (rule codec_signed_block) (use assms(1) in unfold_locales)
  have "length (previous b) = 5" using assms(2) by (simp add: block_ok_def header_ok_def)
  then have "unpack_from dflt (unpack_signed_block sizeof_string sizeof_tx utx) (pack_signed_block ptx b @ rest) = Inr b"
    by (simp add: unpack_from_def codec.unpack_pack [OF c assms(2)] pack_signed_block_nonempty)
  moreover have "b = c" if "block_ok sizeof_string sizeof_tx ok c" "pack_signed_block ptx b @ rest = pack_signed_block ptx c @ rest'" for c rest'
    using codec.pack_prefix_free [OF c assms(2) that] by blast
  ultimately show ?thesis by blast
qed

theorem signed_block_roundtrip_witness:
  "unpack_from undefined (unpack_signed_block 32 8 unpack_u64)
     (pack_signed_block pack_u64 \<lparr>previous = [1, 2, 3, 4, 5], timestamp = 6, witness = 7, transaction_merkle_root = [0, 0, 0, 0, 9],
       extensions = Some [[72, 105]], witness_signature = replicate 65 8, block_id = [0x01000000, 1, 1, 1, 1], transactions = [10, 11]\<rparr> @ [12]) =
   Inr \<lparr>previous = [1, 2, 3, 4, 5], timestamp = 6, witness = 7, transaction_merkle_root = [0, 0, 0, 0, 9],
       extensions = Some [[72, 105]], witness_signature = replicate 65 8, block_id = [0x01000000, 1, 1, 1, 1], transactions = [10, 11]\<rparr>"
proof -
  let ?b = "\<lparr>previous = [1, 2, 3, 4, 5], timestamp = 6, witness = 7, transaction_merkle_root = [0, 0, 0, 0, 9],
       extensions = Some [[72, 105]], witness_signature = replicate 65 8, block_id = [0x01000000, 1, 1, 1, 1], transactions = [10, 11 :: 64 word]\<rparr>"
  have "block_ok 32 8 (\<lambda>_. True) ?b"
    by (simp add: block_ok_def header_ok_def extensions_ok_def vector_ok_def chars_ok_def MAX_ARRAY_ALLOC_SIZE_def)
  from signed_block_roundtrip [OF u64.unpack_pack this] show ?thesis by blast
qed

end
