(* ===== verification/Block_Database.thy ===== *)
theory Block_Database
  imports Raw Stateful
begin

text \<open>The block database of \<open>block_database.cpp\<close>: an append-only file of serialized blocks and an index file with one entry of 32 bytes per
  block number. The files are byte lists. A stream whose read came short, or whose position could not be set, is left failed,
  and every later operation on it throws. The buffer for a block is taken to be allocated (its size has 32 bits, so that the source may
  throw \<open>bad_alloc\<close> there, which its handlers treat as an entry without a block). The hash of a header and the serialization of a transaction are the parameters of the record
  \<open>block_env\<close>.\<close>

section \<open>Streams\<close>

record file_stream =
  content :: bytes
  failed :: bool

definition new_stream :: file_stream where
  "new_stream = \<lparr>content = [], failed = False\<rparr>"

text \<open>Writing past the end leaves zeros in between.\<close>

definition overwrite :: "nat \<Rightarrow> bytes \<Rightarrow> bytes \<Rightarrow> bytes" where
  "overwrite off dat bs = take off (bs @ replicate (off - length bs) 0) @ dat @ drop (off + length dat) bs"

definition f_write :: "nat \<Rightarrow> bytes \<Rightarrow> (file_stream, unit) stateful" where
  "f_write off dat f = (if failed f then (Inl Std_exception, f) else (Inr (), f\<lparr>content := overwrite off dat (content f)\<rparr>))"

text \<open>Seek, then read \<open>n\<close> bytes; an offset is a signed 64-bit number.\<close>

definition f_read :: "64 word \<Rightarrow> nat \<Rightarrow> (file_stream, bytes) stateful" where
  "f_read off n f =
     (if failed f \<or> off \<ge> 0x8000000000000000 \<or> n \<noteq> 0 \<and> length (content f) < unat off + n then (Inl Std_exception, f\<lparr>failed := True\<rparr>)
      else (Inr (take n (drop (unat off) (content f))), f))"

definition f_size :: "(file_stream, nat) stateful" where
  "f_size f = (if failed f then (Inl Std_exception, f) else (Inr (length (content f)), f))"

section \<open>The index\<close>

record index_entry =
  block_pos :: "64 word"
  block_size :: "32 word"
  entry_block_id :: block_id_type

definition sizeof_entry :: nat where
  "sizeof_entry = 32"

definition entry_bytes :: "index_entry \<Rightarrow> bytes" where
  "entry_bytes e = le_bytes 8 (block_pos e) @ le_bytes 4 (block_size e) @ pack_words (entry_block_id e)"

definition entry_of :: "bytes \<Rightarrow> index_entry" where
  "entry_of bs = \<lparr>block_pos = of_le_bytes (take 8 bs), block_size = of_le_bytes (take 4 (drop 8 bs)), entry_block_id = words_of (drop 12 bs)\<rparr>"

record block_database =
  block_num_to_pos :: file_stream
  blocks :: file_stream

definition new_database :: block_database where
  "new_database = \<lparr>block_num_to_pos = new_stream, blocks = new_stream\<rparr>"

definition on_index :: "(file_stream, 'a) stateful \<Rightarrow> (block_database, 'a) stateful" where
  "on_index m db = (case m (block_num_to_pos db) of (r, f) \<Rightarrow> (r, db\<lparr>block_num_to_pos := f\<rparr>))"

definition on_blocks :: "(file_stream, 'a) stateful \<Rightarrow> (block_database, 'a) stateful" where
  "on_blocks m db = (case m (blocks db) of (r, f) \<Rightarrow> (r, db\<lparr>blocks := f\<rparr>))"

section \<open>Operations\<close>

record 'tx block_env =
  env_pack_tx :: "'tx \<Rightarrow> bytes"
  env_unpack_tx :: "'tx unpacker"
  env_sizeof_tx :: "64 word"
  env_sizeof_string :: "64 word"
  env_sha224 :: "signed_block_header \<Rightarrow> 32 word list"

definition env_make_id :: "'tx block_env \<Rightarrow> 'tx signed_block \<Rightarrow> block_id_type" where
  "env_make_id env b = make_id (env_sha224 env) (signed_block_header.truncate b)"

definition env_pack :: "'tx block_env \<Rightarrow> 'tx signed_block \<Rightarrow> bytes" where
  "env_pack env = pack_signed_block (env_pack_tx env)"

definition default_block :: "'tx signed_block" where
  "default_block = \<lparr>previous = null_block_id, timestamp = 0, witness = 0, transaction_merkle_root = null_block_id, extensions = None,
     witness_signature = replicate 65 0, block_id = null_block_id, transactions = []\<rparr>"

definition env_unpack :: "'tx block_env \<Rightarrow> bytes \<Rightarrow> 'tx signed_block result" where
  "env_unpack env = unpack_from default_block (unpack_signed_block (env_sizeof_string env) (env_sizeof_tx env) (env_unpack_tx env))"

definition index_pos :: "32 word \<Rightarrow> 64 word" where
  "index_pos num = of_nat sizeof_entry * ucast num"

definition store :: "'tx block_env \<Rightarrow> block_id_type \<Rightarrow> 'tx signed_block \<Rightarrow> (block_database, unit) stateful" where
  "store env arg b =
     (let i = (if arg = null_block_id then env_make_id env b else arg); vec = env_pack env b
      in bindS (on_blocks f_size) (\<lambda>end_pos.
         let e = \<lparr>block_pos = of_nat end_pos, block_size = of_nat (length vec), entry_block_id = i\<rparr>
         in bindS (on_blocks (f_write end_pos vec)) (\<lambda>_.
            on_index (f_write (unat (index_pos (num_from_id i))) (entry_bytes e)))))"

definition read_entry :: "64 word \<Rightarrow> (block_database, index_entry) stateful" where
  "read_entry pos = bindS (on_index (f_read pos sizeof_entry)) (\<lambda>bs. retS (entry_of bs))"

definition remove_block :: "block_id_type \<Rightarrow> (block_database, unit) stateful" where
  "remove_block i =
     (let pos = index_pos (num_from_id i)
      in bindS (on_index f_size) (\<lambda>n.
         if n \<le> unat pos then throwS Key_not_found_exception
         else bindS (read_entry pos) (\<lambda>e.
              if entry_block_id e = i then on_index (f_write (unat pos) (entry_bytes (e\<lparr>block_size := 0\<rparr>))) else retS ())))"

definition contains :: "block_id_type \<Rightarrow> (block_database, bool) stateful" where
  "contains i =
     (if i = null_block_id then retS False
      else let pos = index_pos (num_from_id i)
           in bindS (on_index f_size) (\<lambda>n.
              if n < unat pos + sizeof_entry then retS False
              else bindS (read_entry pos) (\<lambda>e. retS (entry_block_id e = i \<and> block_size e > 0))))"

definition fetch_block_id :: "32 word \<Rightarrow> (block_database, block_id_type) stateful" where
  "fetch_block_id num =
     (if num = 0 then throwS Assert_exception
      else bindS (on_index f_size) (\<lambda>n.
           if n \<le> unat (index_pos num) then throwS Key_not_found_exception
           else bindS (read_entry (index_pos num)) (\<lambda>e.
                if entry_block_id e = null_block_id then throwS Assert_exception else retS (entry_block_id e))))"

text \<open>The body of a \<open>try\<close> block whose handlers swallow every exception.\<close>

definition catchS :: "('s, 'a) stateful \<Rightarrow> 'a \<Rightarrow> ('s, 'a) stateful" where
  "catchS m dflt s = (case m s of (Inr x, s') \<Rightarrow> (Inr x, s') | (Inl e, s') \<Rightarrow> if e = Undefined_behaviour \<or> e = Terminated then (Inl e, s') else (Inr dflt, s'))"

definition read_block :: "'tx block_env \<Rightarrow> index_entry \<Rightarrow> (block_database, 'tx signed_block) stateful" where
  "read_block env e =
     bindS (on_blocks (f_read (block_pos e) (unat (block_size e)))) (\<lambda>dat.
     bindS (liftS (env_unpack env dat)) (\<lambda>b.
     if env_make_id env b \<noteq> entry_block_id e then throwS Assert_exception else retS b))"

definition fetch_optional :: "'tx block_env \<Rightarrow> block_id_type \<Rightarrow> (block_database, 'tx signed_block option) stateful" where
  "fetch_optional env i = catchS
     (let pos = index_pos (num_from_id i)
      in bindS (on_index f_size) (\<lambda>n.
         if n \<le> unat pos then retS None
         else bindS (read_entry pos) (\<lambda>e.
              if entry_block_id e \<noteq> i then retS None else bindS (read_block env e) (\<lambda>b. retS (Some b))))) None"

definition fetch_by_number :: "'tx block_env \<Rightarrow> 32 word \<Rightarrow> (block_database, 'tx signed_block option) stateful" where
  "fetch_by_number env num = catchS
     (bindS (on_index f_size) (\<lambda>n.
      if n \<le> unat (index_pos num) then retS None
      else bindS (read_entry (index_pos num)) (\<lambda>e. bindS (read_block env e) (\<lambda>b. retS (Some b))))) None"

text \<open>The loop of \<open>last_index_entry\<close>, with \<open>k\<close> entries before the position. An entry that does not lead to its block is cut off.\<close>

definition resize_index :: "nat \<Rightarrow> (block_database, unit) stateful" where
  "resize_index n db = (Inr (), db\<lparr>block_num_to_pos := (block_num_to_pos db)\<lparr>content := take n (content (block_num_to_pos db))\<rparr>\<rparr>)"

definition check_entry :: "'tx block_env \<Rightarrow> nat \<Rightarrow> index_entry \<Rightarrow> (block_database, bool) stateful" where
  "check_entry env blocks_size e =
     (if block_size e > 0 \<and> sint (block_pos e + ucast (block_size e)) \<le> int blocks_size
      then catchS (bindS (on_blocks (f_read (block_pos e) (unat (block_size e)))) (\<lambda>dat.
                   bindS (liftS (env_unpack env dat)) (\<lambda>b. retS (env_make_id env b = entry_block_id e)))) False
      else retS False)"

primrec scan_index :: "'tx block_env \<Rightarrow> nat \<Rightarrow> nat \<Rightarrow> (block_database, index_entry option) stateful" where
  "scan_index env blocks_size 0 = retS None"
| "scan_index env blocks_size (Suc k) =
     bindS (read_entry (of_nat (sizeof_entry * k))) (\<lambda>e.
     bindS (check_entry env blocks_size e) (\<lambda>ok.
     if ok then retS (Some e)
     else bindS (resize_index (sizeof_entry * k)) (\<lambda>_. scan_index env blocks_size k)))"

definition last_index_entry :: "'tx block_env \<Rightarrow> (block_database, index_entry option) stateful" where
  "last_index_entry env = catchS
     (bindS (on_index f_size) (\<lambda>n.
      if n < sizeof_entry then retS None
      else bindS (on_blocks f_size) (\<lambda>blocks_size. scan_index env blocks_size (n div sizeof_entry)))) None"

definition last_block :: "'tx block_env \<Rightarrow> (block_database, 'tx signed_block option) stateful" where
  "last_block env = bindS (last_index_entry env) (\<lambda>entry. case entry of
     Some e \<Rightarrow> fetch_by_number env (num_from_id (entry_block_id e))
   | None \<Rightarrow> retS None)"

definition last_id :: "'tx block_env \<Rightarrow> (block_database, block_id_type option) stateful" where
  "last_id env = bindS (last_index_entry env) (\<lambda>entry. retS (map_option entry_block_id entry))"

section \<open>Entries and slices\<close>

definition file_slice :: "nat \<Rightarrow> nat \<Rightarrow> 'a list \<Rightarrow> 'a list" where
  "file_slice off n xs = take n (drop off xs)"

lemma overwrite_eq:
  "overwrite off dat bs = take off bs @ replicate (off - length bs) 0 @ dat @ drop (off + length dat) bs"
  by (simp add: overwrite_def)

lemma length_overwrite: "length (overwrite off dat bs) = max (length bs) (off + length dat)"
  by (auto simp: overwrite_eq max_def min_def)

lemma file_slice_overwrite_same: "n = length dat \<Longrightarrow> file_slice off n (overwrite off dat bs) = dat"
  by (simp add: file_slice_def overwrite_def)

lemma file_slice_overwrite_before: "a + n \<le> off \<Longrightarrow> a + n \<le> length bs \<Longrightarrow> file_slice a n (overwrite off dat bs) = file_slice a n bs"
  by (simp add: file_slice_def overwrite_eq drop_take min_def)

lemma file_slice_overwrite_gap: "length bs \<le> a \<Longrightarrow> a + n \<le> off \<Longrightarrow> file_slice a n (overwrite off dat bs) = replicate n 0"
  by (simp add: file_slice_def overwrite_eq)

lemma file_slice_overwrite_after: "off + length dat \<le> a \<Longrightarrow> file_slice a n (overwrite off dat bs) = file_slice a n bs"
  by (cases "length bs \<le> off") (simp_all add: file_slice_def overwrite_eq)

lemma file_slice_append: "off + n \<le> length bs \<Longrightarrow> file_slice off n (bs @ cs) = file_slice off n bs"
  by (simp add: file_slice_def)

lemma overwrite_end: "overwrite (length bs) dat bs = bs @ dat"
  by (simp add: overwrite_def)

definition entry_at :: "bytes \<Rightarrow> nat \<Rightarrow> index_entry" where
  "entry_at ix n = entry_of (file_slice (32 * n) 32 ix)"

definition zero_entry :: index_entry where
  "zero_entry = \<lparr>block_pos = 0, block_size = 0, entry_block_id = null_block_id\<rparr>"

lemma length_entry_bytes: "length (entry_block_id e) = 5 \<Longrightarrow> length (entry_bytes e) = 32"
  by (simp add: entry_bytes_def)

lemma entry_of_bytes: "length (entry_block_id e) = 5 \<Longrightarrow> entry_of (entry_bytes e) = e"
  by (simp add: entry_bytes_def entry_of_def of_le_bytes_le_bytes words_of_pack)

lemma entry_of_zeros: "entry_of (replicate 32 0) = zero_entry"
  by (simp add: entry_of_def zero_entry_def null_block_id_def numeral_eq_Suc)

lemma entry_at_overwrite:
  assumes "length (entry_block_id e) = 5" "32 dvd length ix"
  shows "entry_at (overwrite (32 * n) (entry_bytes e) ix) m =
    (if m = n then e else if 32 * m + 32 \<le> length ix \<or> n < m then entry_at ix m else zero_entry)"
proof -
  let ?b = "entry_bytes e"
  have l: "length ?b = 32" by (rule length_entry_bytes [OF assms(1)])
  consider "m = n" | "n < m" | "m < n" "32 * m + 32 \<le> length ix" | "m < n" "\<not> 32 * m + 32 \<le> length ix" by linarith
  then show ?thesis
  proof cases
    case 1
    then show ?thesis by (simp add: entry_at_def file_slice_overwrite_same l entry_of_bytes assms(1))
  next
    case 2
    then show ?thesis by (simp add: entry_at_def file_slice_overwrite_after l)
  next
    case 3
    then show ?thesis by (simp add: entry_at_def file_slice_overwrite_before l)
  next
    case 4
    from assms(2) obtain k where "length ix = 32 * k" by (elim dvdE)
    with 4 have "length ix \<le> 32 * m" by simp
    with 4 show ?thesis by (simp add: entry_at_def file_slice_overwrite_gap l entry_of_zeros)
  qed
qed

section \<open>Running the streams\<close>

lemma unat_index_pos: "unat (index_pos num) = 32 * unat num"
proof -
  have "unat num < 2 ^ 32" using unsigned_less [of num, where ?'a = nat] by simp
  then have "32 * unat num < 2 ^ 64" by simp
  then show ?thesis by (simp add: index_pos_def sizeof_entry_def unat_word_ariths unsigned_ucast_eq take_bit_nat_eq_self)
qed

lemma small_offset: "unat (off :: 64 word) < 2 ^ 63 \<Longrightarrow> \<not> off \<ge> 0x8000000000000000"
  by (simp add: word_le_nat_alt)

lemma run_index_size: "\<not> failed (block_num_to_pos db) \<Longrightarrow> on_index f_size db = (Inr (length (content (block_num_to_pos db))), db)"
  by (simp add: on_index_def f_size_def)

lemma run_blocks_size: "\<not> failed (blocks db) \<Longrightarrow> on_blocks f_size db = (Inr (length (content (blocks db))), db)"
  by (simp add: on_blocks_def f_size_def)

lemma run_read_entry:
  assumes "\<not> failed (block_num_to_pos db)" "32 * n + 32 \<le> length (content (block_num_to_pos db))" "unat pos = 32 * n" "32 * n < 2 ^ 63"
  shows "read_entry pos db = (Inr (entry_at (content (block_num_to_pos db)) n), db)"
proof -
  have "\<not> pos \<ge> 0x8000000000000000" by (rule small_offset) (use assms in simp)
  then show ?thesis using assms
    by (simp add: read_entry_def bindS_def retS_def on_index_def f_read_def sizeof_entry_def entry_at_def file_slice_def)
qed

lemma run_read_blocks:
  assumes "\<not> failed (blocks db)" "unat pos < 2 ^ 63" "n = 0 \<or> unat pos + n \<le> length (content (blocks db))"
  shows "on_blocks (f_read pos n) db = (Inr (file_slice (unat pos) n (content (blocks db))), db)"
  using small_offset [OF assms(2)] assms by (auto simp: on_blocks_def f_read_def file_slice_def)

section \<open>The map a database stands for\<close>

text \<open>A block number has no entry, the entry of a removed block, or the entry of a stored block.\<close>

type_synonym 'tx block_map = "nat \<Rightarrow> (block_id_type \<times> 'tx signed_block option) option"

definition env_block_ok :: "'tx block_env \<Rightarrow> ('tx \<Rightarrow> bool) \<Rightarrow> 'tx signed_block \<Rightarrow> bool" where
  "env_block_ok env ok b \<longleftrightarrow> block_ok (env_sizeof_string env) (env_sizeof_tx env) ok b \<and> length (env_pack env b) < 2 ^ 32 \<and>
     num_from_id (env_make_id env b) \<noteq> 0"

text \<open>What is assumed of the code outside: a SHA-224 digest has seven words, and a transaction is read back from its serialization.\<close>

definition env_ok :: "'tx block_env \<Rightarrow> ('tx \<Rightarrow> bool) \<Rightarrow> bool" where
  "env_ok env ok \<longleftrightarrow> (\<forall>h. length (env_sha224 env h) = 7) \<and> (\<forall>tx r. ok tx \<longrightarrow> env_unpack_tx env (env_pack_tx env tx @ r) = Inr (tx, r))"

fun slot_ok :: "'tx block_env \<Rightarrow> ('tx \<Rightarrow> bool) \<Rightarrow> bytes \<Rightarrow> index_entry \<Rightarrow> (block_id_type \<times> 'tx signed_block option) option \<Rightarrow> bool" where
  "slot_ok env ok bl e None \<longleftrightarrow> e = zero_entry"
| "slot_ok env ok bl e (Some (i, None)) \<longleftrightarrow> entry_block_id e = i \<and> block_size e = 0 \<and> unat (block_pos e) < 2 ^ 63"
| "slot_ok env ok bl e (Some (i, Some b)) \<longleftrightarrow> entry_block_id e = i \<and> i = env_make_id env b \<and> env_block_ok env ok b \<and>
     unat (block_size e) = length (env_pack env b) \<and> unat (block_pos e) + unat (block_size e) \<le> length bl \<and>
     file_slice (unat (block_pos e)) (unat (block_size e)) bl = env_pack env b"

definition represents :: "'tx block_env \<Rightarrow> ('tx \<Rightarrow> bool) \<Rightarrow> block_database \<Rightarrow> 'tx block_map \<Rightarrow> bool" where
  "represents env ok db m \<longleftrightarrow> \<not> failed (block_num_to_pos db) \<and> \<not> failed (blocks db) \<and> length (content (blocks db)) < 2 ^ 63 \<and>
     32 dvd length (content (block_num_to_pos db)) \<and>
     (\<forall>n. if 32 * n + 32 \<le> length (content (block_num_to_pos db))
          then slot_ok env ok (content (blocks db)) (entry_at (content (block_num_to_pos db)) n) (m n) else m n = None) \<and>
     (\<forall>n i v. m n = Some (i, v) \<longrightarrow> length i = 5 \<and> unat (num_from_id i) = n \<and> n \<noteq> 0)"

lemma length_make_id: "env_ok env ok \<Longrightarrow> length (env_make_id env b) = 5"
  by (simp add: env_ok_def env_make_id_def make_id_def Let_def)

lemma env_unpack_pack:
  assumes "env_ok env ok" "env_block_ok env ok b"
  shows "env_unpack env (env_pack env b) = Inr b"
proof -
  have c: "codec (pack_signed_block (env_pack_tx env)) (unpack_signed_block (env_sizeof_string env) (env_sizeof_tx env) (env_unpack_tx env))
      (block_ok (env_sizeof_string env) (env_sizeof_tx env) ok)"
    by (rule codec_signed_block) (use assms(1) in \<open>unfold_locales, auto simp: env_ok_def\<close>)
  have b: "block_ok (env_sizeof_string env) (env_sizeof_tx env) ok b" using assms(2) by (simp add: env_block_ok_def)
  then have "pack_signed_block (env_pack_tx env) b \<noteq> []" by (auto simp: block_ok_def header_ok_def pack_signed_block_nonempty)
  then show ?thesis using codec.unpack_pack [OF c b, of "[]"] by (simp add: env_unpack_def env_pack_def unpack_from_def)
qed

lemma default_id_not_null:
  assumes "env_ok env ok"
  shows "env_make_id env default_block \<noteq> null_block_id"
proof -
  have "env_make_id env default_block ! 0 = endian_reverse_u32 (block_num (signed_block_header.truncate (default_block :: 'a signed_block)))"
    using assms by (simp add: env_make_id_def make_id_def Let_def env_ok_def)
  also have "\<dots> = endian_reverse_u32 1"
    by (simp add: block_num_def num_from_id_def default_block_def signed_block_header.truncate_def null_block_id_def endian_reverse_u32_def)
  also have "\<dots> \<noteq> 0" by (simp add: endian_reverse_u32_def)
  finally show ?thesis by (auto simp: null_block_id_def)
qed

text \<open>What reading a slot gives: an empty entry is read as the default block.\<close>

fun slot_block :: "'tx block_env \<Rightarrow> (block_id_type \<times> 'tx signed_block option) option \<Rightarrow> 'tx signed_block option" where
  "slot_block env (Some (i, Some b)) = Some b"
| "slot_block env (Some (i, None)) = (if env_make_id env default_block = i then Some default_block else None)"
| "slot_block env None = None"

lemma catch_read_block:
  assumes "env_ok env ok" "represents env ok db m" "slot_ok env ok (content (blocks db)) e v"
  shows "catchS (bindS (read_block env e) (\<lambda>b. retS (Some b))) None db = (Inr (slot_block env v), db)"
proof -
  have f: "\<not> failed (blocks db)" "length (content (blocks db)) < 2 ^ 63" using assms(2) by (simp_all add: represents_def)
  have empty: "env_unpack env [] = Inr default_block" by (simp add: env_unpack_def unpack_from_def)
  show ?thesis
  proof (cases v)
    case None
    with assms(3) have e: "e = zero_entry" by simp
    show ?thesis using run_read_blocks [OF f(1), of 0 0] default_id_not_null [OF assms(1)] None empty
      by (simp add: e zero_entry_def read_block_def catchS_def bindS_def retS_def liftS_def throwS_def file_slice_def)
  next
    case (Some w)
    obtain i o' where w: "w = (i, o')" by (cases w)
    show ?thesis
    proof (cases o')
      case None
      then have "entry_block_id e = i" "block_size e = 0" "unat (block_pos e) < 2 ^ 63" using assms(3) Some w by simp_all
      then show ?thesis using run_read_blocks [OF f(1), of "block_pos e" 0] Some w None empty
        by (simp add: read_block_def catchS_def bindS_def retS_def liftS_def throwS_def file_slice_def)
    next
      case o: (Some b)
      then have e: "entry_block_id e = env_make_id env b" "env_block_ok env ok b" "unat (block_pos e) + unat (block_size e) \<le> length (content (blocks db))"
        "file_slice (unat (block_pos e)) (unat (block_size e)) (content (blocks db)) = env_pack env b" using assms(3) Some w by auto
      have "unat (block_pos e) < 2 ^ 63" using e(3) f(2) by linarith
      then show ?thesis using run_read_blocks [OF f(1) _ disjI2 [OF e(3)]] env_unpack_pack [OF assms(1) e(2)] Some w o e(1,4)
        by (simp add: read_block_def catchS_def bindS_def retS_def liftS_def)
    qed
  qed
qed

lemma index_bound: "32 * unat (num :: 32 word) < 2 ^ 63"
  using unsigned_less [of num, where ?'a = nat] by simp

text \<open>Reading the entry of a number: past the end of the index, or a slot that stands for the value of the map.\<close>

lemma represents_slot:
  assumes "represents env ok db m"
  obtains "length (content (block_num_to_pos db)) \<le> unat (index_pos num)" "m (unat num) = None"
  | e where "\<not> length (content (block_num_to_pos db)) \<le> unat (index_pos num)"
      "unat (index_pos num) + 32 \<le> length (content (block_num_to_pos db))" "read_entry (index_pos num) db = (Inr e, db)"
      "slot_ok env ok (content (blocks db)) e (m (unat num))" "e = entry_at (content (block_num_to_pos db)) (unat num)"
proof (cases "32 * unat num + 32 \<le> length (content (block_num_to_pos db))")
  case True
  with that(2) [of "entry_at (content (block_num_to_pos db)) (unat num)"] assms show ?thesis
    using run_read_entry [OF _ True unat_index_pos index_bound] by (simp add: represents_def unat_index_pos)
next
  case False
  from assms obtain k where "length (content (block_num_to_pos db)) = 32 * k" unfolding represents_def by (elim conjE dvdE)
  with False have "length (content (block_num_to_pos db)) \<le> 32 * unat num" by simp
  with that(1) assms False show ?thesis by (simp add: represents_def unat_index_pos)
qed

lemma fetch_by_number_represents:
  assumes "env_ok env ok" "represents env ok db m"
  shows "fetch_by_number env num db = (Inr (slot_block env (m (unat num))), db)"
proof -
  have f: "\<not> failed (block_num_to_pos db)" using assms(2) by (simp add: represents_def)
  from assms(2) show ?thesis
  proof (cases rule: represents_slot [where num = num])
    case 1
    then show ?thesis using run_index_size [OF f] by (simp add: fetch_by_number_def catchS_def bindS_def retS_def)
  next
    case (2 e)
    then have "fetch_by_number env num db = catchS (bindS (read_block env e) (\<lambda>b. retS (Some b))) None db"
      using run_index_size [OF f] by (simp add: fetch_by_number_def catchS_def bindS_def)
    then show ?thesis using catch_read_block [OF assms 2(4)] by simp
  qed
qed

text \<open>The value of a slot under an id: nothing when the entry has another id.\<close>

definition block_of_id :: "'tx block_env \<Rightarrow> 'tx block_map \<Rightarrow> block_id_type \<Rightarrow> 'tx signed_block option" where
  "block_of_id env m i = (case m (unat (num_from_id i)) of
     Some (j, v) \<Rightarrow> if j = i then slot_block env (Some (j, v)) else None
   | None \<Rightarrow> None)"

lemma slot_entry_id: "slot_ok env ok bl e v \<Longrightarrow> entry_block_id e = (case v of None \<Rightarrow> null_block_id | Some (i, _) \<Rightarrow> i)"
  by (cases "(env, ok, bl, e, v)" rule: slot_ok.cases) (auto simp: zero_entry_def)

lemma fetch_optional_represents:
  assumes "env_ok env ok" "represents env ok db m"
  shows "fetch_optional env i db = (Inr (block_of_id env m i), db)"
proof -
  have f: "\<not> failed (block_num_to_pos db)" using assms(2) by (simp add: represents_def)
  from assms(2) show ?thesis
  proof (cases rule: represents_slot [where num = "num_from_id i"])
    case 1
    then show ?thesis using run_index_size [OF f] by (simp add: fetch_optional_def Let_def catchS_def bindS_def retS_def block_of_id_def)
  next
    case (2 e)
    have "fetch_optional env i db =
        (if entry_block_id e \<noteq> i then (Inr None, db) else catchS (bindS (read_block env e) (\<lambda>b. retS (Some b))) None db)"
      using run_index_size [OF f] 2(1,3) by (simp add: fetch_optional_def Let_def catchS_def bindS_def retS_def)
    then show ?thesis using catch_read_block [OF assms 2(4)] slot_entry_id [OF 2(4)]
      by (auto simp: block_of_id_def split: option.splits)
  qed
qed

lemma contains_represents:
  assumes "env_ok env ok" "represents env ok db m"
  shows "contains i db = (Inr (\<exists>b. m (unat (num_from_id i)) = Some (i, Some b)), db)"
proof (cases "i = null_block_id")
  case True
  have "num_from_id null_block_id = 0" by (simp add: num_from_id_def null_block_id_def endian_reverse_u32_def)
  moreover have "m 0 \<noteq> Some (j, v)" for j v using assms(2) unfolding represents_def by blast
  ultimately show ?thesis using True by (simp add: contains_def retS_def)
next
  case False
  have f: "\<not> failed (block_num_to_pos db)" using assms(2) by (simp add: represents_def)
  from assms(2) show ?thesis
  proof (cases rule: represents_slot [where num = "num_from_id i"])
    case 1
    then show ?thesis using run_index_size [OF f] False
      by (simp add: contains_def Let_def bindS_def retS_def sizeof_entry_def)
  next
    case (2 e)
    have "contains i db = (Inr (entry_block_id e = i \<and> block_size e > 0), db)"
      using run_index_size [OF f] 2(2,3) False by (simp add: contains_def Let_def bindS_def retS_def sizeof_entry_def)
    moreover have "(entry_block_id e = i \<and> block_size e > 0) \<longleftrightarrow> (\<exists>b. m (unat (num_from_id i)) = Some (i, Some b))"
      using 2(4) False
      by (cases "(env, ok, content (blocks db), e, m (unat (num_from_id i)))" rule: slot_ok.cases)
        (auto simp: zero_entry_def env_pack_def word_gt_0 block_ok_def header_ok_def env_block_ok_def dest: pack_signed_block_nonempty)
    ultimately show ?thesis by simp
  qed
qed

lemma fetch_block_id_represents:
  assumes "represents env ok db m" "m (unat num) = Some (i, v)"
  shows "fetch_block_id num db = (Inr i, db)"
proof -
  have f: "\<not> failed (block_num_to_pos db)" using assms(1) by (simp add: represents_def)
  have i: "length i = 5" "unat (num_from_id i) = unat num" "unat num \<noteq> 0" using assms unfolding represents_def by blast+
  have "num_from_id null_block_id = 0" by (simp add: num_from_id_def null_block_id_def endian_reverse_u32_def)
  then have "i \<noteq> null_block_id" using i(2,3) by auto
  moreover have "num \<noteq> 0" using i(3) by auto
  from assms(1) show ?thesis
  proof (cases rule: represents_slot [where num = num])
    case (2 e)
    then show ?thesis using run_index_size [OF f] slot_entry_id [OF 2(4)] assms(2) \<open>num \<noteq> 0\<close> \<open>i \<noteq> null_block_id\<close>
      by (simp add: fetch_block_id_def bindS_def retS_def)
  qed (use assms(2) in simp)
qed

lemma unat_lt_2p32: "unat (w :: 32 word) < 2 ^ 32"
  using unsigned_less [of w, where ?'a = nat] by simp

text \<open>Both \<open>store\<close> and \<open>remove\<close> write one entry; the other slots keep what they stand for.\<close>

lemma represents_write:
  assumes "represents env ok db m" "length i = 5" "unat (num_from_id i) = n" "n \<noteq> 0" "entry_block_id e = i"
    and bl: "length (content (blocks db) @ dat) < 2 ^ 63" "slot_ok env ok (content (blocks db) @ dat) e (Some (i, v))"
  shows "represents env ok (db\<lparr>blocks := (blocks db)\<lparr>content := content (blocks db) @ dat\<rparr>,
      block_num_to_pos := (block_num_to_pos db)\<lparr>content := overwrite (32 * n) (entry_bytes e) (content (block_num_to_pos db))\<rparr>\<rparr>) (m(n \<mapsto> (i, v)))"
proof -
  let ?ix = "content (block_num_to_pos db)" and ?bl = "content (blocks db)"
  let ?ix' = "overwrite (32 * n) (entry_bytes e) ?ix"
  have R: "32 dvd length ?ix" "\<And>k. if 32 * k + 32 \<le> length ?ix then slot_ok env ok ?bl (entry_at ?ix k) (m k) else m k = None"
    using assms(1) by (simp_all add: represents_def)
  have len: "length ?ix' = max (length ?ix) (32 * n + 32)"
    using assms(2,5) by (simp add: length_overwrite length_entry_bytes)
  have at: "entry_at ?ix' k = (if k = n then e else if 32 * k + 32 \<le> length ?ix \<or> n < k then entry_at ?ix k else zero_entry)" for k
    by (rule entry_at_overwrite) (use assms(2,5) R in simp_all)
  have grow: "slot_ok env ok ?bl e' v' \<Longrightarrow> slot_ok env ok (?bl @ dat) e' v'" for e' v'
    by (cases "(env, ok, ?bl, e', v')" rule: slot_ok.cases) (auto simp: file_slice_append)
  have slots: "if 32 * k + 32 \<le> length ?ix' then slot_ok env ok (?bl @ dat) (entry_at ?ix' k) ((m(n \<mapsto> (i, v))) k) else (m(n \<mapsto> (i, v))) k = None" for k
  proof (cases "k = n")
    case True
    then show ?thesis using bl(2) by (simp add: at len del: slot_ok.simps)
  next
    case False
    show ?thesis
    proof (cases "32 * k + 32 \<le> length ?ix")
      case True
      moreover from this have "32 * k + 32 \<le> length ?ix'" unfolding len by (rule max.coboundedI1)
      ultimately show ?thesis using R(2) [of k] False by (simp add: at grow del: slot_ok.simps)
    next
      case old: False
      with R(2) [of k] have "m k = None" by simp
      with False old show ?thesis by (auto simp: at len max_def)
    qed
  qed
  have dvd: "32 dvd length ?ix'" using R(1) unfolding len by (simp add: max_def)
  have ids: "length j = 5 \<and> unat (num_from_id j) = k \<and> k \<noteq> 0" if "(m(n \<mapsto> (i, v))) k = Some (j, w)" for k j w
    using that assms(1-4) unfolding represents_def by (auto split: if_splits)
  show ?thesis unfolding represents_def using assms(1) bl(1) slots dvd ids
    by (intro conjI allI impI) (simp_all add: represents_def del: fun_upd_apply slot_ok.simps)
qed

lemma store_represents:
  assumes "env_ok env ok" "represents env ok db m" "env_block_ok env ok b" "arg = null_block_id \<or> arg = env_make_id env b"
    "length (content (blocks db)) + length (env_pack env b) < 2 ^ 63"
  shows "\<exists>db'. store env arg b db = (Inr (), db') \<and> content (blocks db') = content (blocks db) @ env_pack env b \<and>
    represents env ok db' (m(unat (num_from_id (env_make_id env b)) \<mapsto> (env_make_id env b, Some b)))"
proof -
  let ?i = "env_make_id env b" and ?v = "env_pack env b" and ?bl = "content (blocks db)"
  let ?e = "\<lparr>block_pos = of_nat (length ?bl), block_size = of_nat (length ?v), entry_block_id = ?i\<rparr>"
  let ?n = "unat (num_from_id ?i)"
  let ?db = "db\<lparr>blocks := (blocks db)\<lparr>content := ?bl @ ?v\<rparr>,
      block_num_to_pos := (block_num_to_pos db)\<lparr>content := overwrite (32 * ?n) (entry_bytes ?e) (content (block_num_to_pos db))\<rparr>\<rparr>"
  have f: "\<not> failed (block_num_to_pos db)" "\<not> failed (blocks db)" using assms(2) by (simp_all add: represents_def)
  have i: "length ?i = 5" by (rule length_make_id [OF assms(1)])
  have n: "?n \<noteq> 0" using assms(3) by (simp add: env_block_ok_def unsigned_eq_0_iff)
  have u: "unat (of_nat (length ?bl) :: 64 word) = length ?bl" "unat (of_nat (length ?v) :: 32 word) = length ?v"
    using assms(3,5) by (simp_all add: env_block_ok_def unsigned_of_nat take_bit_nat_eq_self)
  have sl: "slot_ok env ok (?bl @ ?v) ?e (Some (?i, Some b))" using assms(3) u by (simp add: file_slice_def)
  have "represents env ok ?db (m(?n \<mapsto> (?i, Some b)))"
    by (rule represents_write [OF assms(2) i refl n _ _ sl]) (use assms(5) in simp_all)
  moreover have "store env arg b db = (Inr (), ?db)"
    using assms(4) f run_blocks_size [OF f(2)] by (auto simp: store_def Let_def bindS_def on_blocks_def on_index_def f_write_def overwrite_end unat_index_pos)
  ultimately show ?thesis by auto
qed

text \<open>\<open>remove\<close> marks the entry of the id as empty; it throws only when the index ends before the entry.\<close>

definition removed_map :: "block_id_type \<Rightarrow> 'tx block_map \<Rightarrow> 'tx block_map" where
  "removed_map i m = (case m (unat (num_from_id i)) of
     Some (j, v) \<Rightarrow> if j = i then m(unat (num_from_id i) \<mapsto> (i, None)) else m
   | None \<Rightarrow> m)"

lemma remove_represents:
  assumes "env_ok env ok" "represents env ok db m" "length i = 5" "i \<noteq> null_block_id"
  shows "content (blocks (snd (remove_block i db))) = content (blocks db) \<and> represents env ok (snd (remove_block i db)) (removed_map i m)"
proof -
  have f: "\<not> failed (block_num_to_pos db)" "length (content (blocks db)) < 2 ^ 63" using assms(2) by (simp_all add: represents_def)
  let ?num = "num_from_id i" and ?ix = "content (block_num_to_pos db)"
  from assms(2) show ?thesis
  proof (cases rule: represents_slot [where num = ?num])
    case 1
    then show ?thesis using run_index_size [OF f(1)] assms(2)
      by (simp add: remove_block_def Let_def bindS_def throwS_def removed_map_def)
  next
    case (2 e)
    let ?e = "e\<lparr>block_size := 0\<rparr>"
    let ?db = "db\<lparr>block_num_to_pos := (block_num_to_pos db)\<lparr>content := overwrite (32 * unat ?num) (entry_bytes ?e) ?ix\<rparr>\<rparr>"
    have run: "remove_block i db = (Inr (), if entry_block_id e = i then ?db else db)"
      using run_index_size [OF f(1)] f(1) 2(1,3)
      by (simp add: remove_block_def Let_def bindS_def retS_def on_index_def f_write_def unat_index_pos)
    show ?thesis
    proof (cases "m (unat ?num)")
      case None
      then have e: "e = zero_entry" using 2(4) by simp
      with assms(4) have "entry_block_id e \<noteq> i" by (simp add: zero_entry_def)
      then show ?thesis using run assms(2) None by (simp add: removed_map_def)
    next
      case (Some w)
      obtain j v where w: "w = (j, v)" by (cases w)
      have j: "entry_block_id e = j" using slot_entry_id [OF 2(4)] Some w by simp
      show ?thesis
      proof (cases "j = i")
        case True
        have "unat (block_pos e) < 2 ^ 63" using 2(4) Some w f(2) by (cases v) auto
        then have "slot_ok env ok (content (blocks db) @ []) ?e (Some (i, None))" using j True by simp
        moreover have "unat ?num \<noteq> 0" using assms(2) Some w True unfolding represents_def by blast
        ultimately have "represents env ok (db\<lparr>blocks := (blocks db)\<lparr>content := content (blocks db) @ []\<rparr>,
            block_num_to_pos := (block_num_to_pos db)\<lparr>content := overwrite (32 * unat ?num) (entry_bytes ?e) ?ix\<rparr>\<rparr>) (m(unat ?num \<mapsto> (i, None)))"
          by (intro represents_write [OF assms(2,3) refl]) (use f(2) j True in simp_all)
        then show ?thesis using run j True Some w by (simp add: removed_map_def)
      next
        case False
        then show ?thesis using run j Some w assms(2) by (simp add: removed_map_def)
      qed
    qed
  qed
qed

section \<open>Recovery of the last entry\<close>

definition valid_entry :: "'tx block_env \<Rightarrow> bytes \<Rightarrow> index_entry \<Rightarrow> bool" where
  "valid_entry env bl e \<longleftrightarrow> block_size e > 0 \<and> unat (block_pos e) + unat (block_size e) \<le> length bl \<and>
     (case env_unpack env (file_slice (unat (block_pos e)) (unat (block_size e)) bl) of
        Inr b \<Rightarrow> env_make_id env b = entry_block_id e
      | Inl _ \<Rightarrow> False)"

text \<open>Entries whose end is a signed 64-bit number and whose data is decoded without undefined behaviour.\<close>

text \<open>An entry that passes the test of the code although its block does not lie in the file: the sum of its position and its size
  leaves the range of a signed 64-bit number. Reading it fails the stream.\<close>

definition wild_entry :: "bytes \<Rightarrow> index_entry \<Rightarrow> bool" where
  "wild_entry bl e \<longleftrightarrow> block_size e > 0 \<and> length bl < unat (block_pos e) + unat (block_size e) \<and>
     sint (block_pos e + ucast (block_size e)) \<le> int (length bl)"

text \<open>An entry whose bytes cannot be decoded without leaving the defined behaviour of the program.\<close>

definition fatal_entry :: "'tx block_env \<Rightarrow> bytes \<Rightarrow> index_entry \<Rightarrow> chain_error option" where
  "fatal_entry env bl e =
     (if block_size e > 0 \<and> unat (block_pos e) + unat (block_size e) \<le> length bl
      then case env_unpack env (file_slice (unat (block_pos e)) (unat (block_size e)) bl) of
             Inl err \<Rightarrow> if err = Undefined_behaviour \<or> err = Terminated then Some err else None
           | Inr b \<Rightarrow> None
      else None)"

definition fail_blocks :: "block_database \<Rightarrow> block_database" where
  "fail_blocks db = db\<lparr>blocks := (blocks db)\<lparr>failed := True\<rparr>\<rparr>"

lemma sint_end:
  fixes p :: "64 word" and n :: "32 word"
  assumes "unat p + unat n < 2 ^ 63"
  shows "sint (p + ucast n) = int (unat p + unat n)"
proof -
  have "unat n < 2 ^ 64" using unat_lt_2p32 [of n] by simp
  then have "unat (ucast n :: 64 word) = unat n" by (simp add: unsigned_ucast_eq take_bit_nat_eq_self)
  then have "unat (p + ucast n) = unat p + unat n" using assms by (simp add: unat_word_ariths)
  moreover have "uint (p + ucast n) = int (unat (p + ucast n))" by (rule uint_nat)
  ultimately have "uint (p + ucast n) = int (unat p + unat n)" by (simp only:)
  moreover have "signed_take_bit 63 (int k) = int k" if "k < 2 ^ 63" for k
    by (rule signed_take_bit_int_eq_self) (use that in simp_all)
  note this [OF assms]
  moreover have "sint (p + ucast n) = signed_take_bit 63 (uint (p + ucast n))" by (simp add: sint_uint)
  ultimately show ?thesis by (simp only:)
qed

lemma end_le: "unat p + unat n < 2 ^ 63 \<Longrightarrow> sint ((p :: 64 word) + ucast (n :: 32 word)) \<le> int k \<longleftrightarrow> unat p + unat n \<le> k"
  by (simp only: sint_end of_nat_le_iff)

lemma unat_of_nat64: "n < 2 ^ 64 \<Longrightarrow> unat (of_nat n :: 64 word) = n"
  by (simp add: unsigned_of_nat take_bit_nat_eq_self)

lemma run_check_entry:
  assumes "\<not> failed (blocks db)" "length (content (blocks db)) < 2 ^ 63"
  shows "check_entry env (length (content (blocks db))) e db =
    (if wild_entry (content (blocks db)) e then (Inr False, fail_blocks db)
     else case fatal_entry env (content (blocks db)) e of
       Some err \<Rightarrow> (Inl err, db) | None \<Rightarrow> (Inr (valid_entry env (content (blocks db)) e), db))"
proof (cases "block_size e > 0 \<and> unat (block_pos e) + unat (block_size e) \<le> length (content (blocks db))")
  case True
  then have p: "unat (block_pos e) < 2 ^ 63" and nn: "unat (block_pos e) + unat (block_size e) < 2 ^ 63" using assms(2) by linarith+
  show ?thesis using True run_read_blocks [OF assms(1) p disjI2, of "unat (block_size e)"] end_le [OF nn]
    by (cases "env_unpack env (file_slice (unat (block_pos e)) (unat (block_size e)) (content (blocks db)))")
      (auto simp: check_entry_def catchS_def bindS_def retS_def liftS_def valid_entry_def wild_entry_def fatal_entry_def)
next
  case False
  have "f_read (block_pos e) (unat (block_size e)) (blocks db) = (Inl Std_exception, (blocks db)\<lparr>failed := True\<rparr>)"
    if "wild_entry (content (blocks db)) e"
    using that by (auto simp: f_read_def wild_entry_def word_gt_0 unsigned_eq_0_iff)
  then show ?thesis using False
    by (auto simp: check_entry_def retS_def valid_entry_def wild_entry_def fatal_entry_def catchS_def bindS_def on_blocks_def fail_blocks_def)
qed

lemma entry_at_take: "j < k \<Longrightarrow> entry_at (take (32 * k) ix) j = entry_at ix j"
  by (simp add: entry_at_def file_slice_def drop_take min_def)

definition cut_index :: "nat \<Rightarrow> block_database \<Rightarrow> block_database" where
  "cut_index n db = db\<lparr>block_num_to_pos := (block_num_to_pos db)\<lparr>content := take n (content (block_num_to_pos db))\<rparr>\<rparr>"

lemma cut_index_cut: "n \<le> m \<Longrightarrow> cut_index n (cut_index m db) = cut_index n db"
  by (simp add: cut_index_def min_def)

lemma resize_index_cut: "resize_index n db = (Inr (), cut_index n db)"
  by (simp add: resize_index_def cut_index_def)

lemma fail_blocks_simps [simp]:
  "block_num_to_pos (fail_blocks db) = block_num_to_pos db" "failed (blocks (fail_blocks db))"
  "cut_index n (fail_blocks db) = fail_blocks (cut_index n db)"
  by (simp_all add: fail_blocks_def cut_index_def)

lemma cut_index_simps [simp]:
  "blocks (cut_index n db) = blocks db" "failed (block_num_to_pos (cut_index n db)) = failed (block_num_to_pos db)"
  "content (block_num_to_pos (cut_index n db)) = take n (content (block_num_to_pos db))"
  by (simp_all add: cut_index_def)

text \<open>The scan looks at the entries from the last one down and stops at the first that decides its outcome: a valid entry, one that
  fails the stream, or one whose decoding is fatal. Every entry behind is cut off. Once the stream has failed no entry is found.\<close>

definition decides :: "'tx block_env \<Rightarrow> bytes \<Rightarrow> index_entry \<Rightarrow> bool" where
  "decides env bl e \<longleftrightarrow> valid_entry env bl e \<or> wild_entry bl e \<or> fatal_entry env bl e \<noteq> None"

definition decided_by :: "'tx block_env \<Rightarrow> nat \<Rightarrow> nat \<Rightarrow> block_database \<Rightarrow> index_entry option result \<times> block_database" where
  "decided_by env k j db =
     (let e = entry_at (content (block_num_to_pos db)) j; db' = (if Suc j = k then db else cut_index (32 * Suc j) db)
      in if wild_entry (content (blocks db)) e then (Inr None, fail_blocks (cut_index 0 db))
         else case fatal_entry env (content (blocks db)) e of
           Some err \<Rightarrow> (Inl err, db') | None \<Rightarrow> (Inr (Some e), db'))"

definition recovered :: "'tx block_env \<Rightarrow> nat \<Rightarrow> block_database \<Rightarrow> index_entry option result \<times> block_database \<Rightarrow> bool" where
  "recovered env k db out \<longleftrightarrow>
     (let stop = (\<lambda>j. decides env (content (blocks db)) (entry_at (content (block_num_to_pos db)) j))
      in (\<forall>j < k. \<not> stop j) \<and> out = (Inr None, if k = 0 then db else cut_index 0 db) \<or>
         (\<exists>j < k. stop j \<and> (\<forall>l. j < l \<and> l < k \<longrightarrow> \<not> stop l) \<and> out = decided_by env k j db))"

lemma run_scan_read:
  assumes "\<not> failed (block_num_to_pos db)" "32 * Suc k \<le> length (content (block_num_to_pos db))" "32 * Suc k < 2 ^ 63"
  shows "read_entry (of_nat (sizeof_entry * k)) db = (Inr (entry_at (content (block_num_to_pos db)) k), db)"
proof -
  have u: "unat (of_nat (sizeof_entry * k) :: 64 word) = 32 * k" unfolding sizeof_entry_def by (rule unat_of_nat64) (use assms(3) in simp)
  show ?thesis by (rule run_read_entry [OF assms(1) _ u]) (use assms in simp_all)
qed

lemma run_scan_failed:
  assumes "failed (blocks db)" "\<not> failed (block_num_to_pos db)" "32 * k \<le> length (content (block_num_to_pos db))" "32 * k < 2 ^ 63"
  shows "scan_index env n k db = (Inr None, if k = 0 then db else cut_index 0 db)"
  using assms
proof (induction k arbitrary: db)
  case (Suc k)
  have "check_entry env n e db = (Inr False, db)" for e
    using Suc.prems(1) by (auto simp: check_entry_def retS_def catchS_def bindS_def on_blocks_def f_read_def)
  then have "scan_index env n (Suc k) db = scan_index env n k (cut_index (32 * k) db)"
    using run_scan_read [OF Suc.prems(2-4)] by (simp add: bindS_def resize_index_cut sizeof_entry_def)
  moreover have "scan_index env n k (cut_index (32 * k) db) =
      (Inr None, if k = 0 then cut_index (32 * k) db else cut_index 0 (cut_index (32 * k) db))"
    by (rule Suc.IH) (use Suc.prems in simp_all)
  ultimately show ?case by (simp add: cut_index_cut)
qed (simp add: retS_def)

lemma recovered_Suc:
  assumes "\<not> decides env (content (blocks db)) (entry_at (content (block_num_to_pos db)) k)"
    "recovered env k (cut_index (32 * k) db) out"
  shows "recovered env (Suc k) db out"
proof -
  let ?ix = "content (block_num_to_pos db)" and ?db = "cut_index (32 * k) db"
  let ?stop = "\<lambda>j. decides env (content (blocks db)) (entry_at ?ix j)"
  from assms(2) consider "\<forall>j < k. \<not> ?stop j" "out = (Inr None, if k = 0 then ?db else cut_index 0 ?db)"
    | j where "j < k" "?stop j" "\<forall>l. j < l \<and> l < k \<longrightarrow> \<not> ?stop l" "out = decided_by env k j ?db"
    unfolding recovered_def Let_def by (auto simp: entry_at_take)
  then show ?thesis
  proof cases
    case 1
    then have "\<forall>j < Suc k. \<not> ?stop j" using assms(1) less_Suc_eq by auto
    moreover have "out = (Inr None, cut_index 0 db)" using 1(2) by (simp add: cut_index_cut)
    ultimately show ?thesis by (simp add: recovered_def)
  next
    case (2 j)
    have "decided_by env k j ?db = decided_by env (Suc k) j db"
      using 2(1) by (auto simp: decided_by_def Let_def entry_at_take cut_index_cut split: option.splits)
    moreover have "\<forall>l. j < l \<and> l < Suc k \<longrightarrow> \<not> ?stop l" using 2(3) assms(1) less_Suc_eq by auto
    ultimately show ?thesis using 2 less_SucI unfolding recovered_def Let_def by blast
  qed
qed

lemma recovered_stop:
  assumes "decides env (content (blocks db)) (entry_at (content (block_num_to_pos db)) k)"
  shows "recovered env (Suc k) db (decided_by env (Suc k) k db)"
  using assms unfolding recovered_def Let_def by (intro disjI2 exI [of _ k]) auto

lemma run_scan_index:
  assumes "\<not> failed (blocks db)" "length (content (blocks db)) < 2 ^ 63"
    "\<not> failed (block_num_to_pos db)" "32 * k \<le> length (content (block_num_to_pos db))" "32 * k < 2 ^ 63"
  shows "recovered env k db (scan_index env (length (content (blocks db))) k db)"
  using assms
proof (induction k arbitrary: db)
  case 0
  then show ?case by (simp add: retS_def recovered_def)
next
  case (Suc k)
  let ?bl = "content (blocks db)"
  let ?e = "entry_at (content (block_num_to_pos db)) k" and ?db = "cut_index (32 * k) db"
  note run = run_scan_read [OF Suc.prems(3-5)] run_check_entry [OF Suc.prems(1,2), of env ?e]
  show ?case
  proof (cases "decides env ?bl ?e")
    case True
    have "scan_index env (length ?bl) (Suc k) db = decided_by env (Suc k) k db"
    proof (cases "wild_entry ?bl ?e")
      case True
      then have "scan_index env (length ?bl) (Suc k) db = scan_index env (length ?bl) k (fail_blocks ?db)"
        using run by (simp add: bindS_def resize_index_cut sizeof_entry_def)
      moreover have "scan_index env (length ?bl) k (fail_blocks ?db) =
          (Inr None, if k = 0 then fail_blocks ?db else cut_index 0 (fail_blocks ?db))"
        by (rule run_scan_failed) (use Suc.prems in simp_all)
      ultimately show ?thesis using True by (simp add: decided_by_def cut_index_cut)
    next
      case False
      with \<open>decides env ?bl ?e\<close> have "valid_entry env ?bl ?e" if "fatal_entry env ?bl ?e = None" using that by (simp add: decides_def)
      with False show ?thesis using run by (auto simp: bindS_def retS_def decided_by_def split: option.splits)
    qed
    then show ?thesis using recovered_stop [OF True] by simp
  next
    case False
    then have "scan_index env (length ?bl) (Suc k) db = scan_index env (length ?bl) k ?db"
      using run by (simp add: decides_def bindS_def resize_index_cut sizeof_entry_def)
    moreover have "recovered env k ?db (scan_index env (length (content (blocks ?db))) k ?db)"
      by (rule Suc.IH) (use Suc.prems in simp_all)
    ultimately show ?thesis using recovered_Suc [OF False] by simp
  qed
qed

lemma recovered_caught: "recovered env k db out \<Longrightarrow> m db = out \<Longrightarrow> catchS m None db = out"
  by (cases out rule: prod.exhaust)
    (auto simp: recovered_def Let_def decided_by_def catchS_def fatal_entry_def split: option.splits if_splits sum.splits)

lemma run_last_index_entry:
  assumes "\<not> failed (blocks db)" "length (content (blocks db)) < 2 ^ 63"
    "\<not> failed (block_num_to_pos db)" "length (content (block_num_to_pos db)) < 2 ^ 63"
  shows "recovered env (length (content (block_num_to_pos db)) div 32) db (last_index_entry env db)"
proof (cases "length (content (block_num_to_pos db)) < 32")
  case True
  then show ?thesis using run_index_size [OF assms(3)]
    by (simp add: last_index_entry_def catchS_def bindS_def retS_def sizeof_entry_def recovered_def)
next
  case False
  let ?k = "length (content (block_num_to_pos db)) div 32" and ?n = "length (content (blocks db))"
  have "32 * ?k \<le> length (content (block_num_to_pos db))" by simp
  moreover from this have "32 * ?k < 2 ^ 63" using assms(4) by linarith
  ultimately have r: "recovered env ?k db (scan_index env ?n ?k db)" by (rule run_scan_index [OF assms(1-3)])
  have "last_index_entry env db = catchS (scan_index env ?n ?k) None db"
    using False run_index_size [OF assms(3)] run_blocks_size [OF assms(1)]
    by (simp add: last_index_entry_def catchS_def bindS_def sizeof_entry_def)
  also have "\<dots> = scan_index env ?n ?k db" using recovered_caught [OF r] by simp
  finally show ?thesis using r by simp
qed

text \<open>A read past the end of the block file leaves its stream failed: from then on nothing is stored and no block is read.\<close>

lemma short_read_poisons:
  assumes "\<not> failed (block_num_to_pos db)" "unat (index_pos num) + 32 \<le> length (content (block_num_to_pos db))"
    "e = entry_at (content (block_num_to_pos db)) (unat num)" "block_size e > 0" "length (content (blocks db)) < unat (block_pos e) + unat (block_size e)"
  shows "fst (fetch_by_number env num db) = Inr None" "failed (blocks (snd (fetch_by_number env num db)))"
    "fst (store env i b (snd (fetch_by_number env num db))) = Inl Std_exception"
proof -
  have "fetch_by_number env num db = (Inr None, db\<lparr>blocks := (blocks db)\<lparr>failed := True\<rparr>\<rparr>)"
    using assms run_index_size [OF assms(1)] run_read_entry [OF assms(1) _ unat_index_pos index_bound]
    by (auto simp: fetch_by_number_def catchS_def bindS_def read_block_def on_blocks_def f_read_def unat_index_pos word_gt_0 unsigned_eq_0_iff)
  then show "fst (fetch_by_number env num db) = Inr None" "failed (blocks (snd (fetch_by_number env num db)))"
    "fst (store env i b (snd (fetch_by_number env num db))) = Inl Std_exception"
    by (simp_all add: store_def Let_def bindS_def on_blocks_def f_size_def)
qed

section \<open>Properties\<close>

datatype 'tx db_op =
    Store_op block_id_type "'tx signed_block"
  | Remove_op block_id_type

fun db_step :: "'tx block_env \<Rightarrow> 'tx db_op \<Rightarrow> block_database \<Rightarrow> block_database" where
  "db_step env (Store_op i b) db = snd (store env i b db)"
| "db_step env (Remove_op i) db = snd (remove_block i db)"

fun map_step :: "'tx block_env \<Rightarrow> 'tx db_op \<Rightarrow> 'tx block_map \<Rightarrow> 'tx block_map" where
  "map_step env (Store_op i b) m = m(unat (num_from_id (env_make_id env b)) \<mapsto> (env_make_id env b, Some b))"
| "map_step env (Remove_op i) m = removed_map i m"

text \<open>The operations of the refinement store a block under its own id. One caller does not: after a failed switch of forks
  \<open>_push_block\<close> puts each block of the old branch back under the id of the block it was given. That store is an operation of
  \<open>push_block\<close> in its theory; it has no counterpart in a map from a number to the block of that number.\<close>

fun op_ok :: "'tx block_env \<Rightarrow> ('tx \<Rightarrow> bool) \<Rightarrow> 'tx db_op \<Rightarrow> bool" where
  "op_ok env ok (Store_op i b) \<longleftrightarrow> env_block_ok env ok b \<and> (i = null_block_id \<or> i = env_make_id env b)"
| "op_ok env ok (Remove_op i) \<longleftrightarrow> length i = 5 \<and> i \<noteq> null_block_id"

fun op_bytes :: "'tx block_env \<Rightarrow> 'tx db_op \<Rightarrow> nat" where
  "op_bytes env (Store_op i b) = length (env_pack env b)"
| "op_bytes env (Remove_op i) = 0"

lemma represents_new: "represents env ok new_database Map.empty"
  by (simp add: represents_def new_database_def new_stream_def)

lemma represents_run:
  assumes "env_ok env ok" "represents env ok db m" "\<forall>op \<in> set ops. op_ok env ok op"
    "length (content (blocks db)) + sum_list (map (op_bytes env) ops) < 2 ^ 63"
  shows "represents env ok (fold (db_step env) ops db) (fold (map_step env) ops m)"
  using assms(2-)
proof (induction ops arbitrary: db m)
  case (Cons op ops)
  have "\<exists>db'. db_step env op db = db' \<and> length (content (blocks db')) = length (content (blocks db)) + op_bytes env op \<and>
      represents env ok db' (map_step env op m)"
  proof (cases op)
    case (Store_op i b)
    with Cons.prems store_represents [OF assms(1) Cons.prems(1), of b i] show ?thesis by fastforce
  next
    case (Remove_op i)
    with Cons.prems remove_represents [OF assms(1) Cons.prems(1), of i] show ?thesis by simp
  qed
  with Cons.IH [of "db_step env op db" "map_step env op m"] Cons.prems show ?case by auto
qed simp

text \<open>C13: the two files implement a map from block numbers to blocks. After any sequence of stores and removes of well-formed blocks the
  four lookups return what the map holds: the block last stored under a number, found by the number and by its id and no other, unless
  it was removed. The hypotheses are that SHA-224 digests have seven words, that transactions are read back from their
  serialization, and that fewer than 2^63 bytes are stored.\<close>

theorem block_database_refines_map:
  assumes "env_ok env ok" "\<forall>op \<in> set ops. op_ok env ok op" "sum_list (map (op_bytes env) ops) < 2 ^ 63"
    "db = fold (db_step env) ops new_database" "m = fold (map_step env) ops Map.empty"
  shows "(\<forall>num. fetch_by_number env num db = (Inr (slot_block env (m (unat num))), db)) \<and>
    (\<forall>i. fetch_optional env i db = (Inr (block_of_id env m i), db)) \<and>
    (\<forall>i. contains i db = (Inr (\<exists>b. m (unat (num_from_id i)) = Some (i, Some b)), db)) \<and>
    (\<forall>num i v. m (unat num) = Some (i, v) \<longrightarrow> fetch_block_id num db = (Inr i, db))"
proof -
  have r: "represents env ok db m" unfolding assms(4,5)
    by (rule represents_run [OF assms(1) represents_new assms(2)]) (use assms(3) in \<open>simp add: new_database_def new_stream_def\<close>)
  show ?thesis
    using fetch_by_number_represents [OF assms(1) r] fetch_optional_represents [OF assms(1) r] contains_represents [OF assms(1) r]
      fetch_block_id_represents [OF r] by blast
qed

text \<open>Two blocks of one transaction each, with the timestamp in the place of a hash.\<close>

definition sample_env :: "64 word block_env" where
  "sample_env = \<lparr>env_pack_tx = pack_u64, env_unpack_tx = unpack_u64, env_sizeof_tx = 8, env_sizeof_string = 32,
     env_sha224 = (\<lambda>h. replicate 7 (timestamp h))\<rparr>"

definition sample_block :: "32 word \<Rightarrow> 32 word \<Rightarrow> 64 word \<Rightarrow> 64 word signed_block" where
  "sample_block num t tx = \<lparr>previous = [endian_reverse_u32 (num - 1), 0, 0, 0, 0], timestamp = t, witness = 3,
     transaction_merkle_root = [0, 0, 0, 0, 0], extensions = None, witness_signature = replicate 65 0, block_id = [0, 0, 0, 0, 0],
     transactions = [tx]\<rparr>"

lemma sample_env_ok: "env_ok sample_env (\<lambda>_. True)"
  by (simp add: env_ok_def sample_env_def u64.unpack_pack)

lemma sample_block_ok: "env_block_ok sample_env (\<lambda>_. True) (sample_block 1 60 7)" "env_block_ok sample_env (\<lambda>_. True) (sample_block 2 63 8)"
proof -
  have "length (env_pack sample_env (sample_block 1 60 7)) = 147" "length (env_pack sample_env (sample_block 2 63 8)) = 147" by code_simp+
  moreover have "num_from_id (env_make_id sample_env (sample_block 1 60 7)) = 1" "num_from_id (env_make_id sample_env (sample_block 2 63 8)) = 2"
    by code_simp+
  ultimately show "env_block_ok sample_env (\<lambda>_. True) (sample_block 1 60 7)" "env_block_ok sample_env (\<lambda>_. True) (sample_block 2 63 8)"
    by (simp_all add: env_block_ok_def block_ok_def header_ok_def extensions_ok_def vector_ok_def sample_block_def sample_env_def
      MAX_ARRAY_ALLOC_SIZE_def)
qed

theorem block_database_refines_map_witness:
  "fst (fetch_by_number sample_env 2 (fold (db_step sample_env)
     [Store_op null_block_id (sample_block 1 60 7), Store_op null_block_id (sample_block 2 63 8)] new_database)) =
   Inr (Some (sample_block 2 63 8))"
proof -
  let ?ops = "[Store_op null_block_id (sample_block 1 60 7), Store_op null_block_id (sample_block 2 63 8)]"
  have ops: "\<forall>op \<in> set ?ops. op_ok sample_env (\<lambda>_. True) op" using sample_block_ok by simp
  have len: "sum_list (map (op_bytes sample_env) ?ops) < 2 ^ 63" using sample_block_ok by (simp add: env_block_ok_def)
  have num: "num_from_id (env_make_id sample_env (sample_block 1 60 7)) = 1" "num_from_id (env_make_id sample_env (sample_block 2 63 8)) = 2"
    by code_simp+
  show ?thesis using block_database_refines_map [OF sample_env_ok ops len refl refl, THEN conjunct1, THEN spec, of 2] num by simp
qed

text \<open>C14: recovery after a crash. Whatever the two files hold, \<open>last_index_entry\<close> ends, and the last complete index entry that is
  valid, wild or fatal decides what it does. A valid entry is one whose block lies inside the block file, is decoded and has the id of the
  entry: it is returned, the index is cut behind it, and the block file and the entries before are untouched. When no entry decides, none is
  returned and the whole index is cut. A wild entry, whose end leaves the range of a signed 64-bit number, passes the test of the code, its
  read fails the stream of the block file, and the whole index is cut although valid entries may stand before it. A fatal entry is one whose
  bytes cannot be decoded without undefined behaviour or termination of the program, which is then the outcome. It is assumed that both
  files are shorter than 2^63 bytes and that their streams have not failed before.\<close>

theorem last_index_entry_recovers:
  assumes "\<not> failed (blocks db)" "length (content (blocks db)) < 2 ^ 63"
    "\<not> failed (block_num_to_pos db)" "length (content (block_num_to_pos db)) < 2 ^ 63"
  shows "recovered env (length (content (block_num_to_pos db)) div 32) db (last_index_entry env db)"
  using assms by (rule run_last_index_entry)

definition torn_database :: block_database where
  "torn_database = (let db = db_step sample_env (Store_op null_block_id (sample_block 1 60 7)) new_database
     in db\<lparr>block_num_to_pos := (block_num_to_pos db)\<lparr>content := content (block_num_to_pos db) @
       entry_bytes \<lparr>block_pos = 147, block_size = 100, entry_block_id = [1, 2, 3, 4, 5]\<rparr> @ [1, 2]\<rparr>\<rparr>)"

text \<open>A valid entry with a wild one behind it.\<close>

definition wild_database :: block_database where
  "wild_database = (let db = db_step sample_env (Store_op null_block_id (sample_block 1 60 7)) new_database
     in db\<lparr>block_num_to_pos := (block_num_to_pos db)\<lparr>content := drop 32 (content (block_num_to_pos db)) @
       entry_bytes \<lparr>block_pos = 0xffffffffffffff00, block_size = 100, entry_block_id = [1, 2, 3, 4, 5]\<rparr>\<rparr>\<rparr>)"

theorem last_index_entry_recovers_witness:
  "recovered sample_env 3 torn_database (last_index_entry sample_env torn_database) \<and>
    fst (last_index_entry sample_env torn_database) = Inr (Some (entry_at (content (block_num_to_pos torn_database)) 1)) \<and>
    recovered sample_env 2 wild_database (last_index_entry sample_env wild_database) \<and>
    fst (last_index_entry sample_env wild_database) = Inr None \<and>
    content (block_num_to_pos (snd (last_index_entry sample_env wild_database))) = []"
proof -
  have t: "length (content (block_num_to_pos torn_database)) = 98" "length (content (blocks torn_database)) = 147"
    "length (content (block_num_to_pos wild_database)) = 64" "length (content (blocks wild_database)) = 147" by code_simp+
  have f: "\<not> failed (blocks torn_database)" "\<not> failed (block_num_to_pos torn_database)"
    "\<not> failed (blocks wild_database)" "\<not> failed (block_num_to_pos wild_database)" by code_simp+
  have "fst (last_index_entry sample_env torn_database) = Inr (Some (entry_at (content (block_num_to_pos torn_database)) 1))"
    "fst (last_index_entry sample_env wild_database) = Inr None"
    "content (block_num_to_pos (snd (last_index_entry sample_env wild_database))) = []" by code_simp+
  then show ?thesis using last_index_entry_recovers [of torn_database sample_env] last_index_entry_recovers [of wild_database sample_env] t f
    by simp
qed

end
