(* ===== verification/Push_Block.thy ===== *)
theory Push_Block
  imports Apply_Block Block_Database
begin

text \<open>Pushing and popping blocks (\<open>_push_block\<close>, \<open>pop_block\<close> and the lookups of \<open>db_block.cpp\<close>): the undo history, the fork database and the
  block files together. The object state \<open>'u\<close>, the application of a block to it and its head fields are arguments, collected in
  the record \<open>chain_env\<close>; \<open>Chain_Runs\<close> instantiates it with \<open>apply_block\<close> of \<open>Apply_Block\<close>.
  The undo history is the stack of snapshots that \<open>Undo_Db\<close> shows it to be. \<open>push_block\<close> closes the pending session before
  \<open>_push_block\<close>, so none is open here, and undo is enabled.\<close>

section \<open>State\<close>

record ('u, 'tx) chain_env =
  ce_apply :: "32 word \<Rightarrow> 'tx signed_block \<Rightarrow> 'u \<Rightarrow> 32 word option \<times> 'u result"
  ce_head :: "'u \<Rightarrow> block_id_type"
  ce_num :: "'u \<Rightarrow> 32 word"
  ce_files :: "'tx block_env"

text \<open>\<open>fork_data\<close> holds the blocks of the fork items, by their address.\<close>

record ('u, 'tx) chain_db =
  undoable :: 'u
  undo_stack :: "'u list"
  undo_limit :: nat
  fork_db :: fork_database
  fork_data :: "'tx signed_block list"
  block_files :: block_database
  popped_tx :: "'tx list"
  skip_flags :: "32 word"

text \<open>\<open>catch (const fc::exception&)\<close> catches what is not a standard exception.\<close>

definition fc_exception :: "chain_error \<Rightarrow> bool" where
  "fc_exception e \<longleftrightarrow> e \<notin> {Std_exception, Undefined_behaviour, Terminated}"

section \<open>Lookups\<close>

definition chain_is_known_block :: "block_id_type \<Rightarrow> (('u, 'tx) chain_db, bool) stateful" where
  "chain_is_known_block i s =
     (if is_known_block (fork_db s) i then (Inr True, s)
      else case contains i (block_files s) of (r, f) \<Rightarrow> (r, s\<lparr>block_files := f\<rparr>))"

definition fetch_block_by_id :: "('u, 'tx) chain_env \<Rightarrow> block_id_type \<Rightarrow> (('u, 'tx) chain_db, 'tx signed_block option) stateful" where
  "fetch_block_by_id env i s = (case fetch_block (fork_db s) i of
     Some p \<Rightarrow> (Inr (Some (fork_data s ! p)), s)
   | None \<Rightarrow> (case fetch_optional (ce_files env) i (block_files s) of (r, f) \<Rightarrow> (r, s\<lparr>block_files := f\<rparr>)))"

definition chain_fetch_by_number :: "('u, 'tx) chain_env \<Rightarrow> 32 word \<Rightarrow> (('u, 'tx) chain_db, 'tx signed_block option) stateful" where
  "chain_fetch_by_number env num s = (case fetch_block_by_number (fork_db s) num of
     [p] \<Rightarrow> (Inr (Some (fork_data s ! p)), s)
   | _ \<Rightarrow> (case fetch_by_number (ce_files env) num (block_files s) of (r, f) \<Rightarrow> (r, s\<lparr>block_files := f\<rparr>)))"

section \<open>Applying a block in an undo session\<close>

definition set_limits :: "32 word option \<Rightarrow> ('u, 'tx) chain_db \<Rightarrow> ('u, 'tx) chain_db" where
  "set_limits lim s = (case lim of None \<Rightarrow> s | Some n \<Rightarrow> s\<lparr>undo_limit := unat n, fork_db := set_max_size n (fork_db s)\<rparr>)"

text \<open>\<open>start_undo_session\<close>, \<open>apply_block\<close>, \<open>store\<close> under the given id, \<open>commit\<close>; the session is undone when one of them throws.\<close>

definition apply_in_session :: "('u, 'tx) chain_env \<Rightarrow> block_id_type \<Rightarrow> 'tx signed_block \<Rightarrow> (('u, 'tx) chain_db, unit) stateful" where
  "apply_in_session env i b s =
     (let s0 = s\<lparr>undo_stack := take (undo_limit s) (undo_stack s)\<rparr>
      in case ce_apply env (skip_flags s) b (undoable s) of
           (lim, Inl e) \<Rightarrow> (Inl e, set_limits lim s0)
         | (lim, Inr u) \<Rightarrow>
             let s1 = set_limits lim s0
             in (case store (ce_files env) i b (block_files s1) of
                   (Inl e, f) \<Rightarrow> (Inl e, s1\<lparr>block_files := f\<rparr>)
                 | (Inr _, f) \<Rightarrow> (Inr (), s1\<lparr>undoable := u, undo_stack := undoable s # undo_stack s1, block_files := f\<rparr>)))"

section \<open>Popping blocks\<close>

definition chain_pop_block :: "('u, 'tx) chain_env \<Rightarrow> (('u, 'tx) chain_db, unit) stateful" where
  "chain_pop_block env =
     bindS (\<lambda>s. fetch_block_by_id env (ce_head env (undoable s)) s) (\<lambda>head_block. case head_block of
       None \<Rightarrow> throwS Pop_empty_chain
     | Some b \<Rightarrow> (\<lambda>s. case pop_block (fork_db s) of
           Inl e \<Rightarrow> (Inl e, s)
         | Inr f \<Rightarrow> (case undo_stack s of
               [] \<Rightarrow> (Inl Assert_exception, s\<lparr>fork_db := f\<rparr>)
             | u # us \<Rightarrow> (Inr (), s\<lparr>fork_db := f, undoable := u, undo_stack := us, popped_tx := transactions b\<rparr>))))"

lemma fetch_block_by_id_frame:
  assumes "fetch_block_by_id env i s = (r, s')"
  shows "undoable s' = undoable s \<and> undo_stack s' = undo_stack s \<and> skip_flags s' = skip_flags s \<and> fork_db s' = fork_db s \<and>
    fork_data s' = fork_data s \<and> undo_limit s' = undo_limit s"
  using assms by (auto simp: fetch_block_by_id_def split: option.splits prod.splits)

lemma chain_pop_block_run:
  assumes "chain_pop_block env s = (r, s')"
  shows "skip_flags s' = skip_flags s" "fork_data s' = fork_data s"
    "r = Inr () \<Longrightarrow> undo_stack s = undoable s' # undo_stack s'" "r \<noteq> Inr () \<Longrightarrow> undoable s' = undoable s \<and> undo_stack s' = undo_stack s"
  using assms
  by (auto simp: chain_pop_block_def bindS_def throwS_def split: prod.splits sum.splits option.splits list.splits
    dest!: fetch_block_by_id_frame)

text \<open>\<open>while (head_block_id() != target) pop_block();\<close> ends because every pop shortens the undo history.\<close>

function pop_until :: "('u, 'tx) chain_env \<Rightarrow> block_id_type \<Rightarrow> (('u, 'tx) chain_db, unit) stateful" where
  "pop_until env target s =
     (if ce_head env (undoable s) \<noteq> target
      then (case chain_pop_block env s of (Inl e, s') \<Rightarrow> (Inl e, s') | (Inr _, s') \<Rightarrow> pop_until env target s')
      else (Inr (), s))"
  by pat_completeness auto
termination
proof (relation "measure (\<lambda>(env, target, s). length (undo_stack s))", goal_cases)
  case (2 env target s s' x)
  then show ?case using chain_pop_block_run(3) [of env s] by (cases "chain_pop_block env s") auto
qed simp

declare pop_until.simps [simp del]

section \<open>Pushing a block\<close>

text \<open>The switch to another fork: \<open>xs\<close> is \<open>branches.first\<close> and \<open>ys\<close> is \<open>branches.second\<close>, both with the newest block first.\<close>

definition reapply_fork :: "('u, 'tx) chain_env \<Rightarrow> block_id_type \<Rightarrow> nat list \<Rightarrow> (('u, 'tx) chain_db, unit) stateful" where
  "reapply_fork env new_id ys = forS (\<lambda>q s. apply_in_session env new_id (fork_data s ! q) s) (rev ys)"

definition restore_fork :: "('u, 'tx) chain_env \<Rightarrow> block_id_type \<Rightarrow> nat list \<Rightarrow> nat list \<Rightarrow> (('u, 'tx) chain_db, unit) stateful" where
  "restore_fork env new_id bad ys =
     bindS (\<lambda>s. (Inr (), s\<lparr>fork_db := set_fork_head (Some (hd ys)) (fold (\<lambda>p f. fork_remove (block_id (fork_data s ! p)) f) bad (fork_db s))\<rparr>)) (\<lambda>_.
     bindS (\<lambda>s. pop_until env (previous (fork_data s ! last ys)) s) (\<lambda>_.
     reapply_fork env new_id ys))"

primrec push_fork :: "('u, 'tx) chain_env \<Rightarrow> block_id_type \<Rightarrow> nat list \<Rightarrow> nat list \<Rightarrow> (('u, 'tx) chain_db, unit) stateful" where
  "push_fork env new_id ys [] = retS ()"
| "push_fork env new_id ys (p # ps) = (\<lambda>s.
     case apply_in_session env (fi_id (item (fork_db s) p)) (fork_data s ! p) s of
       (Inr _, s') \<Rightarrow> push_fork env new_id ys ps s'
     | (Inl e, s') \<Rightarrow>
         if fc_exception e then bindS (restore_fork env new_id (p # ps) ys) (\<lambda>_. throwS e) s' else (Inl e, s'))"

definition switch_fork :: "('u, 'tx) chain_env \<Rightarrow> block_id_type \<Rightarrow> nat list \<Rightarrow> nat list \<Rightarrow> (('u, 'tx) chain_db, unit) stateful" where
  "switch_fork env new_id xs ys =
     bindS (\<lambda>s. pop_until env (previous (fork_data s ! last ys)) s) (\<lambda>_. push_fork env new_id ys (rev xs))"

text \<open>The branches hold their items while the switch runs.\<close>

definition with_pinned :: "nat list \<Rightarrow> (('u, 'tx) chain_db, 'a) stateful \<Rightarrow> (('u, 'tx) chain_db, 'a) stateful" where
  "with_pinned ps m s =
     (case m (s\<lparr>fork_db := (fork_db s)\<lparr>fork_pinned := ps @ fork_pinned (fork_db s)\<rparr>\<rparr>) of
        (r, s') \<Rightarrow> (r, s'\<lparr>fork_db := (fork_db s')\<lparr>fork_pinned := fork_pinned (fork_db s)\<rparr>\<rparr>))"

definition skip_fork_db :: "32 word" where
  "skip_fork_db = push_bit 3 1"

definition push_on_head :: "('u, 'tx) chain_env \<Rightarrow> 'tx signed_block \<Rightarrow> (('u, 'tx) chain_db, bool) stateful" where
  "push_on_head env new_block s =
     (case apply_in_session env (block_id new_block) new_block s of
        (Inr _, s') \<Rightarrow> (Inr False, s')
      | (Inl e, s') \<Rightarrow> if fc_exception e then (Inl e, s'\<lparr>fork_db := fork_remove (block_id new_block) (fork_db s')\<rparr>) else (Inl e, s'))"

text \<open>The result is None only if the search for the branches does not end, which \<open>Fork_Db\<close> excludes.\<close>

definition chain_push_block ::
  "('u, 'tx) chain_env \<Rightarrow> 'tx signed_block \<Rightarrow> ('u, 'tx) chain_db \<Rightarrow> (bool result \<times> ('u, 'tx) chain_db) option" where
  "chain_push_block env new_block s =
     (if block_id new_block \<noteq> env_make_id (ce_files env) new_block then Some (Inl Assert_exception, s)
      else if skip_flags s AND skip_fork_db \<noteq> 0 then Some (push_on_head env new_block s)
      else case push_block new_block (fork_db s) of
        Inl e \<Rightarrow> Some (Inl e, s)
      | Inr (f, None) \<Rightarrow> Some (Inl Undefined_behaviour, s)
      | Inr (f, Some new_head) \<Rightarrow>
          let s1 = s\<lparr>fork_db := f, fork_data := fork_data s @ [new_block]\<rparr>; hb = fork_data s1 ! new_head
          in if previous hb \<noteq> ce_head env (undoable s)
             then if block_num hb > ce_num env (undoable s)
                  then (case fetch_branch_from f (block_id hb) (ce_head env (undoable s)) of
                          None \<Rightarrow> None
                        | Some (Inl e) \<Rightarrow> Some (Inl e, s1)
                        | Some (Inr (xs, ys)) \<Rightarrow>
                            Some (with_pinned (xs @ ys) (bindS (switch_fork env (block_id new_block) xs ys) (\<lambda>_. retS True)) s1))
                  else Some (Inr False, s1)
             else Some (push_on_head env new_block s1))"

end
