(* ===== verification/Chain_History.thy ===== *)
theory Chain_History
  imports Push_Block
begin

text \<open>The history of the objects under pushes and pops of blocks: whatever forks arrive, and whether a switch succeeds or fails, the
  objects are the result of applying one chain of blocks to the genesis state.\<close>

section \<open>Histories\<close>

text \<open>What the code relies on: a block is applied only to the head it names, and becomes the head.\<close>

definition extends_head :: "('u, 'tx) chain_env \<Rightarrow> bool" where
  "extends_head env \<longleftrightarrow> (\<forall>skip b u lim u'. ce_apply env skip b u = (lim, Inr u') \<longrightarrow> ce_head env u = previous b \<and> ce_head env u' = block_id b)"

definition applies :: "('u, 'tx) chain_env \<Rightarrow> 'tx signed_block \<Rightarrow> 'u \<Rightarrow> 'u \<Rightarrow> bool" where
  "applies env b v u \<longleftrightarrow> (\<exists>skip lim. ce_apply env skip b v = (lim, Inr u))"

lemma appliesI: "ce_apply env skip b v = (lim, Inr u) \<Longrightarrow> applies env b v u"
  by (auto simp: applies_def)

text \<open>\<open>lineage env g bs u st\<close>: applying the blocks \<open>bs\<close> (newest first) to \<open>g\<close> gives \<open>u\<close>, and the undo history \<open>st\<close> holds, as far as it
  reaches, the states in between.\<close>

primrec lineage :: "('u, 'tx) chain_env \<Rightarrow> 'u \<Rightarrow> 'tx signed_block list \<Rightarrow> 'u \<Rightarrow> 'u list \<Rightarrow> bool" where
  "lineage env g [] u st \<longleftrightarrow> u = g \<and> st = []"
| "lineage env g (b # bs) u st \<longleftrightarrow> (\<exists>v. applies env b v u \<and> lineage env g bs v (tl st) \<and> (st \<noteq> [] \<longrightarrow> hd st = v))"

lemma lineage_take: "lineage env g bs u st \<Longrightarrow> lineage env g bs u (take n st)"
proof (induction bs arbitrary: u st n)
  case (Cons b bs)
  then obtain v where v: "applies env b v u" "lineage env g bs v (tl st)" "st \<noteq> [] \<longrightarrow> hd st = v" by auto
  have "tl (take n st) = take (n - 1) (tl st)" by (cases n; cases st) auto
  then have "lineage env g bs v (tl (take n st))" using Cons.IH [OF v(2), of "n - 1"] by simp
  with v show ?case by (cases n; cases st) auto
qed simp

definition base_head :: "('u, 'tx) chain_env \<Rightarrow> 'u \<Rightarrow> 'tx signed_block list \<Rightarrow> block_id_type" where
  "base_head env g bs = (case bs of [] \<Rightarrow> ce_head env g | b # _ \<Rightarrow> block_id b)"

lemma lineage_head: "extends_head env \<Longrightarrow> lineage env g bs u st \<Longrightarrow> ce_head env u = base_head env g bs"
  by (cases bs) (auto simp: extends_head_def applies_def base_head_def)

lemma lineage_previous: "extends_head env \<Longrightarrow> lineage env g (b # bs) u st \<Longrightarrow> base_head env g bs = previous b"
  by (auto simp: extends_head_def applies_def dest: lineage_head [symmetric, rotated])

section \<open>Runs over a branch\<close>

text \<open>The objects stand at the chain \<open>bs\<close> over \<open>g\<close>; the blocks of the fork items are \<open>D\<close>.\<close>

definition on_branch :: "('u, 'tx) chain_env \<Rightarrow> 'tx signed_block list \<Rightarrow> 'u \<Rightarrow> 'tx signed_block list \<Rightarrow> ('u, 'tx) chain_db \<Rightarrow> bool" where
  "on_branch env D g bs s \<longleftrightarrow> fork_data s = D \<and> lineage env g bs (undoable s) (undo_stack s)"

lemma on_branch_data: "on_branch env D g bs s \<Longrightarrow> fork_data s = D"
  by (simp add: on_branch_def)

lemma on_branch_fork_db [simp]: "on_branch env D g bs (s\<lparr>fork_db := f\<rparr>) = on_branch env D g bs s"
  by (simp add: on_branch_def)

lemma set_limits_frame [simp]:
  "undoable (set_limits lim s) = undoable s" "undo_stack (set_limits lim s) = undo_stack s" "skip_flags (set_limits lim s) = skip_flags s"
  "fork_data (set_limits lim s) = fork_data s" "block_files (set_limits lim s) = block_files s"
  by (simp_all add: set_limits_def split: option.splits)

lemma apply_in_session_branch:
  assumes "on_branch env D g bs s" "apply_in_session env i b s = (r, s')"
  shows "on_branch env D g (if r = Inr () then b # bs else bs) s'"
proof (cases "ce_apply env (skip_flags s) b (undoable s)")
  case (Pair lim q)
  with assms show ?thesis
    by (auto simp: apply_in_session_def on_branch_def Let_def intro: appliesI lineage_take split: sum.splits prod.splits)
qed

lemma chain_pop_block_branch:
  assumes "on_branch env D g bs s" "chain_pop_block env s = (r, s')"
  shows "on_branch env D g (if r = Inr () then tl bs else bs) s'"
proof (cases "r = Inr ()")
  case True
  with chain_pop_block_run(2,3) [OF assms(2)] assms(1) show ?thesis by (cases bs) (auto simp: on_branch_def)
next
  case False
  with chain_pop_block_run(2,4) [OF assms(2)] assms(1) show ?thesis by (simp add: on_branch_def)
qed

lemma pop_until_branch:
  assumes law: "extends_head env"
  shows "on_branch env D g (bs @ rest) s \<Longrightarrow> base_head env g rest = t \<Longrightarrow> t \<notin> block_id ` set bs \<Longrightarrow> pop_until env t s = (r, s') \<Longrightarrow>
    \<exists>k. on_branch env D g (drop k bs @ rest) s' \<and> (r = Inr () \<longrightarrow> drop k bs = [])"
proof (induction bs arbitrary: s)
  case Nil
  then have "ce_head env (undoable s) = t" using lineage_head [OF law, of g rest "undoable s" "undo_stack s"] by (simp add: on_branch_def)
  with Nil show ?case by (subst (asm) pop_until.simps) auto
next
  case (Cons b bs)
  have "ce_head env (undoable s) = block_id b"
    using Cons.prems(1) lineage_head [OF law, of g "b # bs @ rest" "undoable s" "undo_stack s"] by (simp add: on_branch_def base_head_def)
  then have ne: "ce_head env (undoable s) \<noteq> t" using Cons.prems(3) by auto
  obtain q s1 where q: "chain_pop_block env s = (q, s1)" by (cases "chain_pop_block env s")
  note br = chain_pop_block_branch [OF Cons.prems(1) q]
  show ?case
  proof (cases q)
    case (Inl e)
    then have "r = Inl e" "s' = s1" using Cons.prems(4) ne q by (simp_all add: pop_until.simps [of env t s])
    then show ?thesis using br Inl by (intro exI [of _ 0]) simp
  next
    case (Inr x)
    then have "pop_until env t s1 = (r, s')" using Cons.prems(4) ne q by (simp add: pop_until.simps [of env t s])
    from Cons.IH [OF _ Cons.prems(2) _ this] br Inr Cons.prems(3) obtain k where
      "on_branch env D g (drop k bs @ rest) s' \<and> (r = Inr () \<longrightarrow> drop k bs = [])" by auto
    then show ?thesis by (intro exI [of _ "Suc k"]) simp
  qed
qed

lemma reapply_branch:
  assumes "on_branch env D g bs s" "forS (\<lambda>q s. apply_in_session env i (fork_data s ! q) s) qs s = (r, s')"
  shows "\<exists>k. on_branch env D g (rev (map ((!) D) (take k qs)) @ bs) s' \<and> (r = Inr () \<longrightarrow> k = length qs)"
  using assms
proof (induction qs arbitrary: bs s)
  case Nil
  then show ?case by (auto simp: retS_def)
next
  case (Cons q qs)
  obtain a s1 where a: "apply_in_session env i (fork_data s ! q) s = (a, s1)" by (cases "apply_in_session env i (fork_data s ! q) s")
  note D = on_branch_data [OF Cons.prems(1)]
  note br = apply_in_session_branch [OF Cons.prems(1) a]
  show ?case
  proof (cases a)
    case (Inl e)
    then have "r = Inl e" "s' = s1" using Cons.prems(2) a by (simp_all add: bindS_def)
    then show ?thesis using br Inl by (intro exI [of _ 0]) simp
  next
    case (Inr x)
    then have "forS (\<lambda>q s. apply_in_session env i (fork_data s ! q) s) qs s1 = (r, s')" using Cons.prems(2) a by (simp add: bindS_def)
    from Cons.IH [OF _ this, of "D ! q # bs"] br Inr D obtain k where
      "on_branch env D g (rev (map ((!) D) (take k qs)) @ D ! q # bs) s'" "r = Inr () \<longrightarrow> k = length qs" by auto
    then show ?thesis by (intro exI [of _ "Suc k"]) simp
  qed
qed

text \<open>\<open>zs\<close> is an older part of \<open>bs\<close>.\<close>

definition older :: "'a list \<Rightarrow> 'a list \<Rightarrow> bool" where
  "older zs bs \<longleftrightarrow> (\<exists>k. zs = drop k bs)"

lemma older_rev_take: "older (rev (take k (rev xs))) xs"
  unfolding older_def by (metis rev_rev_ident rev_take)

lemma older_refl [simp]: "older xs xs"
  unfolding older_def by (metis drop0)

lemma older_trans: "older xs ys \<Longrightarrow> older ys zs \<Longrightarrow> older xs zs"
  unfolding older_def by (metis drop_drop)

lemma older_set: "older xs ys \<Longrightarrow> set xs \<subseteq> set ys"
  unfolding older_def by (auto dest: in_set_dropD)

lemma restore_fork_branch:
  assumes law: "extends_head env"
    and s: "on_branch env D g (bs @ rest) s" "base_head env g rest = previous (D ! last ys)" "previous (D ! last ys) \<notin> block_id ` set bs"
    and r: "restore_fork env i bad ys s = (r, s')"
  shows "\<exists>zs. on_branch env D g (zs @ rest) s' \<and> (older zs bs \<or> older zs (map ((!) D) ys)) \<and> (r = Inr () \<longrightarrow> zs = map ((!) D) ys)"
proof -
  let ?f = "set_fork_head (Some (hd ys)) (fold (\<lambda>p f. fork_remove (block_id (fork_data s ! p)) f) bad (fork_db s))"
  note D = on_branch_data [OF s(1)]
  obtain p s1 where p: "pop_until env (previous (D ! last ys)) (s\<lparr>fork_db := ?f\<rparr>) = (p, s1)" by fastforce
  from pop_until_branch [OF law _ s(2,3) p] s(1) obtain k where
    k: "on_branch env D g (drop k bs @ rest) s1" "p = Inr () \<longrightarrow> drop k bs = []" by auto
  show ?thesis
  proof (cases p)
    case (Inl e)
    then have "r = Inl e" "s' = s1" using r p D by (simp_all add: restore_fork_def bindS_def)
    then show ?thesis using k(1) unfolding older_def by blast
  next
    case (Inr x)
    then have "reapply_fork env i ys s1 = (r, s')" using r p D by (simp add: restore_fork_def bindS_def)
    from reapply_branch [OF _ this [unfolded reapply_fork_def], of D g rest] k Inr obtain m where
      m: "on_branch env D g (rev (map ((!) D) (take m (rev ys))) @ rest) s'" "r = Inr () \<longrightarrow> m = length ys" by auto
    have "rev (map ((!) D) (take m (rev ys))) = rev (take m (rev (map ((!) D) ys)))" by (simp add: take_map rev_map)
    with m older_rev_take [of m "map ((!) D) ys"] show ?thesis by (intro exI [of _ "rev (map ((!) D) (take m (rev ys)))"]) auto
  qed
qed

lemma push_fork_branch:
  assumes law: "extends_head env" and u0: "base_head env g rest = previous (D ! last ys)"
  shows "on_branch env D g (map ((!) D) (rev dn) @ rest) s \<Longrightarrow> previous (D ! last ys) \<notin> block_id ` set (map ((!) D) (rev (dn @ ps))) \<Longrightarrow>
    push_fork env i ys ps s = (r, s') \<Longrightarrow>
    \<exists>zs. on_branch env D g (zs @ rest) s' \<and> (older zs (map ((!) D) (rev (dn @ ps))) \<or> older zs (map ((!) D) ys)) \<and>
      (r = Inr () \<longrightarrow> zs = map ((!) D) (rev (dn @ ps)))"
proof (induction ps arbitrary: dn s)
  case Nil
  then show ?case by (auto simp: retS_def)
next
  case (Cons p ps)
  note D = on_branch_data [OF Cons.prems(1)]
  obtain a s1 where a: "apply_in_session env (fi_id (item (fork_db s) p)) (D ! p) s = (a, s1)" by fastforce
  note br = apply_in_session_branch [OF Cons.prems(1) a]
  show ?case
  proof (cases a)
    case (Inr x)
    then have "push_fork env i ys ps s1 = (r, s')" using Cons.prems(3) a D by simp
    from Cons.IH [OF _ _ this, of "dn @ [p]"] br Inr Cons.prems(2) show ?thesis by simp
  next
    case (Inl e)
    have ol: "older (map ((!) D) (rev dn)) (map ((!) D) (rev (dn @ p # ps)))"
      unfolding older_def by (intro exI [of _ "Suc (length ps)"]) simp
    show ?thesis
    proof (cases "fc_exception e")
      case False
      then have "r = Inl e" "s' = s1" using Cons.prems(3) a D Inl by simp_all
      then show ?thesis using br Inl ol by auto
    next
      case True
      obtain q s2 where q: "restore_fork env i (p # ps) ys s1 = (q, s2)" by fastforce
      have ids: "previous (D ! last ys) \<notin> block_id ` set (map ((!) D) (rev dn))" using Cons.prems(2) by auto
      from restore_fork_branch [OF law _ u0 ids q] br Inl obtain zs where
        "on_branch env D g (zs @ rest) s2" "older zs (map ((!) D) (rev dn)) \<or> older zs (map ((!) D) ys)" by auto
      moreover have "s' = s2" "r \<noteq> Inr ()" using Cons.prems(3) a D Inl True q
        by (auto simp: bindS_def throwS_def split: sum.splits)
      ultimately show ?thesis using older_trans [OF _ ol] by blast
    qed
  qed
qed

lemma switch_fork_branch:
  assumes law: "extends_head env"
    and s: "on_branch env D g (map ((!) D) ys @ rest) s" "base_head env g rest = previous (D ! last ys)"
      "previous (D ! last ys) \<notin> block_id ` set (map ((!) D) (xs @ ys))"
    and r: "switch_fork env i xs ys s = (r, s')"
  shows "\<exists>zs. on_branch env D g (zs @ rest) s' \<and> (older zs (map ((!) D) xs) \<or> older zs (map ((!) D) ys)) \<and>
    (r = Inr () \<longrightarrow> zs = map ((!) D) xs)"
proof -
  note D = on_branch_data [OF s(1)]
  have ids: "previous (D ! last ys) \<notin> block_id ` set (map ((!) D) ys)" "previous (D ! last ys) \<notin> block_id ` set (map ((!) D) xs)"
    using s(3) by auto
  obtain p s1 where p: "pop_until env (previous (D ! last ys)) s = (p, s1)" by fastforce
  from pop_until_branch [OF law s(1,2) ids(1) p] obtain k where
    k: "on_branch env D g (drop k (map ((!) D) ys) @ rest) s1" "p = Inr () \<longrightarrow> drop k (map ((!) D) ys) = []" by auto
  show ?thesis
  proof (cases p)
    case (Inl e)
    then have "r = Inl e" "s' = s1" using r p D by (simp_all add: switch_fork_def bindS_def)
    then show ?thesis using k(1) unfolding older_def by blast
  next
    case (Inr x)
    then have "push_fork env i ys (rev xs) s1 = (r, s')" using r p D by (simp add: switch_fork_def bindS_def)
    from push_fork_branch [OF law s(2) _ _ this, of "[]"] k Inr ids(2) show ?thesis by simp
  qed
qed

end
