(* ===== verification/Push_Properties.thy ===== *)
theory Push_Properties
  imports Chain_History
begin

text \<open>The properties of pushes and pops: the fork database stays well formed and its items stay next to their blocks, and a run of pushes
  and pops keeps the objects at one chain of blocks.\<close>

section \<open>Items and their blocks\<close>

definition fork_aligned :: "fork_database \<Rightarrow> 'tx signed_block list \<Rightarrow> bool" where
  "fork_aligned f D \<longleftrightarrow> length D = length (fork_heap f) \<and>
     (\<forall>p < length D. fi_id (fork_heap f ! p) = block_id (D ! p) \<and> fi_previous (fork_heap f ! p) = previous (D ! p))"

lemma relink_fields:
  "fi_id (h[p := (h ! p)\<lparr>fi_prev := q\<rparr>] ! k) = fi_id (h ! k) \<and> fi_previous (h[p := (h ! p)\<lparr>fi_prev := q\<rparr>] ! k) = fi_previous (h ! k)"
proof (cases "p < length h")
  case True
  show ?thesis by (simp only: nth_list_update [OF True]) simp
next
  case False
  then have "h[p := (h ! p)\<lparr>fi_prev := q\<rparr>] = h" by (intro list_update_beyond) simp
  then show ?thesis by simp
qed

lemma link_item_heap:
  assumes "link_item p db = Inr db'"
  shows "length (fork_heap db') = length (fork_heap db)"
    "fi_id (fork_heap db' ! k) = fi_id (fork_heap db ! k) \<and> fi_previous (fork_heap db' ! k) = fi_previous (fork_heap db ! k)"
  using assms by (auto simp: link_item_def item_def relink_fields split: if_splits option.splits)

lemma push_item_heap:
  assumes "push_item p db = Inr db'"
  shows "length (fork_heap db') = length (fork_heap db)"
    "fi_id (fork_heap db' ! k) = fi_id (fork_heap db ! k) \<and> fi_previous (fork_heap db' ! k) = fi_previous (fork_heap db ! k)"
proof -
  from assms obtain db1 where l: "link_item p db = Inr db1" and "fork_heap db' = fork_heap db1"
    by (auto simp: push_item_def Let_def split: if_splits option.splits)
  with link_item_heap [OF l] show "length (fork_heap db') = length (fork_heap db)"
    "fi_id (fork_heap db' ! k) = fi_id (fork_heap db ! k) \<and> fi_previous (fork_heap db' ! k) = fi_previous (fork_heap db ! k)" by simp_all
qed

lemma push_block_aligned:
  assumes "fork_aligned f D" "push_block b f = Inr (f', nh)"
  shows "fork_aligned f' (D @ [b])"
proof -
  from assms(2) have p: "push_item (length (fork_heap f)) (new_item b f) = Inr f'" by (auto simp: push_block_def)
  have "fork_aligned (new_item b f) (D @ [b])" using assms(1)
    by (auto simp: fork_aligned_def new_item_def nth_append fork_item_of_def less_Suc_eq)
  then show ?thesis using push_item_heap [OF p] by (simp add: fork_aligned_def)
qed

section \<open>Well-formed chain databases\<close>

definition chain_wf :: "'tx signed_block list \<Rightarrow> ('u, 'tx) chain_db \<Rightarrow> bool" where
  "chain_wf D s \<longleftrightarrow> fork_data s = D \<and> fork_wf (fork_db s) \<and> fork_aligned (fork_db s) D"

text \<open>\<open>items_kept f f'\<close>: a change of the fork database that leaves the items in place.\<close>

definition items_kept :: "fork_database \<Rightarrow> fork_database \<Rightarrow> bool" where
  "items_kept f f' \<longleftrightarrow> (fork_wf f \<longrightarrow> fork_wf f') \<and> fork_heap f' = fork_heap f"

lemma chain_wf_kept: "chain_wf D s \<Longrightarrow> items_kept (fork_db s) (fork_db s') \<Longrightarrow> fork_data s' = fork_data s \<Longrightarrow> chain_wf D s'"
  by (simp add: chain_wf_def items_kept_def fork_aligned_def)

lemma items_kept_refl [simp]: "items_kept f f"
  by (simp add: items_kept_def)

lemma items_kept_trans: "items_kept f f' \<Longrightarrow> items_kept f' f'' \<Longrightarrow> items_kept f f''"
  by (simp add: items_kept_def)

lemma items_kept_limit [simp]: "items_kept f (set_max_size n f)"
  using fork_step_wf [OF fork_step.Resize] by (auto simp: items_kept_def set_max_size_def Let_def split: option.splits)

lemma items_kept_remove [simp]: "items_kept f (fork_remove i f)"
  using fork_step_wf [OF fork_step.Remove] by (auto simp: items_kept_def fork_remove_def)

lemma items_kept_pop: "pop_block f = Inr f' \<Longrightarrow> items_kept f f'"
  using fork_step_wf [OF fork_step.Pop] by (auto simp: items_kept_def pop_block_def split: option.splits)

lemma items_kept_pinned [simp]: "items_kept f (f\<lparr>fork_pinned := ps\<rparr>)"
  using fork_step_wf [OF fork_step.Pin] by (auto simp: items_kept_def)

lemma items_kept_removes: "items_kept f (fold (\<lambda>p. fork_remove (i p)) ps f)"
proof (induction ps arbitrary: f)
  case (Cons p ps)
  show ?case using items_kept_trans [OF items_kept_remove Cons.IH] by simp
qed simp

lemma items_kept_head: "p < length (fork_heap f) \<Longrightarrow> items_kept f (set_fork_head (Some p) f)"
  using fork_step_wf [OF fork_step.Head] by (auto simp: items_kept_def set_fork_head_def)

lemma chain_wf_fields [simp]:
  "chain_wf D (s\<lparr>undo_stack := st\<rparr>) = chain_wf D s" "chain_wf D (s\<lparr>undoable := u\<rparr>) = chain_wf D s"
  "chain_wf D (s\<lparr>block_files := bf\<rparr>) = chain_wf D s" "chain_wf D (s\<lparr>popped_tx := tx\<rparr>) = chain_wf D s"
  "chain_wf D (s\<lparr>skip_flags := sk\<rparr>) = chain_wf D s"
  by (simp_all add: chain_wf_def)

lemma chain_wf_fork: "chain_wf D s \<Longrightarrow> items_kept (fork_db s) f \<Longrightarrow> chain_wf D (s\<lparr>fork_db := f\<rparr>)"
  by (erule chain_wf_kept) simp_all

lemma chain_wf_limits: "chain_wf D s \<Longrightarrow> chain_wf D (set_limits lim s)"
  by (erule chain_wf_kept) (simp_all add: set_limits_def split: option.splits)

lemma keepsI: "(\<And>s r s'. I s \<Longrightarrow> m s = (r, s') \<Longrightarrow> I s') \<Longrightarrow> keeps I m (\<lambda>_. True)"
  unfolding keeps_def by (metis prod.collapse)

lemma keepsD: "keeps I m Q \<Longrightarrow> I s \<Longrightarrow> m s = (r, s') \<Longrightarrow> I s'"
  unfolding keeps_def by (metis snd_conv)

lemma keeps_apply_in_session: "keeps (chain_wf D) (apply_in_session env i b) (\<lambda>_. True)"
  by (rule keepsI) (auto simp: apply_in_session_def Let_def intro!: chain_wf_limits split: prod.splits sum.splits)

lemma keeps_chain_pop_block: "keeps (chain_wf D) (chain_pop_block env) (\<lambda>_. True)"
proof (rule keepsI)
  fix s r s' assume s: "chain_wf D s" and r: "chain_pop_block env s = (r, s')"
  obtain q s1 where q: "fetch_block_by_id env (ce_head env (undoable s)) s = (q, s1)" by fastforce
  have s1: "chain_wf D s1" using s fetch_block_by_id_frame [OF q] by (simp add: chain_wf_def)
  have "chain_wf D (s1\<lparr>fork_db := f\<rparr>)" if "pop_block (fork_db s1) = Inr f" for f
    by (rule chain_wf_fork [OF s1 items_kept_pop [OF that]])
  with s1 q r show "chain_wf D s'"
    by (auto simp: chain_pop_block_def bindS_def throwS_def split: sum.splits option.splits list.splits)
qed

lemma keeps_pop_until: "keeps (chain_wf D) (pop_until env t) (\<lambda>_. True)"
proof (rule keepsI)
  fix s r s' assume "chain_wf D s" "pop_until env t s = (r, s')"
  then show "chain_wf D s'"
  proof (induction env t s rule: pop_until.induct)
    case (1 env t s)
    obtain q s1 where q: "chain_pop_block env s = (q, s1)" by fastforce
    note s1 = keepsD [OF keeps_chain_pop_block 1(2) q]
    show ?case using 1 q s1 by (cases q) (auto simp: pop_until.simps [of env t s] split: if_splits)
  qed
qed

lemma keeps_reapply: "keeps (chain_wf D) (forS (\<lambda>q s. apply_in_session env i (fork_data s ! q) s) qs) (\<lambda>_. True)"
proof (rule keeps_weaken [OF keeps_for [where P = "\<lambda>_. True"]])
  fix q show "keeps (chain_wf D) (\<lambda>s. apply_in_session env i (fork_data s ! q) s) (\<lambda>_. True)"
    by (rule keepsI) (rule keepsD [OF keeps_apply_in_session])
qed simp

lemma keeps_restore_fork: "hd ys < length D \<Longrightarrow> keeps (chain_wf D) (restore_fork env i bad ys) (\<lambda>_. True)"
  unfolding restore_fork_def reapply_fork_def
proof (intro keeps_bind [where Q = "\<lambda>_. True"] keeps_reapply)
  assume h: "hd ys < length D"
  show "keeps (chain_wf D) (\<lambda>s. (Inr (), s\<lparr>fork_db := set_fork_head (Some (hd ys)) (fold (\<lambda>p. fork_remove (block_id (fork_data s ! p))) bad (fork_db s))\<rparr>))
    (\<lambda>_. True)"
  proof (rule keepsI)
    fix s r s' assume s: "chain_wf D s" and "(Inr (), s\<lparr>fork_db := set_fork_head (Some (hd ys)) (fold (\<lambda>p. fork_remove (block_id (fork_data s ! p))) bad (fork_db s))\<rparr>) = (r, s')"
    moreover have "items_kept (fork_db s) (set_fork_head (Some (hd ys)) (fold (\<lambda>p. fork_remove (block_id (fork_data s ! p))) bad (fork_db s)))"
    proof (rule items_kept_trans [OF items_kept_removes items_kept_head])
      show "hd ys < length (fork_heap (fold (\<lambda>p. fork_remove (block_id (fork_data s ! p))) bad (fork_db s)))"
        using items_kept_removes [of "fork_db s" "\<lambda>p. block_id (fork_data s ! p)" bad] h s
        by (simp add: chain_wf_def fork_aligned_def items_kept_def)
    qed
    ultimately show "chain_wf D s'" using chain_wf_fork by blast
  qed
  show "keeps (chain_wf D) (\<lambda>s. pop_until env (previous (fork_data s ! last ys)) s) (\<lambda>_. True)"
    by (rule keepsI) (rule keepsD [OF keeps_pop_until])
qed

lemma keeps_push_fork: "hd ys < length D \<Longrightarrow> keeps (chain_wf D) (push_fork env i ys ps) (\<lambda>_. True)"
proof (induction ps)
  case (Cons p ps)
  show ?case
  proof (rule keepsI)
    fix s r s' assume s: "chain_wf D s" and r: "push_fork env i ys (p # ps) s = (r, s')"
    obtain a s1 where a: "apply_in_session env (fi_id (item (fork_db s) p)) (fork_data s ! p) s = (a, s1)" by fastforce
    note s1 = keepsD [OF keeps_apply_in_session s a]
    have k: "keeps (chain_wf D) (bindS (restore_fork env i (p # ps) ys) (\<lambda>_. throwS e)) (\<lambda>_. True)" for e
      by (rule keeps_bind [OF keeps_restore_fork [OF Cons.prems]]) (simp add: keeps_throw)
    from r a s1 keepsD [OF Cons.IH [OF Cons.prems] s1] keepsD [OF k s1] show "chain_wf D s'"
      by (cases a) (auto split: if_splits)
  qed
qed (simp add: keeps_ret)

lemma keeps_switch_fork: "hd ys < length D \<Longrightarrow> keeps (chain_wf D) (switch_fork env i xs ys) (\<lambda>_. True)"
  unfolding switch_fork_def
  by (rule keeps_bind [OF keepsI keeps_push_fork]) (rule keepsD [OF keeps_pop_until], assumption+)

lemma keeps_with_pinned:
  assumes "keeps (chain_wf D) m (\<lambda>_. True)"
  shows "keeps (chain_wf D) (with_pinned ps m) (\<lambda>_. True)"
proof (rule keepsI)
  fix s r s' assume s: "chain_wf D s" and r: "with_pinned ps m s = (r, s')"
  obtain q t where q: "m (s\<lparr>fork_db := (fork_db s)\<lparr>fork_pinned := ps @ fork_pinned (fork_db s)\<rparr>\<rparr>) = (q, t)" by fastforce
  have "chain_wf D t" by (rule keepsD [OF assms chain_wf_fork [OF s items_kept_pinned] q])
  from chain_wf_fork [OF this items_kept_pinned] show "chain_wf D s'" using r q by (auto simp: with_pinned_def)
qed

lemma keeps_push_on_head: "keeps (chain_wf D) (push_on_head env b) (\<lambda>_. True)"
proof (rule keepsI)
  fix s r s' assume s: "chain_wf D s" and r: "push_on_head env b s = (r, s')"
  obtain q t where q: "apply_in_session env (block_id b) b s = (q, t)" by fastforce
  note t = keepsD [OF keeps_apply_in_session s q]
  show "chain_wf D s'" using r q t chain_wf_fork [OF t items_kept_remove [of _ "block_id b"]]
    by (cases q) (auto simp: push_on_head_def split: if_splits)
qed

lemma keeps_switch:
  assumes "fork_wf f" "fork_aligned f D" "fetch_branch_from f a c = Some (Inr (xs, ys))"
  shows "keeps (chain_wf D) (with_pinned ps (bindS (switch_fork env i xs ys) (\<lambda>_. retS True))) (\<lambda>_. True)"
proof -
  have h: "hd ys < length D" using fetch_branch_ok [OF assms(1), of a c] assms(2,3) by (auto simp: branches_def fork_aligned_def)
  show ?thesis by (intro keeps_with_pinned keeps_bind [OF keeps_switch_fork [OF h]] keeps_ret) simp
qed

lemma chain_push_block_wf:
  assumes wf: "chain_wf D s" and r: "chain_push_block env b s = Some (r, s')"
  shows "chain_wf D s' \<or> chain_wf (D @ [b]) s'"
proof -
  have D: "fork_data s = D" using wf by (simp add: chain_wf_def)
  note head = keepsD [OF keeps_push_on_head]
  show ?thesis
  proof (cases "\<exists>f nh. push_block b (fork_db s) = Inr (f, Some nh)")
    case False
    then show ?thesis using r wf head [OF wf]
      by (auto simp: chain_push_block_def split: if_splits sum.splits option.splits)
  next
    case True
    then obtain f nh where f: "push_block b (fork_db s) = Inr (f, Some nh)" by blast
    let ?s = "s\<lparr>fork_db := f, fork_data := D @ [b]\<rparr>"
    have w: "fork_wf f" "fork_aligned f (D @ [b])"
      using wf push_block_cases(1) [OF _ f] push_block_aligned [OF _ f] by (auto simp: chain_wf_def)
    then have wf': "chain_wf (D @ [b]) ?s" by (simp add: chain_wf_def)
    show ?thesis using r f D wf wf' head [OF wf] head [OF wf'] keepsD [OF keeps_switch [OF w] wf']
      by (auto simp: chain_push_block_def Let_def split: if_splits sum.splits option.splits)
  qed
qed
section \<open>Branches of the fork database and the history\<close>

text \<open>The blocks that are ever pushed: different blocks have different ids, the id of a block carries a greater number than that of the block
  before (\<open>make_id\<close>), and no block has the id of the genesis state.\<close>

definition sound_pool :: "('u, 'tx) chain_env \<Rightarrow> 'u \<Rightarrow> 'tx signed_block set \<Rightarrow> bool" where
  "sound_pool env g pool \<longleftrightarrow> inj_on block_id pool \<and> ce_head env g \<notin> block_id ` pool \<and>
     (\<forall>b \<in> pool. num_from_id (previous b) < num_from_id (block_id b))"

lemma sound_poolD: "sound_pool env g pool \<Longrightarrow> b \<in> pool \<Longrightarrow> num_from_id (previous b) < num_from_id (block_id b)"
  by (simp add: sound_pool_def)

lemma history_top:
  assumes "sound_pool env g pool" "b \<in> pool" "set bs \<subseteq> pool" "block_id b = base_head env g bs"
  shows "\<exists>cs. bs = b # cs"
proof (cases bs)
  case Nil
  then show ?thesis using assms(1,2,4) by (auto simp: base_head_def sound_pool_def image_iff)
next
  case (Cons c cs)
  then have "c = b" using assms by (auto simp: base_head_def sound_pool_def dest: inj_onD)
  then show ?thesis using Cons by simp
qed

lemma chain_link: "chain f (p # q # ps) \<Longrightarrow> lock_prev f p = Some q \<and> chain f (q # ps)"
  by (simp add: chain_def)

lemma chain_item:
  assumes "fork_wf f" "fork_aligned f D" "chain f (p # q # ps)" "p < length D"
  shows "q < length D" "block_id (D ! q) = previous (D ! p)" "chain f (q # ps)"
proof -
  have l: "lock_prev f p = Some q" "chain f (q # ps)" using chain_link [OF assms(3)] by simp_all
  have "p < length (fork_heap f)" using assms(2,4) by (simp add: fork_aligned_def)
  from lock_prev_valid [OF assms(1) this l(1)] assms(2,4) l(2)
  show "q < length D" "block_id (D ! q) = previous (D ! p)" "chain f (q # ps)" by (auto simp: fork_aligned_def item_def)
qed

lemma chain_blocks:
  assumes "fork_wf f" "fork_aligned f D" "set D \<subseteq> pool" "sound_pool env g pool"
  shows "chain f (p # ps) \<Longrightarrow> p < length D \<Longrightarrow> set (p # ps) \<subseteq> {..<length D} \<and>
    (\<forall>q \<in> set (p # ps). num_from_id (previous (D ! last (p # ps))) < num_from_id (block_id (D ! q)))"
proof (induction ps arbitrary: p)
  case Nil
  have "D ! p \<in> pool" using assms(3) nth_mem [OF Nil(2)] by blast
  from sound_poolD [OF assms(4) this] Nil show ?case by simp
next
  case (Cons q ps)
  note l = chain_item [OF assms(1,2) Cons.prems]
  have "num_from_id (previous (D ! p)) < num_from_id (block_id (D ! p))"
    using sound_poolD [OF assms(4)] assms(3) nth_mem [OF Cons.prems(2)] by blast
  with Cons.IH [OF l(3,1)] l(2) Cons.prems(2) show ?case by (auto intro: less_trans)
qed

lemma chain_history:
  assumes wf: "fork_wf f" "fork_aligned f D" and pool: "set D \<subseteq> pool" "sound_pool env g pool" and law: "extends_head env"
  shows "chain f (p # ps) \<Longrightarrow> p < length D \<Longrightarrow> lineage env g bs u st \<Longrightarrow> set bs \<subseteq> pool \<Longrightarrow> block_id (D ! p) = base_head env g bs \<Longrightarrow>
    \<exists>rest. bs = map ((!) D) (p # ps) @ rest \<and> base_head env g rest = previous (D ! last (p # ps))"
proof (induction ps arbitrary: p bs u st)
  case (Nil p bs u st)
  then obtain cs where b: "bs = D ! p # cs" using history_top [OF pool(2) _ Nil.prems(4,5)] pool(1) nth_mem [of p D] by blast
  with lineage_previous [OF law] Nil.prems(3) show ?case by simp
next
  case (Cons q ps)
  note l = chain_item [OF wf Cons.prems(1,2)]
  from Cons.prems obtain cs where b: "bs = D ! p # cs" using history_top [OF pool(2) _ Cons.prems(4,5)] pool(1) nth_mem [of p D] by blast
  obtain v where v: "lineage env g cs v (tl st)" using Cons.prems(3) b by auto
  have "block_id (D ! q) = base_head env g cs" using lineage_previous [OF law] Cons.prems(3) b l(2) by simp
  from Cons.IH [OF l(3,1) v _ this] Cons.prems(4) b show ?case by auto
qed

lemma branches_history:
  assumes wf: "fork_wf f" "fork_aligned f D" and pool: "set D \<subseteq> pool" "sound_pool env g pool" and law: "extends_head env"
    and br: "branches f a (ce_head env u) xs ys" and l: "lineage env g hist u st" "set hist \<subseteq> pool"
  shows "\<exists>rest. hist = map ((!) D) ys @ rest \<and> base_head env g rest = previous (D ! last ys)"
    "previous (D ! last ys) \<notin> block_id ` set (map ((!) D) (xs @ ys))" "set xs \<subseteq> {..<length D}" "hd ys < length D" "xs \<noteq> []"
    "block_id (D ! hd xs) = a"
proof -
  from br obtain x xs' y ys' where x: "xs = x # xs'" "ys = y # ys'" by (auto simp: branches_def chain_def neq_Nil_conv)
  have c: "chain f (x # xs')" "chain f (y # ys')" "x < length D" "y < length D" "fi_id (item f y) = ce_head env u" "fi_id (item f x) = a"
    "fi_previous (item f (last xs)) = fi_previous (item f (last ys))"
    using br x wf(2) by (auto simp: branches_def fork_aligned_def)
  note bx = chain_blocks [OF wf pool c(1,3)] and yb = chain_blocks [OF wf pool c(2,4)]
  have "block_id (D ! y) = base_head env g hist" using c(4,5) lineage_head [OF law l(1)] wf(2) by (simp add: fork_aligned_def item_def)
  from chain_history [OF wf pool law c(2,4) l this] x(2)
  show "\<exists>rest. hist = map ((!) D) ys @ rest \<and> base_head env g rest = previous (D ! last ys)" by simp
  have "last xs < length D" "last ys < length D" using bx yb x last_in_set [of xs] last_in_set [of ys] by auto
  then have "previous (D ! last xs) = previous (D ! last ys)" using c(7) wf(2) by (simp add: fork_aligned_def item_def)
  with bx yb x show "previous (D ! last ys) \<notin> block_id ` set (map ((!) D) (xs @ ys))" by fastforce
  show "set xs \<subseteq> {..<length D}" "hd ys < length D" "xs \<noteq> []" using bx x c(4) by simp_all
  show "block_id (D ! hd xs) = a" using c(3,6) x(1) wf(2) by (simp add: fork_aligned_def item_def)
qed

section \<open>Runs of pushes and pops\<close>

definition chain_inv :: "('u, 'tx) chain_env \<Rightarrow> 'u \<Rightarrow> 'tx signed_block set \<Rightarrow> 'tx signed_block list \<Rightarrow> ('u, 'tx) chain_db \<Rightarrow> bool" where
  "chain_inv env g pool hist s \<longleftrightarrow> chain_wf (fork_data s) s \<and> set (fork_data s) \<subseteq> pool \<and> set hist \<subseteq> pool \<and>
     lineage env g hist (undoable s) (undo_stack s)"

text \<open>\<open>fork_switch env b s xs ys\<close>: pushing \<open>b\<close> replaces the blocks \<open>ys\<close> of the current branch by the blocks \<open>xs\<close> (newest first).\<close>

definition fork_switch :: "('u, 'tx) chain_env \<Rightarrow> 'tx signed_block \<Rightarrow> ('u, 'tx) chain_db \<Rightarrow> 'tx signed_block list \<Rightarrow> 'tx signed_block list \<Rightarrow> bool" where
  "fork_switch env b s xs ys \<longleftrightarrow> (\<exists>f nh ps qs. let D = fork_data s @ [b] in
     push_block b (fork_db s) = Inr (f, Some nh) \<and> previous (D ! nh) \<noteq> ce_head env (undoable s) \<and>
     block_num (D ! nh) > ce_num env (undoable s) \<and>
     fetch_branch_from f (block_id (D ! nh)) (ce_head env (undoable s)) = Some (Inr (ps, qs)) \<and>
     xs = map ((!) D) ps \<and> ys = map ((!) D) qs \<and> xs \<noteq> [] \<and> block_id (hd xs) = block_id (D ! nh))"

fun push_outcome :: "('u, 'tx) chain_env \<Rightarrow> 'tx signed_block \<Rightarrow> ('u, 'tx) chain_db \<Rightarrow> 'tx signed_block list \<Rightarrow> bool result \<Rightarrow>
    'tx signed_block list \<Rightarrow> bool" where
  "push_outcome env b s hist (Inr False) hist' \<longleftrightarrow> hist' = hist \<or> hist' = b # hist"
| "push_outcome env b s hist (Inr True) hist' \<longleftrightarrow> (\<exists>xs ys rest. fork_switch env b s xs ys \<and> hist = ys @ rest \<and> hist' = xs @ rest)"
| "push_outcome env b s hist (Inl e) hist' \<longleftrightarrow> hist' = hist \<or>
     (\<exists>xs ys zs rest. fork_switch env b s xs ys \<and> hist = ys @ rest \<and> hist' = zs @ rest \<and> (older zs xs \<or> older zs ys))"

lemma push_outcomeI:
  assumes "fork_switch env b s xs ys" "hist = ys @ rest" "older zs xs \<or> older zs ys" "r \<noteq> Inr False" "r = Inr True \<longrightarrow> zs = xs"
  shows "push_outcome env b s hist r (zs @ rest)"
proof (cases r)
  case (Inl e)
  then show ?thesis using assms(1-3) by auto
next
  case (Inr c)
  then have "c = True" "zs = xs" using assms(4,5) by auto
  then show ?thesis using Inr assms(1,2) by auto
qed

lemma push_on_head_inv:
  assumes "chain_inv env g pool hist s" "b \<in> pool" "push_on_head env b s = (r, s')"
  shows "\<exists>hist'. chain_inv env g pool hist' s' \<and> fork_data s' = fork_data s \<and> push_outcome env b t hist r hist'"
proof -
  obtain a s1 where a: "apply_in_session env (block_id b) b s = (a, s1)" by fastforce
  have "on_branch env (fork_data s) g hist s" using assms(1) by (simp add: chain_inv_def on_branch_def)
  note br = apply_in_session_branch [OF this a]
  have w: "chain_wf (fork_data s) s1" using keepsD [OF keeps_apply_in_session _ a] assms(1) by (simp add: chain_inv_def)
  note w' = chain_wf_fork [OF w items_kept_remove [of _ "block_id b"]]
  show ?thesis
  proof (cases a)
    case (Inr x)
    then have "r = Inr False" "s' = s1" using assms(3) a by (simp_all add: push_on_head_def)
    then show ?thesis using br Inr w assms(1,2)
      by (intro exI [of _ "b # hist"]) (auto simp: chain_inv_def on_branch_def)
  next
    case (Inl e)
    then have "r = Inl e" "chain_wf (fork_data s) s'" "undoable s' = undoable s1" "undo_stack s' = undo_stack s1" "fork_data s' = fork_data s1"
      using assms(3) a w w' by (auto simp: push_on_head_def split: if_splits)
    then show ?thesis using br Inl assms(1,2) by (intro exI [of _ hist]) (auto simp: chain_inv_def on_branch_def)
  qed
qed


lemma switch_inv:
  assumes law: "extends_head env" and wf: "fork_wf f" "fork_aligned f D" and pool: "set D \<subseteq> pool" "sound_pool env g pool"
    and l: "lineage env g hist (undoable s) (undo_stack s)" "set hist \<subseteq> pool"
    and br: "branches f a (ce_head env (undoable s)) xs ys"
    and r: "with_pinned ps (bindS (switch_fork env i xs ys) (\<lambda>_. retS True)) (s\<lparr>fork_db := f, fork_data := D\<rparr>) = (r, s')"
  shows "\<exists>rest zs. chain_inv env g pool (zs @ rest) s' \<and> hist = map ((!) D) ys @ rest \<and>
    (older zs (map ((!) D) xs) \<or> older zs (map ((!) D) ys)) \<and> r \<noteq> Inr False \<and> (r = Inr True \<longrightarrow> zs = map ((!) D) xs)"
proof -
  let ?t = "s\<lparr>fork_data := D, fork_db := f\<lparr>fork_pinned := ps @ fork_pinned f\<rparr>\<rparr>"
  note h = branches_history [OF wf pool law br l]
  from h(1) obtain rest where rest: "hist = map ((!) D) ys @ rest" "base_head env g rest = previous (D ! last ys)" by blast
  obtain q t where q: "switch_fork env i xs ys ?t = (q, t)" by fastforce
  have u: "s' = t\<lparr>fork_db := (fork_db t)\<lparr>fork_pinned := fork_pinned f\<rparr>\<rparr>" "r = (case q of Inl e \<Rightarrow> Inl e | Inr _ \<Rightarrow> Inr True)"
    using r q by (auto simp: with_pinned_def bindS_def retS_def split: sum.splits)
  have "chain_wf D (s\<lparr>fork_db := f, fork_data := D\<rparr>)" using wf by (simp add: chain_wf_def)
  from chain_wf_fork [OF this items_kept_pinned] have "chain_wf D ?t" by simp
  from chain_wf_fork [OF keepsD [OF keeps_switch_fork [OF h(4)] this q] items_kept_pinned] have w: "chain_wf D s'" unfolding u(1) .
  have "on_branch env D g (map ((!) D) ys @ rest) ?t" using l(1) rest(1) by (simp add: on_branch_def)
  from switch_fork_branch [OF law this rest(2) h(2) q] obtain zs where
    zs: "on_branch env D g (zs @ rest) t" "older zs (map ((!) D) xs) \<or> older zs (map ((!) D) ys)" "q = Inr () \<longrightarrow> zs = map ((!) D) xs" by blast
  have "set (map ((!) D) xs) \<subseteq> set D" using h(3) by (auto intro: nth_mem)
  then have "set (map ((!) D) xs) \<subseteq> pool" using pool(1) by (rule subset_trans)
  moreover have hp: "set (map ((!) D) ys) \<subseteq> pool" "set rest \<subseteq> pool" using l(2) unfolding rest(1) by simp_all
  ultimately have "set zs \<subseteq> pool" using zs(2) older_set [of zs "map ((!) D) xs"] older_set [of zs "map ((!) D) ys"] by blast
  then have "set (zs @ rest) \<subseteq> pool" using hp(2) by simp
  then have "chain_inv env g pool (zs @ rest) s'" using w zs(1) pool(1) by (simp add: chain_inv_def on_branch_def chain_wf_def u(1))
  moreover have "r \<noteq> Inr False \<and> (r = Inr True \<longrightarrow> zs = map ((!) D) xs)" using u(2) zs(3) by (cases q) auto
  ultimately show ?thesis using rest(1) zs(2) by blast
qed

lemma push_linked_inv:
  assumes law: "extends_head env" and pool: "sound_pool env g pool" "b \<in> pool" and inv: "chain_inv env g pool hist s"
    and c: "block_id b = env_make_id (ce_files env) b" "skip_flags s AND skip_fork_db = 0" and f: "push_block b (fork_db s) = Inr (f, Some nh)"
  shows "\<exists>r s' hist'. chain_push_block env b s = Some (r, s') \<and> chain_inv env g pool hist' s' \<and> push_outcome env b s hist r hist'"
proof -
  define D where "D = fork_data s @ [b]"
  let ?s = "s\<lparr>fork_db := f, fork_data := D\<rparr>" and ?h = "ce_head env (undoable s)"
  have i: "fork_wf (fork_db s)" "fork_aligned (fork_db s) (fork_data s)" "set (fork_data s) \<subseteq> pool" "set hist \<subseteq> pool"
    "lineage env g hist (undoable s) (undo_stack s)" using inv by (simp_all add: chain_inv_def chain_wf_def)
  have wf: "fork_wf f" "fork_aligned f D" "set D \<subseteq> pool"
    using push_block_cases(1) [OF i(1) f] push_block_aligned [OF i(2) f] i(3) pool(2) by (simp_all add: D_def)
  have inv': "chain_inv env g pool hist ?s" using wf i(4,5) by (simp add: chain_inv_def chain_wf_def)
  note run = chain_push_block_def [of env b s, folded D_def]
  consider (onhead) "previous (D ! nh) = ?h" | (behind) "previous (D ! nh) \<noteq> ?h" "\<not> block_num (D ! nh) > ce_num env (undoable s)"
    | (ahead) "previous (D ! nh) \<noteq> ?h" "block_num (D ! nh) > ce_num env (undoable s)" by blast
  then show ?thesis
  proof cases
    case onhead
    obtain r s' where r: "push_on_head env b ?s = (r, s')" by fastforce
    from push_on_head_inv [OF inv' pool(2) r, of s] show ?thesis using run c f onhead r by (auto simp: Let_def D_def [symmetric])
  next
    case behind
    then show ?thesis using run c f inv' by (auto simp: Let_def D_def [symmetric])
  next
    case ahead
    from fetch_branch_ok [OF wf(1)] obtain q where q: "fetch_branch_from f (block_id (D ! nh)) ?h = Some q"
      "case q of Inl e \<Rightarrow> e = Assert_exception | Inr (xs, ys) \<Rightarrow> branches f (block_id (D ! nh)) ?h xs ys" by blast
    show ?thesis
    proof (cases q)
      case (Inl e)
      then show ?thesis using run c f inv' ahead q(1) by (auto simp: Let_def D_def [symmetric])
    next
      case (Inr p)
      obtain xs ys where p: "p = (xs, ys)" by fastforce
      have B: "branches f (block_id (D ! nh)) ?h xs ys" using q(2) Inr p by simp
      obtain r s' where r: "with_pinned (xs @ ys) (bindS (switch_fork env (block_id b) xs ys) (\<lambda>_. retS True)) ?s = (r, s')" by fastforce
      from switch_inv [OF law wf pool(1) i(5,4) B r] obtain rest zs where
        z: "chain_inv env g pool (zs @ rest) s'" "hist = map ((!) D) ys @ rest" "older zs (map ((!) D) xs) \<or> older zs (map ((!) D) ys)"
          "r \<noteq> Inr False" "r = Inr True \<longrightarrow> zs = map ((!) D) xs" by blast
      have "fork_switch env b s (map ((!) D) xs) (map ((!) D) ys)" unfolding fork_switch_def Let_def D_def [symmetric]
        using f ahead q(1) Inr p branches_history(5,6) [OF wf pool(1) law B i(5,4)] by (auto simp: hd_map)
      from push_outcomeI [OF this z(2-5)] have "push_outcome env b s hist r (zs @ rest)" .
      then show ?thesis using z(1) run c f ahead q(1) Inr p r by (auto simp: Let_def D_def [symmetric])
    qed
  qed
qed

lemma chain_push_block_inv:
  assumes law: "extends_head env" and pool: "sound_pool env g pool" "b \<in> pool" and inv: "chain_inv env g pool hist s"
  shows "\<exists>r s' hist'. chain_push_block env b s = Some (r, s') \<and> chain_inv env g pool hist' s' \<and> push_outcome env b s hist r hist'"
proof (cases "block_id b \<noteq> env_make_id (ce_files env) b \<or> skip_flags s AND skip_fork_db \<noteq> 0 \<or>
    (\<forall>f nh. push_block b (fork_db s) \<noteq> Inr (f, Some nh))")
  case True
  obtain r s' where r: "push_on_head env b s = (r, s')" by fastforce
  have "(\<exists>e. chain_push_block env b s = Some (Inl e, s)) \<or> chain_push_block env b s = Some (r, s')"
    using True r by (cases "push_block b (fork_db s)") (auto simp: chain_push_block_def split: option.splits)
  then consider e where "chain_push_block env b s = Some (Inl e, s)" | "chain_push_block env b s = Some (r, s')" by blast
  then show ?thesis
  proof cases
    case 1
    then show ?thesis using inv by auto
  next
    case 2
    then show ?thesis using push_on_head_inv [OF inv pool(2) r, of s] by blast
  qed
next
  case False
  then show ?thesis using push_linked_inv [OF law pool inv] by blast
qed

end
