(* ===== verification/Chain_Runs.thy ===== *)
theory Chain_Runs
  imports Push_Properties
begin

text \<open>Runs of a node: sequences of \<open>_push_block\<close> and \<open>pop_block\<close> from the genesis state, over the application of blocks of \<open>Apply_Block\<close>, and the two
  properties of them: the fork database stays well formed, and the objects stay at one chain of blocks.\<close>

section \<open>Runs of the node\<close>

text \<open>The steps: a pushed block, under any skip flags, and a popped one; \<open>opened\<close> is the database at the genesis state.\<close>

inductive chain_step :: "('u, 'tx) chain_env \<Rightarrow> 'tx signed_block set \<Rightarrow> ('u, 'tx) chain_db \<Rightarrow> ('u, 'tx) chain_db \<Rightarrow> bool"
  for env :: "('u, 'tx) chain_env" and pool :: "'tx signed_block set" where
  Push_step: "b \<in> pool \<Longrightarrow> chain_push_block env b (s\<lparr>skip_flags := sk\<rparr>) = Some (r, s') \<Longrightarrow> chain_step env pool s s'"
| Pop_step: "chain_pop_block env s = (r, s') \<Longrightarrow> chain_step env pool s s'"

inductive_cases chain_stepE: "chain_step env pool s s'"

definition opened :: "'u \<Rightarrow> block_database \<Rightarrow> ('u, 'tx) chain_db" where
  "opened u files = \<lparr>undoable = u, undo_stack = [], undo_limit = 256, fork_db = fork_empty, fork_data = [], block_files = files,
     popped_tx = [], skip_flags = 0\<rparr>"

definition chain_env_of :: "'tx apply_hooks \<Rightarrow> (32 word \<times> block_id_type) list \<Rightarrow> 'tx block_env \<Rightarrow> (node, 'tx) chain_env" where
  "chain_env_of h checkpoints files = \<lparr>ce_apply = apply_block h checkpoints, ce_head = (\<lambda>s. head_block_id (dgp s)),
     ce_num = (\<lambda>s. head_block_number (dgp s)), ce_files = files\<rparr>"

lemma chain_env_extends: "hooks_keep_head h \<Longrightarrow> extends_head (chain_env_of h checkpoints files)"
  by (auto simp: extends_head_def chain_env_of_def dest: apply_block_head)

lemma chain_inv_opened: "chain_inv env g pool [] (opened g files)"
proof -
  have "fork_heap fork_empty = []" by (simp add: fork_empty_def)
  then show ?thesis by (simp add: chain_inv_def opened_def chain_wf_def fork_wf_empty fork_aligned_def)
qed

lemma chain_inv_skip [simp]: "chain_inv env g pool hist (s\<lparr>skip_flags := sk\<rparr>) = chain_inv env g pool hist s"
  by (simp add: chain_inv_def)

lemma chain_pop_block_inv:
  assumes "chain_inv env g pool hist s" "chain_pop_block env s = (r, s')"
  shows "chain_inv env g pool (if r = Inr () then tl hist else hist) s'"
proof -
  have "on_branch env (fork_data s) g hist s" using assms(1) by (simp add: chain_inv_def on_branch_def)
  note br = chain_pop_block_branch [OF this assms(2)]
  moreover have "chain_wf (fork_data s) s'" using keepsD [OF keeps_chain_pop_block _ assms(2)] assms(1) by (simp add: chain_inv_def)
  moreover have "set (tl hist) \<subseteq> set hist" by (cases hist) auto
  ultimately show ?thesis using assms(1) by (auto simp: chain_inv_def on_branch_def)
qed

lemma chain_step_inv:
  assumes "extends_head env" "sound_pool env g pool" "chain_inv env g pool hist s" "chain_step env pool s s'"
  shows "\<exists>hist'. chain_inv env g pool hist' s'"
  using assms(4)
proof cases
  case (Push_step b sk r)
  from chain_push_block_inv [OF assms(1,2) Push_step(1), of hist "s\<lparr>skip_flags := sk\<rparr>"] assms(3) Push_step(2) show ?thesis by auto
next
  case (Pop_step r)
  from chain_pop_block_inv [OF assms(3) Pop_step] show ?thesis by blast
qed

lemma reachable_inv:
  assumes "extends_head env" "sound_pool env g pool" "(chain_step env pool)\<^sup>*\<^sup>* (opened g files) s"
  shows "\<exists>hist. chain_inv env g pool hist s"
  using assms(3)
proof (induction rule: rtranclp_induct)
  case base
  show ?case by (rule exI, rule chain_inv_opened)
next
  case (step s s')
  then show ?case using chain_step_inv [OF assms(1,2)] by blast
qed

lemma chain_step_wf:
  assumes "chain_step env pool s s'" "chain_wf (fork_data s) s" "set (fork_data s) \<subseteq> pool"
  shows "chain_wf (fork_data s') s' \<and> set (fork_data s') \<subseteq> pool"
  using assms(1)
proof cases
  case (Push_step b sk r)
  have "chain_wf (fork_data s) (s\<lparr>skip_flags := sk\<rparr>)" using assms(2) by simp
  from chain_push_block_wf [OF this Push_step(2)] assms(3) Push_step(1) show ?thesis by (auto simp: chain_wf_def)
next
  case (Pop_step r)
  from keepsD [OF keeps_chain_pop_block assms(2) this] assms(3) show ?thesis by (auto simp: chain_wf_def)
qed

text \<open>C8: the fork database stays well formed. Whatever blocks are pushed and popped, and however the calls end, every item of the fork database lies next to the
  block it was made from, its \<open>prev\<close> pointer leads to an older item with the id that its block names as previous, the indices and the head point to
  items, and no two indexed items have the same id. Nothing is assumed of the application of blocks.\<close>

theorem chain_steps_keep_wf:
  assumes "(chain_step env pool)\<^sup>*\<^sup>* (opened g files) s"
  shows "fork_wf (fork_db s) \<and> fork_aligned (fork_db s) (fork_data s) \<and> set (fork_data s) \<subseteq> pool"
proof -
  have "chain_wf (fork_data s) s \<and> set (fork_data s) \<subseteq> pool"
    using assms
  proof (induction rule: rtranclp_induct)
    case base
    show ?case using chain_inv_opened [of env g pool files] by (simp add: chain_inv_def)
  next
    case (step s s')
    then show ?case using chain_step_wf by blast
  qed
  then show ?thesis by (simp add: chain_wf_def)
qed

text \<open>C2: pushes and pops move the objects by whole blocks. In every state that a node reaches from its genesis state by pushing and popping
  blocks, whichever forks they form and however the calls end, the objects are the result of applying one chain of pushed blocks to
  the genesis state, and the undo history holds the states of that chain. A further push returns; it leaves the chain, appends the block, or
  replaces the blocks since the fork point by those of the longer fork. If it throws in a fork switch, the objects stand between two blocks of one of
  the two branches.\<close>

theorem pushes_keep_one_chain:
  assumes "hooks_keep_head h" "sound_pool (chain_env_of h checkpoints files) g pool"
    "(chain_step (chain_env_of h checkpoints files) pool)\<^sup>*\<^sup>* (opened g blocks0) s"
  shows "\<exists>hist. chain_inv (chain_env_of h checkpoints files) g pool hist s \<and>
    (\<forall>b \<in> pool. \<exists>r s' hist'. chain_push_block (chain_env_of h checkpoints files) b s = Some (r, s') \<and>
      chain_inv (chain_env_of h checkpoints files) g pool hist' s' \<and> push_outcome (chain_env_of h checkpoints files) b s hist r hist')"
  using reachable_inv [OF chain_env_extends [OF assms(1)] assms(2,3)] chain_push_block_inv [OF chain_env_extends [OF assms(1)] assms(2)]
  by blast

definition push_all :: "('u, 'tx) chain_env \<Rightarrow> 'tx signed_block list \<Rightarrow> ('u, 'tx) chain_db \<Rightarrow> ('u, 'tx) chain_db" where
  "push_all env bs s = foldl (\<lambda>s b. snd (the (chain_push_block env b s))) s bs"

lemma push_all_steps:
  assumes "extends_head env" "sound_pool env g pool" "set bs \<subseteq> pool" "chain_inv env g pool hist s"
  shows "(chain_step env pool)\<^sup>*\<^sup>* s (push_all env bs s)"
  using assms(3,4)
proof (induction bs arbitrary: s hist)
  case Nil
  then show ?case by (simp add: push_all_def)
next
  case (Cons b bs)
  from chain_push_block_inv [OF assms(1,2) _ Cons.prems(2), of b] Cons.prems(1) obtain r s' hist' where
    r: "chain_push_block env b s = Some (r, s')" "chain_inv env g pool hist' s'" by auto
  have "chain_step env pool s s'" using chain_step.Push_step [where sk = "skip_flags s" and b = b and s = s] r(1) Cons.prems(1) by simp
  moreover have "(chain_step env pool)\<^sup>*\<^sup>* s' (push_all env bs s')" using Cons.IH [OF _ r(2)] Cons.prems(1) by simp
  ultimately show ?case using r(1) by (simp add: push_all_def)
qed

definition fork_hooks :: "64 word apply_hooks" where
  "fork_hooks = \<lparr>merkle_root_of = (\<lambda>_. [0, 0, 0, 0, 0]), signee_ok = (\<lambda>_ _. True), has_results = (\<lambda>_. True), hook_transaction = (\<lambda>_ _. Inr),
     hook_maintenance = (\<lambda>_. Inr), hook_expire = Inr\<rparr>"

definition fork_env :: "(node, 64 word) chain_env" where
  "fork_env = chain_env_of fork_hooks [] sample_env"

definition fork_root :: node where
  "fork_root = \<lparr>objects_db = demo_db\<lparr>accounts := empty_table, statistics := empty_table, balances := empty_table, assets := empty_table, dyn_data := empty_table\<rparr>,
     dgp = \<lparr>head_block_number = 0, head_block_id = null_block_id, dgp_time = 10, current_witness = 0,
       current_transaction_count = 0, next_maintenance_time = 100, witness_budget = 0, recently_missed_count = 0,
       current_aslot = 0, recent_slots_filled = of_halves 0 0, dynamic_flags = 0, last_irreversible_block_num = 0\<rparr>,
     gpo = (gpo demo_node)\<lparr>active_witnesses := [1]\<rparr>, current_shuffled_witnesses = [1],
     witnesses = \<lparr>next_id = 2, rows = [demo_witness 1 0]\<rparr>,
     last_checkpoint = None, skip_undo_history_check = False, undo_max_size = 4, node_fork_db = fork_empty,
     block_summaries = replicate 4 null_block_id\<rparr>"

definition fork_block :: "block_id_type \<Rightarrow> 32 word \<Rightarrow> block_id_type \<Rightarrow> 64 word signed_block" where
  "fork_block prev t i = \<lparr>previous = prev, timestamp = t, witness = 1, transaction_merkle_root = [0, 0, 0, 0, 0], extensions = None,
     witness_signature = [], block_id = i, transactions = []\<rparr>"

text \<open>Block 1, and over it a branch with block 2 and one with blocks 2 and 3.\<close>

definition fork_blocks :: "64 word signed_block list" where
  "fork_blocks =
    [fork_block [0, 0, 0, 0, 0] 12 [0x01000000, 12, 12, 12, 12],
     fork_block [0x01000000, 12, 12, 12, 12] 14 [0x02000000, 14, 14, 14, 14],
     fork_block [0x01000000, 12, 12, 12, 12] 16 [0x02000000, 16, 16, 16, 16],
     fork_block [0x02000000, 16, 16, 16, 16] 18 [0x03000000, 18, 18, 18, 18]]"

lemma fork_pool: "sound_pool fork_env fork_root (set fork_blocks)"
proof -
  have "distinct (map block_id fork_blocks)" "ce_head fork_env fork_root \<notin> set (map block_id fork_blocks)"
    "list_all (\<lambda>b. num_from_id (previous b) < num_from_id (block_id b)) fork_blocks" by code_simp+
  then show ?thesis by (auto simp: sound_pool_def distinct_map list_all_iff)
qed

lemma fork_steps: "(chain_step fork_env (set fork_blocks))\<^sup>*\<^sup>* (opened fork_root new_database) (push_all fork_env (take n fork_blocks) (opened fork_root new_database))"
proof (rule push_all_steps [OF _ fork_pool _ chain_inv_opened])
  show "extends_head fork_env" unfolding fork_env_def by (rule chain_env_extends) (simp add: hooks_keep_head_def fork_hooks_def)
qed (rule set_take_subset)

theorem chain_steps_keep_wf_witness:
  "fork_wf (fork_db (push_all fork_env (take 4 fork_blocks) (opened fork_root new_database)))"
  using chain_steps_keep_wf [OF fork_steps [of 4]] by simp

text \<open>The push of the fourth block switches forks. The head of the fork database is left at block 2 (item 2) although block 3 (item 3) is the new head of
  the chain: \<open>pop_block\<close> pops the head of the fork database too, and that is already the new fork.\<close>

lemma fork_run:
  "case chain_push_block fork_env (fork_blocks ! 3) (push_all fork_env (take 3 fork_blocks) (opened fork_root new_database)) of
     Some (Inr c, s') \<Rightarrow> c \<and> head_block_id (dgp (undoable s')) = block_id (fork_blocks ! 3) \<and> length (undo_stack s') = 3 \<and>
       fork_head (fork_db s') = Some 2
   | _ \<Rightarrow> False"
  by code_simp

theorem pushes_keep_one_chain_witness:
  "\<exists>hist s' hist'. chain_push_block fork_env (fork_blocks ! 3) (push_all fork_env (take 3 fork_blocks) (opened fork_root new_database)) = Some (Inr True, s') \<and>
    chain_inv fork_env fork_root (set fork_blocks) hist' s' \<and>
    push_outcome fork_env (fork_blocks ! 3) (push_all fork_env (take 3 fork_blocks) (opened fork_root new_database)) hist (Inr True) hist' \<and>
    head_block_id (dgp (undoable s')) = block_id (fork_blocks ! 3)"
proof -
  let ?s = "push_all fork_env (take 3 fork_blocks) (opened fork_root new_database)"
  have h: "hooks_keep_head fork_hooks" by (simp add: hooks_keep_head_def fork_hooks_def)
  have m: "fork_blocks ! 3 \<in> set fork_blocks" by (rule nth_mem) code_simp
  from pushes_keep_one_chain [OF h fork_pool [unfolded fork_env_def] fork_steps [of 3, unfolded fork_env_def], folded fork_env_def] m obtain hist r s' hist' where
    r: "chain_push_block fork_env (fork_blocks ! 3) ?s = Some (r, s')" "chain_inv fork_env fork_root (set fork_blocks) hist' s'"
    "push_outcome fork_env (fork_blocks ! 3) ?s hist r hist'" by blast
  moreover have "r = Inr True \<and> head_block_id (dgp (undoable s')) = block_id (fork_blocks ! 3)"
    using fork_run r(1) by (cases r) simp_all
  ultimately show ?thesis by blast
qed

end
