(* ===== verification/Spec2Isabelle.thy ===== *)
theory Spec2Isabelle
  imports Undo_Db Market_Eval Authority_Properties Chain_Runs
begin

text \<open>
  A verification development of the Cocos-BCX main net, a delegated-proof-of-stake block chain in C++ of the graphene family.

  \<^bold>\<open>The program.\<close> A node holds typed objects (accounts, balances, assets, orders, witnesses) in an object database with an undo
  history (\<open>libraries/db\<close>). The chain library (\<open>libraries/chain\<close>) applies blocks of signed transactions to the objects: a transaction is a list of
  operations, each checked and carried out by an evaluator. Recent blocks are kept in a fork database, so that the node can
  leave its branch for a longer one by undoing blocks and applying others; all blocks are kept in the block files. The fc
  library (\<open>libraries/fc\<close>) supplies checked integers, 128-bit integers and the binary serialization.

  \<^bold>\<open>Theories and sources.\<close> Paths are relative to \<open>src/libraries\<close>; every definition keeps the name of the code it models where it can.
  \<^item> \<open>Chain_Prelude\<close>, \<open>Stateful\<close>, \<open>Ordered_Index\<close>: exceptions as values, sequencing of computations that may throw, computations that
    keep their changes when they throw, tables of objects and the sorted views of a multi-index container.
  \<^item> \<open>Safe_Int\<close> (\<open>fc/safe.hpp\<close>), \<open>Uint128\<close> (\<open>fc/uint128.hpp\<close>, \<open>fc/src/uint128.cpp\<close>), \<open>Raw\<close> (\<open>fc/io/raw.hpp\<close>, \<open>fc/io/datastream.hpp\<close>): arithmetic and
    serialization, with the widths and the wrap-around of the code.
  \<^item> \<open>Undo_Db\<close> (\<open>db/undo_database.cpp\<close>): sessions, merging, commit and undo.
  \<^item> \<open>Asset_Price\<close> (\<open>chain/protocol/asset.cpp\<close>), \<open>Vesting_Policy\<close> (\<open>chain/vesting_balance_object.cpp\<close>), \<open>Chain_State\<close> (the object headers),
    \<open>Balances\<close> (\<open>chain/db_balance.cpp\<close>, \<open>chain/transfer_evaluator.cpp\<close>, \<open>chain/evaluator.cpp\<close>): amounts, prices, vesting, balances, fees and transfers.
  \<^item> \<open>Market\<close>, \<open>Market_Conservation\<close>, \<open>Market_Properties\<close> (\<open>chain/db_market.cpp\<close>), \<open>Market_Eval\<close> (\<open>chain/market_evaluator.cpp\<close>): the matching engine, margin calls,
    global settlement, and the operations on orders, positions and bids.
  \<^item> \<open>Authority\<close>, \<open>Authority_Properties\<close> (\<open>chain/protocol/authority.hpp\<close>, \<open>chain/protocol/transaction.cpp\<close>): the check of the signatures.
  \<^item> \<open>Block\<close> (\<open>chain/protocol/block.cpp\<close>), \<open>Fork_Db\<close> (\<open>chain/fork_database.cpp\<close>), \<open>Block_Database\<close> (\<open>chain/block_database.cpp\<close>): block ids and merkle roots, the tree of recent blocks
    with its shared and weak pointers, the block files as byte lists with failing streams.
  \<^item> \<open>Witness_Schedule\<close> (\<open>chain/db_witness_schedule.cpp\<close>, \<open>chain/db_update.cpp\<close>): slots, the shuffled schedule, the irreversible block, witness pay.
  \<^item> \<open>Apply_Block\<close>, \<open>Push_Block\<close>, \<open>Chain_History\<close>, \<open>Push_Properties\<close>, \<open>Chain_Runs\<close> (\<open>chain/db_block.cpp\<close>): applying, pushing and popping blocks, and the runs of a node.

  \<^bold>\<open>State and errors.\<close> An object class is a record with the fields of the class, an index a table of rows, the database a record of tables. Evaluators run
  inside an undo session, so they are functions from the state to an exception or a new state; what keeps its changes when
  it throws (the signature check, the block files, pushing blocks) is a stateful computation that returns the exception with the state.
  Dereferencing an end iterator, reading a removed object and signed overflow are the exception \<open>Undefined_behaviour\<close>.

  \<^bold>\<open>What is shown.\<close>
  \<^item> Refinement: the undo database is a stack of snapshots; the block files are a map from numbers to blocks; 128-bit integers are \<open>128 word\<close>s.
  \<^item> Conservation: global settlement, revival, bids, transfers and witness pay keep the imbalance of every asset (what accounts and orders hold
    against the recorded supply) exactly; orders, matching and margin calls keep that of every asset but core, which only grows, by at most
    the deferred fees of the limit orders that are gone; for the cancellation of an order, which refunds such a fee, the amount is exact.
  \<^item> Safety: only accounts whose authority the signatures meet are approved, and all of them within the depth; the margin
    position that an update leaves is not subject to a margin call; an irreversible block is confirmed by seventy percent of the witnesses;
    an accepted block extends the head and was scheduled; pushes and pops keep the objects at one chain of blocks.
  \<^item> Totality: \<open>fetch_branch_from\<close>, the recovery of the index and the division end; runs over the depth or out of fuel are values.
  \<^item> Round trips of the serialization, of prices and of slot times; exact ranges of checked integers; the rounding of a call price; error branches.

  \<^bold>\<open>Interfaces.\<close> The locales \<open>weak_order\<close> (comparators of an index), \<open>vesting_contract\<close> (policies) and \<open>codec\<close> (serialized types) hold the laws their clients use; each is
  interpreted on the definitions of the code.

  \<^bold>\<open>Bounds and fuel.\<close> Loops whose length the code bounds are recursions over that bound: the limbs and bits of a 128-bit integer, the
  depth of the authority check, the slots of the window. Matching loops recurse over the orders an iterator has still to visit; \<open>pop_until\<close> over the
  undo history. The search for a fork point is a partial function, shown to end on every reachable fork database.

  \<^bold>\<open>Parameters.\<close> Code outside the repository or not modelled is an argument: hash functions, recovery of a key from a signature, the floating-point
  conversion of fees, and for the application of a block the evaluators, the maintenance and the removal of expired objects (\<open>apply_hooks\<close>), of which
  the theorems only assume that they leave the head fields alone (\<open>hooks_keep_head\<close>).

  \<^bold>\<open>Conventions.\<close> The release build is modelled, in which the macro \<open>assert\<close> is compiled out; a left shift of a negative number is taken in two's
  complement; memory is allocated. Applying a block ends with its schedule: the updates given to a debugging node and the signals to observers are left out.

  \<^bold>\<open>Not modelled.\<close> Of the chain library: the evaluators of assets, accounts, witnesses, committee members, workers, proposals, vesting and balance claims, and
  the fee schedule, which are left for later (the engine the asset evaluators call is modelled); the maintenance, whose rewards are computed in floating point, and the
  removal of expired objects, which are parameters; the pending transactions and block production; genesis and the opening of the database; non-homogeneous assets, files, world
  views and crontab tasks. The Lua contracts run on an interpreter of its own (\<open>lua-gph\<close>), too large to model here. Network, wallet, RPC interfaces, plugins and
  programs are input and output. Of fc, JSON, logging, threads and sockets are left out, and the cryptography, which calls OpenSSL and secp256k1, is a parameter.
\<close>

end
